(* ===== verification/Prelude.thy ===== *)
theory Prelude
  imports Main "HOL-Library.Word" "HOL-Library.Sublist" "HOL-Library.Code_Target_Nat"
begin

unbundle bit_operations_syntax

text \<open>
  Shared base of the development: C++ exceptions as values, the loops that stop at the first
  exception, 64-bit \<open>std::size_t\<close> arithmetic, and the little-endian byte codec that
  \<open>std::memcpy\<close> between a byte buffer and an integer amounts to on the little-endian
  hosts the client is built for.
\<close>

named_theorems result_simps \<open>unfolding rules of the exception monad\<close>

section \<open>Exceptions as values\<close>

text \<open>
  The C++ exceptions that can leave the modelled code. \<open>Library_error\<close> is an exception of
  a library the sources only call (nlohmann/json). \<open>Undefined_behaviour\<close> marks an
  operation the language gives no meaning to; it is an outcome, but not one that a
  \<open>catch (...)\<close> can intercept.
\<close>

datatype exn =
    Runtime_error string
  | Invalid_argument string
  | Out_of_range string
  | Library_error string
  | Undefined_behaviour string

type_synonym byte = "8 word"
type_synonym 'a result = "exn + 'a"

fun catchable :: "exn \<Rightarrow> bool" where
  "catchable (Undefined_behaviour _) = False"
| "catchable _ = True"

definition is_ok :: "'a result \<Rightarrow> bool" where
  "is_ok r = (case r of Inl _ \<Rightarrow> False | Inr _ \<Rightarrow> True)"

definition bindR :: "'a result \<Rightarrow> ('a \<Rightarrow> 'b result) \<Rightarrow> 'b result" where
  "bindR r f = (case r of Inl e \<Rightarrow> Inl e | Inr x \<Rightarrow> f x)"

text \<open>\<open>try { r } catch (...) { h }\<close>.\<close>

definition catchR :: "'a result \<Rightarrow> 'a result \<Rightarrow> 'a result" where
  "catchR r h = (case r of Inl e \<Rightarrow> (if catchable e then h else Inl e) | Inr x \<Rightarrow> Inr x)"

text \<open>A range-for loop that pushes one element per step and may throw.\<close>

fun mapR :: "('a \<Rightarrow> 'b result) \<Rightarrow> 'a list \<Rightarrow> 'b list result" where
  "mapR f [] = Inr []"
| "mapR f (x # xs) = bindR (f x) (\<lambda>y. bindR (mapR f xs) (\<lambda>ys. Inr (y # ys)))"

lemma is_ok_simps [simp, result_simps]: "\<not> is_ok (Inl e)" "is_ok (Inr x)"
  by (simp_all add: is_ok_def)

lemma bindR_simps [simp, result_simps]:
  "bindR (Inl e) f = Inl e" "bindR (Inr x) f = f x"
  by (simp_all add: bindR_def)

lemma catchR_simps [simp, result_simps]:
  "catchR (Inr x) h = Inr x" "catchable e \<Longrightarrow> catchR (Inl e) h = h"
  by (simp_all add: catchR_def)

lemma bindR_eq_Inr: "bindR r f = Inr y \<longleftrightarrow> (\<exists>x. r = Inr x \<and> f x = Inr y)"
  by (cases r) auto

lemma bindR_eq_Inl: "bindR r f = Inl e \<longleftrightarrow> r = Inl e \<or> (\<exists>x. r = Inr x \<and> f x = Inl e)"
  by (cases r) auto

lemma bindR_cong [fundef_cong]:
  "r = r' \<Longrightarrow> (\<And>x. r' = Inr x \<Longrightarrow> f x = f' x) \<Longrightarrow> bindR r f = bindR r' f'"
  by (cases r') auto

lemma mapR_Inr_iff: "mapR f xs = Inr ys \<longleftrightarrow> list_all2 (\<lambda>x y. f x = Inr y) xs ys"
  by (induction xs arbitrary: ys) (auto simp: bindR_eq_Inr list_all2_Cons1)

lemma mapR_all_Inr: "(\<And>x. x \<in> set xs \<Longrightarrow> f x = Inr (g x)) \<Longrightarrow> mapR f xs = Inr (map g xs)"
  by (induction xs) auto

lemma mapR_length: "mapR f xs = Inr ys \<Longrightarrow> length ys = length xs"
  by (auto simp: mapR_Inr_iff dest: list_all2_lengthD)

lemma mapR_map: "mapR f (map g xs) = mapR (\<lambda>x. f (g x)) xs"
  by (induction xs) auto

section \<open>Arithmetic on \<open>std::size_t\<close>\<close>

abbreviation size_limit :: nat where
  "size_limit \<equiv> 18446744073709551616"

definition add64 :: "nat \<Rightarrow> nat \<Rightarrow> nat" where
  "add64 a b = (a + b) mod size_limit"

lemma add64_small [simp]: "a + b < size_limit \<Longrightarrow> add64 a b = a + b"
  by (simp add: add64_def)

text \<open>\<open>static_cast<std::size_t>\<close> of a \<open>long\<close>.\<close>

definition size_of_long :: "int \<Rightarrow> nat" where
  "size_of_long n = nat (n mod int size_limit)"

lemma size_of_long_nonneg: "0 \<le> n \<Longrightarrow> n < int size_limit \<Longrightarrow> size_of_long n = nat n"
  by (simp add: size_of_long_def)

section \<open>Little-endian bytes of a machine integer\<close>

fun le_bytes :: "nat \<Rightarrow> 'a::len word \<Rightarrow> byte list" where
  "le_bytes 0 w = []"
| "le_bytes (Suc n) w = ucast w # le_bytes n (drop_bit 8 w)"

fun le_word :: "byte list \<Rightarrow> 'a::len word" where
  "le_word [] = 0"
| "le_word (b # bs) = ucast b OR push_bit 8 (le_word bs)"

lemma le_bytes_length [simp]: "length (le_bytes n w) = n"
  by (induction n arbitrary: w) auto

lemma bit_le_word:
  "bit (le_word bs :: 'a::len word) i \<longleftrightarrow>
     i < LENGTH('a) \<and> i < 8 * length bs \<and> bit (bs ! (i div 8)) (i mod 8)"
proof (induction bs arbitrary: i)
  case (Cons b bs)
  show ?case
  proof (cases "i < 8")
    case True
    then show ?thesis
      by (auto simp: bit_or_iff bit_push_bit_iff bit_ucast_iff)
  next
    case False
    then obtain j where i: "i = 8 + j" by (metis le_Suc_ex not_less)
    have "\<not> bit b i" using False by (simp add: bit_word.rep_eq)
    moreover have "(8 + j) div 8 = Suc (j div 8)" "(8 + j) mod 8 = j mod 8" by simp_all
    ultimately show ?thesis
      using Cons.IH [of j] by (auto simp: i bit_or_iff bit_push_bit_iff bit_ucast_iff)
  qed
qed simp

lemma le_bytes_nth: "k < n \<Longrightarrow> le_bytes n w ! k = ucast (drop_bit (8 * k) w)"
proof (induction n arbitrary: w k)
  case (Suc n)
  then show ?case by (cases k) (auto simp: add.commute)
qed simp

lemma le_word_le_bytes:
  assumes "LENGTH('a) \<le> 8 * n"
  shows "le_word (le_bytes n w) = (w :: 'a::len word)"
proof (rule bit_word_eqI)
  fix i assume i: "i < LENGTH('a)"
  have "i div 8 < n" using i assms by (simp add: less_mult_imp_div_less mult.commute)
  then show "bit (le_word (le_bytes n w) :: 'a word) i = bit w i"
    using i assms by (simp add: bit_le_word le_bytes_nth bit_ucast_iff bit_drop_bit_eq)
qed

lemma le_bytes_le_word:
  assumes "length bs = n" "8 * n \<le> LENGTH('a)"
  shows "le_bytes n (le_word bs :: 'a::len word) = bs"
proof (rule nth_equalityI)
  fix k assume k: "k < length (le_bytes n (le_word bs :: 'a word))"
  show "le_bytes n (le_word bs :: 'a word) ! k = bs ! k"
  proof (rule bit_word_eqI)
    fix i assume "i < LENGTH(8)"
    then have i: "i < 8" by simp
    have "8 * k + i < 8 * n" using k i by simp
    moreover have "(8 * k + i) div 8 = k" "(8 * k + i) mod 8 = i" using i by auto
    ultimately show "bit (le_bytes n (le_word bs :: 'a word) ! k) i = bit (bs ! k) i"
      using k i assms by (simp add: le_bytes_nth bit_ucast_iff bit_drop_bit_eq bit_le_word)
  qed
qed (use assms in simp)

section \<open>Characters and bytes\<close>

text \<open>A \<open>char\<close> of a \<open>std::string\<close> and a \<open>std::uint8_t\<close> are the same eight bits.\<close>

definition byte_of_char :: "char \<Rightarrow> byte" where
  "byte_of_char c = word_of_nat (of_char c)"

definition char_of_byte :: "byte \<Rightarrow> char" where
  "char_of_byte b = char_of (unat b)"

lemma byte_of_char_of_byte [simp]: "byte_of_char (char_of_byte b) = b"
  using unsigned_less [of b, where 'a = nat] by (simp add: byte_of_char_def char_of_byte_def)

lemma map_byte_of_char_of_byte [simp]: "map (byte_of_char \<circ> char_of_byte) bs = bs"
  "map byte_of_char (map char_of_byte bs) = bs"
  by (simp_all add: comp_def)

text \<open>Consecutive blocks of a list, as the index loops over a buffer read them.\<close>

definition block :: "nat \<Rightarrow> 'a list \<Rightarrow> nat \<Rightarrow> 'a list" where
  "block w xs i = take w (drop (i * w) xs)"

lemma block_length: "i < length xs div w \<Longrightarrow> length (block w xs i) = w"
proof -
  assume "i < length xs div w"
  then have "(i + 1) * w \<le> length xs div w * w" by (intro mult_le_mono1) simp
  also have "\<dots> \<le> length xs" by (rule div_times_less_eq_dividend)
  finally have "i * w + w \<le> length xs" by (simp add: add.commute)
  then show ?thesis by (simp add: block_def)
qed

lemma concat_blocks: "concat (map (block w xs) [0..<n]) = take (n * w) xs"
proof (induction n)
  case (Suc n)
  then show ?case by (simp add: block_def take_add [symmetric] add.commute)
qed simp

lemma concat_all_blocks: "w dvd length xs \<Longrightarrow> concat (map (block w xs) [0..<length xs div w]) = xs"
  by (simp add: concat_blocks)

end
