(* ===== verification/Cpp_String.thy ===== *)
theory Cpp_String
  imports Prelude
begin

text \<open>
  The operations of the C++ standard library on \<open>std::string\<close> that the client uses:
  searching, \<open>substr\<close>, \<open>tolower\<close>, \<open>std::to_string\<close> and the
  \<open>sto*\<close> family of number readers. A string is a list of bytes; a search result
  \<open>std::string::npos\<close> is \<open>None\<close>. The client runs in the default
  locale, in which only the ASCII letters have a lower case.
\<close>

named_theorems find_simps \<open>results of a search in a concatenation\<close>

section \<open>Searching\<close>

fun find_str :: "string \<Rightarrow> string \<Rightarrow> nat option" where
  "find_str p [] = (if p = [] then Some 0 else None)"
| "find_str p (c # cs) =
     (if prefix p (c # cs) then Some 0 else map_option Suc (find_str p cs))"

text \<open>\<open>s.find(p, pos)\<close>.\<close>

definition find_from :: "string \<Rightarrow> string \<Rightarrow> nat \<Rightarrow> nat option" where
  "find_from p s pos =
     (if pos \<le> length s then map_option ((+) pos) (find_str p (drop pos s)) else None)"

definition contains_str :: "string \<Rightarrow> string \<Rightarrow> bool" where
  "contains_str p s = (find_str p s \<noteq> None)"

text \<open>\<open>s.rfind(p, 0) == 0\<close>: the only place looked at is the start.\<close>

definition starts_with :: "string \<Rightarrow> string \<Rightarrow> bool" where
  "starts_with p s = prefix p s"

lemma find_str_bound: "find_str p s = Some i \<Longrightarrow> i + length p \<le> length s"
  by (induction s arbitrary: i) (auto split: if_splits dest: prefix_length_le)

lemma find_str_prefix: "find_str p s = Some i \<Longrightarrow> prefix p (drop i s)"
  by (induction s arbitrary: i) (auto split: if_splits)

lemma find_str_first: "find_str p s = Some i \<Longrightarrow> j < i \<Longrightarrow> \<not> prefix p (drop j s)"
proof (induction s arbitrary: i j)
  case (Cons c cs)
  then show ?case by (cases j) (auto split: if_splits)
qed (auto split: if_splits)

lemma find_str_None: "find_str p s = None \<longleftrightarrow> (\<forall>j \<le> length s. \<not> prefix p (drop j s))"
proof (induction s)
  case (Cons c cs)
  show ?case
  proof
    assume n: "find_str p (c # cs) = None"
    show "\<forall>j \<le> length (c # cs). \<not> prefix p (drop j (c # cs))"
    proof (intro allI impI)
      fix j assume "j \<le> length (c # cs)"
      then show "\<not> prefix p (drop j (c # cs))"
        using n Cons.IH by (cases j) (auto split: if_splits)
    qed
  next
    assume a: "\<forall>j \<le> length (c # cs). \<not> prefix p (drop j (c # cs))"
    have "\<not> prefix p (c # cs)" using a [rule_format, of 0] by simp
    moreover have "\<not> prefix p (drop j cs)" if "j \<le> length cs" for j
      using a [rule_format, of "Suc j"] that by simp
    ultimately show "find_str p (c # cs) = None" using Cons.IH by simp
  qed
qed simp

lemma find_str_eqI:
  assumes "prefix p (drop i s)" "\<And>j. j < i \<Longrightarrow> \<not> prefix p (drop j s)" "i \<le> length s"
  shows "find_str p s = Some i"
proof (cases "find_str p s")
  case None
  then show ?thesis using assms by (auto simp: find_str_None)
next
  case (Some k)
  have "\<not> i < k" using find_str_first [OF Some] assms(1) by blast
  moreover have "\<not> k < i" using find_str_prefix [OF Some] assms(2) by blast
  ultimately show ?thesis using Some by simp
qed

text \<open>A needle whose first character does not occur in the text before it.\<close>

lemma find_str_append [find_simps]:
  assumes "c \<notin> set a"
  shows "find_str (c # p) (a @ (c # p) @ b) = Some (length a)"
proof (rule find_str_eqI)
  fix j assume j: "j < length a"
  then have "drop j (a @ (c # p) @ b) = a ! j # drop (Suc j) a @ (c # p) @ b"
    by (simp add: Cons_nth_drop_Suc [symmetric])
  moreover have "a ! j \<noteq> c" using assms j by (metis nth_mem)
  ultimately show "\<not> prefix (c # p) (drop j (a @ (c # p) @ b))" by (auto simp: prefix_Cons)
qed auto

lemma find_str_char: "c \<notin> set a \<Longrightarrow> find_str [c] (a @ c # b) = Some (length a)"
  using find_str_append [of c a "[]" b] by simp

lemma find_str_char_None: "find_str [c] s = None \<longleftrightarrow> c \<notin> set s"
  by (induction s) (auto simp: prefix_Cons)

lemma find_str_char_SomeD:
  assumes "find_str [c] s = Some i"
  shows "i < length s" "s ! i = c" "c \<notin> set (take i s)"
proof -
  show i: "i < length s" using find_str_bound [OF assms] by simp
  then show "s ! i = c"
    using find_str_prefix [OF assms] by (auto simp: Cons_nth_drop_Suc [symmetric])
  show "c \<notin> set (take i s)"
  proof
    assume "c \<in> set (take i s)"
    then obtain j where j: "j < i" "j < length s" "s ! j = c"
      by (auto simp: in_set_conv_nth)
    then have "prefix [c] (drop j s)" by (simp add: Cons_nth_drop_Suc [symmetric])
    then show False using find_str_first [OF assms j(1)] by simp
  qed
qed

lemma contains_str_iff: "contains_str p s \<longleftrightarrow> (\<exists>a b. s = a @ p @ b)"
proof
  assume "contains_str p s"
  then obtain i where "find_str p s = Some i" by (auto simp: contains_str_def)
  then have "prefix p (drop i s)" by (rule find_str_prefix)
  then obtain b where "drop i s = p @ b" by (auto simp: prefix_def)
  then show "\<exists>a b. s = a @ p @ b" by (metis append_take_drop_id)
next
  assume "\<exists>a b. s = a @ p @ b"
  then obtain a b where s: "s = a @ p @ b" by blast
  then have "prefix p (drop (length a) s)" "length a \<le> length s" by auto
  then show "contains_str p s" by (auto simp: contains_str_def find_str_None)
qed

section \<open>Characters\<close>

definition is_space :: "char \<Rightarrow> bool" where
  "is_space c = (c \<in> {CHR '' '', CHR 0x09, CHR 0x0A, CHR 0x0B, CHR 0x0C, CHR 0x0D})"

definition to_lower_char :: "char \<Rightarrow> char" where
  "to_lower_char c =
     (let n = of_char c :: nat in if 65 \<le> n \<and> n \<le> 90 then char_of (n + 32) else c)"

definition to_lower :: "string \<Rightarrow> string" where
  "to_lower s = map to_lower_char s"

text \<open>The value of a digit in bases up to 16.\<close>

definition digit_val :: "char \<Rightarrow> nat option" where
  "digit_val c =
     (let n = of_char c :: nat in
      if 48 \<le> n \<and> n \<le> 57 then Some (n - 48)
      else if 65 \<le> n \<and> n \<le> 70 then Some (n - 55)
      else if 97 \<le> n \<and> n \<le> 102 then Some (n - 87)
      else None)"

definition is_digit_in :: "nat \<Rightarrow> char \<Rightarrow> bool" where
  "is_digit_in base c = (case digit_val c of None \<Rightarrow> False | Some d \<Rightarrow> d < base)"

lemma to_lower_length [simp]: "length (to_lower s) = length s"
  by (simp add: to_lower_def)

lemma to_lower_append [simp]: "to_lower (a @ b) = to_lower a @ to_lower b"
  by (simp add: to_lower_def)

lemma to_lower_Nil [simp]: "to_lower [] = []"
  by (simp add: to_lower_def)

lemma to_lower_Cons: "to_lower (c # s) = to_lower_char c # to_lower s"
  by (simp add: to_lower_def)

section \<open>Reading numbers\<close>

text \<open>
  \<open>strtol\<close> and \<open>strtoul\<close>: leading white space, an optional sign, in base 16 an optional
  \<open>0x\<close>, then the longest run of digits; what follows is ignored. \<open>None\<close>
  when there is no digit. The value is not bounded yet.
\<close>

definition digit_or_zero :: "char \<Rightarrow> nat" where
  "digit_or_zero c = (case digit_val c of None \<Rightarrow> 0 | Some d \<Rightarrow> d)"

definition digits_value :: "nat \<Rightarrow> string \<Rightarrow> nat" where
  "digits_value base s = foldl (\<lambda>n c. n * base + digit_or_zero c) 0 s"

fun split_sign :: "string \<Rightarrow> bool \<times> string" where
  "split_sign [] = (False, [])"
| "split_sign (c # cs) =
     (if c = CHR ''-'' then (True, cs)
      else if c = CHR ''+'' then (False, cs)
      else (False, c # cs))"

definition strip_hex :: "nat \<Rightarrow> string \<Rightarrow> string" where
  "strip_hex base s =
     (if base = 16 \<and> 3 \<le> length s \<and> s ! 0 = CHR ''0'' \<and>
         (s ! 1 = CHR ''x'' \<or> s ! 1 = CHR ''X'') \<and> is_digit_in 16 (s ! 2)
      then drop 2 s else s)"

definition read_int :: "nat \<Rightarrow> string \<Rightarrow> (bool \<times> nat) option" where
  "read_int base s =
     (case split_sign (dropWhile is_space s) of (neg, rest) \<Rightarrow>
        let ds = takeWhile (is_digit_in base) (strip_hex base rest)
        in if ds = [] then None else Some (neg, digits_value base ds))"

definition signed_of :: "bool \<times> nat \<Rightarrow> int" where
  "signed_of p = (case p of (neg, n) \<Rightarrow> if neg then - int n else int n)"

definition stol :: "string \<Rightarrow> int result" where
  "stol s =
     (case read_int 10 s of
        None \<Rightarrow> Inl (Invalid_argument ''stol'')
      | Some p \<Rightarrow>
          let v = signed_of p
          in if - (2 ^ 63) \<le> v \<and> v < 2 ^ 63 then Inr v else Inl (Out_of_range ''stol''))"

definition stoi :: "string \<Rightarrow> int result" where
  "stoi s =
     (case read_int 10 s of
        None \<Rightarrow> Inl (Invalid_argument ''stoi'')
      | Some p \<Rightarrow>
          let v = signed_of p
          in if - (2 ^ 31) \<le> v \<and> v < 2 ^ 31 then Inr v else Inl (Out_of_range ''stoi''))"

text \<open>\<open>strtoul\<close> accepts a minus sign and negates in \<open>unsigned long\<close>.\<close>

definition stoul :: "nat \<Rightarrow> string \<Rightarrow> nat result" where
  "stoul base s =
     (case read_int base s of
        None \<Rightarrow> Inl (Invalid_argument ''stoul'')
      | Some (neg, n) \<Rightarrow>
          if size_limit \<le> n then Inl (Out_of_range ''stoul'')
          else Inr (if neg then (size_limit - n) mod size_limit else n))"

section \<open>Writing numbers\<close>

definition digit_char :: "nat \<Rightarrow> char" where
  "digit_char d = char_of (if d < 10 then 48 + d else 87 + d)"

function to_base :: "nat \<Rightarrow> nat \<Rightarrow> string" where
  "to_base b n =
     (if b < 2 \<or> n < b then [digit_char n] else to_base b (n div b) @ [digit_char (n mod b)])"
  by pat_completeness auto
termination
  by (relation "measure (\<lambda>(b, n). n)") auto

declare to_base.simps [simp del]

text \<open>\<open>std::to_string\<close> of an unsigned and of a signed integer.\<close>

definition string_of_nat :: "nat \<Rightarrow> string" where
  "string_of_nat n = to_base 10 n"

definition string_of_int :: "int \<Rightarrow> string" where
  "string_of_int k =
     (if k < 0 then CHR ''-'' # string_of_nat (nat (- k)) else string_of_nat (nat k))"

section \<open>Reading what was written\<close>

lemma digit_val_digit_char: "d < 16 \<Longrightarrow> digit_val (digit_char d) = Some d"
  by (simp add: digit_val_def digit_char_def Let_def)

lemma digit_or_zero_digit_char [simp]: "d < 16 \<Longrightarrow> digit_or_zero (digit_char d) = d"
  by (simp add: digit_or_zero_def digit_val_digit_char)

lemma digits_value_append:
  "digits_value b (s @ [c]) = digits_value b s * b + digit_or_zero c"
  by (simp add: digits_value_def)

lemma digits_value_to_base:
  assumes "2 \<le> b" "b \<le> 16"
  shows "digits_value b (to_base b n) = n"
  using assms
proof (induction b n rule: to_base.induct)
  case (1 b n)
  show ?case
  proof (cases "n < b")
    case True
    then show ?thesis using "1.prems" by (subst to_base.simps) (simp add: digits_value_def)
  next
    case False
    then have "digits_value b (to_base b (n div b)) = n div b" using 1 by simp
    moreover have "n mod b < 16"
      using "1.prems" mod_less_divisor [of b n] by linarith
    ultimately show ?thesis
      using False "1.prems" by (subst to_base.simps) (simp add: digits_value_append)
  qed
qed

lemma to_base_digits:
  assumes "2 \<le> b" "b \<le> 16" "c \<in> set (to_base b n)"
  shows "is_digit_in b c"
  using assms
proof (induction b n rule: to_base.induct)
  case (1 b n)
  have d: "is_digit_in b (digit_char m)" if "m < b" for m
    using that "1.prems" by (simp add: is_digit_in_def digit_val_digit_char)
  show ?case
  proof (cases "n < b")
    case True
    then show ?thesis using "1.prems" d by (subst (asm) to_base.simps) auto
  next
    case False
    then have "c \<in> set (to_base b (n div b)) \<or> c = digit_char (n mod b)"
      using "1.prems" by (subst (asm) to_base.simps) auto
    moreover have "n mod b < b" using "1.prems" by simp
    ultimately show ?thesis using 1 d False by auto
  qed
qed

lemma to_base_not_Nil [simp]: "to_base b n \<noteq> []"
  by (subst to_base.simps) simp

lemma digit_not_special:
  assumes "is_digit_in b c"
  shows "\<not> is_space c" "c \<noteq> CHR ''-''" "c \<noteq> CHR ''+''" "c \<noteq> CHR 0x0D" "c \<noteq> CHR 0x0A"
    "c \<noteq> CHR ''x''" "c \<noteq> CHR ''X''" "c \<noteq> CHR '' ''" "c \<noteq> CHR '';''" "c \<noteq> CHR '':''" "c \<noteq> CHR ''/''"
  using assms by (auto simp: is_digit_in_def digit_val_def is_space_def Let_def)

lemma strip_hex_to_base:
  assumes "2 \<le> b" "b \<le> 16" "rest = [] \<or> \<not> is_digit_in b (hd rest) \<and> hd rest \<notin> {CHR ''x'', CHR ''X''}"
  shows "strip_hex b (to_base b n @ rest) = to_base b n @ rest"
proof (rule ccontr)
  let ?s = "to_base b n @ rest"
  assume "strip_hex b ?s \<noteq> ?s"
  then have x: "?s ! 1 = CHR ''x'' \<or> ?s ! 1 = CHR ''X''" "2 < length ?s"
    by (auto simp: strip_hex_def split: if_splits)
  show False
  proof (cases "1 < length (to_base b n)")
    case True
    then have "?s ! 1 \<in> set (to_base b n)" by (simp add: nth_append)
    then show False using to_base_digits [OF assms(1,2)] digit_not_special x by metis
  next
    case False
    moreover have "0 < length (to_base b n)" by simp
    ultimately have l: "length (to_base b n) = 1" by linarith
    then have "?s ! 1 = rest ! 0" "rest \<noteq> []" using x(2) by (auto simp: nth_append)
    then show False using assms(3) x(1) by (auto simp: hd_conv_nth)
  qed
qed

lemma read_int_to_base:
  assumes "2 \<le> b" "b \<le> 16" "rest = [] \<or> \<not> is_digit_in b (hd rest) \<and> hd rest \<notin> {CHR ''x'', CHR ''X''}"
  shows "read_int b (to_base b n @ rest) = Some (False, n)"
proof -
  obtain c cs where c: "to_base b n = c # cs" by (metis to_base_not_Nil neq_Nil_conv)
  then have d: "is_digit_in b c" using to_base_digits [OF assms(1,2), of c n] by simp
  have dw: "dropWhile is_space (to_base b n @ rest) = to_base b n @ rest"
    using digit_not_special(1) [OF d] by (simp add: c)
  have ss: "split_sign (to_base b n @ rest) = (False, to_base b n @ rest)"
    using digit_not_special(2,3) [OF d] by (simp add: c)
  have "takeWhile (is_digit_in b) (to_base b n @ rest) = to_base b n"
    using to_base_digits [OF assms(1,2)] assms(3)
    by (cases rest) (auto simp: takeWhile_append2)
  then show ?thesis
    by (simp add: read_int_def dw ss strip_hex_to_base [OF assms] digits_value_to_base assms)
qed

lemma read_int_space: "is_space c \<Longrightarrow> read_int b (c # s) = read_int b s"
  by (simp add: read_int_def)

text \<open>A text that does not start with a decimal digit, so a number written before it ends there.\<close>

definition no_digit_ahead :: "string \<Rightarrow> bool" where
  "no_digit_ahead s = (s = [] \<or> \<not> is_digit_in 10 (hd s) \<and> hd s \<notin> {CHR ''x'', CHR ''X''})"

lemma read_int_string_of_nat:
  "no_digit_ahead rest \<Longrightarrow> read_int 10 (string_of_nat n @ rest) = Some (False, n)"
  using read_int_to_base [of 10 rest n] by (simp add: string_of_nat_def no_digit_ahead_def)

lemma stoi_string_of_nat:
  "n < 2 ^ 31 \<Longrightarrow> no_digit_ahead rest \<Longrightarrow> stoi (string_of_nat n @ rest) = Inr (int n)"
  by (simp add: stoi_def read_int_string_of_nat signed_of_def Let_def)

lemma stol_string_of_nat:
  "n < 2 ^ 63 \<Longrightarrow> no_digit_ahead rest \<Longrightarrow> stol (string_of_nat n @ rest) = Inr (int n)"
  by (simp add: stol_def read_int_string_of_nat signed_of_def Let_def)

lemma stol_space: "is_space c \<Longrightarrow> stol (c # s) = stol s"
  by (simp add: stol_def read_int_space)

lemma stoi_range: "stoi s = Inr v \<Longrightarrow> - (2 ^ 31) \<le> v \<and> v < 2 ^ 31"
  by (auto simp: stoi_def Let_def split: option.splits if_splits)

lemma stol_range: "stol s = Inr v \<Longrightarrow> - (2 ^ 63) \<le> v \<and> v < 2 ^ 63"
  by (auto simp: stol_def Let_def split: option.splits if_splits)

lemma stoul_range: "stoul b s = Inr v \<Longrightarrow> v < size_limit"
  by (auto simp: stoul_def split: option.splits if_splits prod.splits)

lemma stol_catchable: "stol s = Inl e \<Longrightarrow> catchable e"
  by (auto simp: stol_def Let_def split: option.splits if_splits)

lemma stoi_catchable: "stoi s = Inl e \<Longrightarrow> catchable e"
  by (auto simp: stoi_def Let_def split: option.splits if_splits)

lemma stoul_catchable: "stoul b s = Inl e \<Longrightarrow> catchable e"
  by (auto simp: stoul_def split: option.splits if_splits prod.splits)

lemma string_of_nat_chars: "c \<in> set (string_of_nat n) \<Longrightarrow> is_digit_in 10 c"
  using to_base_digits [of 10 c n] by (simp add: string_of_nat_def)

lemma string_of_nat_not_Nil [simp]: "string_of_nat n \<noteq> []"
  by (simp add: string_of_nat_def)

end
