(* ===== verification/Endpoint.thy ===== *)
theory Endpoint
  imports Cpp_String
begin

text \<open>
  The connection target derived from a user-supplied URL (\<open>stripScheme\<close> and
  \<open>parseEndpoint\<close> of \<open>src/KserveProtocol.cpp\<close>, \<open>struct Endpoint\<close> of
  \<open>include/KserveProtocol.hpp\<close>). Both clients build their requests from it.
\<close>

section \<open>The parser\<close>

record Endpoint =
  ep_host :: string
  ep_port :: int
  ep_path_prefix :: string
  ep_tls :: bool

definition stripScheme :: "string \<Rightarrow> string \<times> bool" where
  "stripScheme url =
     (if starts_with ''https://'' url then (drop 8 url, True)
      else if starts_with ''grpcs://'' url then (drop 8 url, True)
      else if starts_with ''http://'' url then (drop 7 url, False)
      else if starts_with ''grpc://'' url then (drop 7 url, False)
      else (url, False))"

text \<open>\<open>while (!prefix.empty() && prefix.back() == '/') prefix.pop_back();\<close>\<close>

function pop_slashes :: "string \<Rightarrow> string" where
  "pop_slashes s = (if s \<noteq> [] \<and> last s = CHR ''/'' then pop_slashes (butlast s) else s)"
  by pat_completeness auto
termination
  by (relation "measure length") auto

declare pop_slashes.simps [simp del]

definition parseEndpoint :: "string \<Rightarrow> int \<Rightarrow> Endpoint result" where
  "parseEndpoint url default_port =
     (let (value, tls) = stripScheme url;
          (authority, path_prefix) =
            (case find_str ''/'' value of
               None \<Rightarrow> (value, [])
             | Some slash \<Rightarrow> (take slash value, pop_slashes (drop slash value)))
      in case find_str '':'' authority of
           None \<Rightarrow> Inr \<lparr>ep_host = authority, ep_port = default_port,
                       ep_path_prefix = path_prefix, ep_tls = tls\<rparr>
         | Some colon \<Rightarrow>
             bindR (stoi (drop (colon + 1) authority)) (\<lambda>p.
               Inr \<lparr>ep_host = take colon authority, ep_port = p,
                    ep_path_prefix = path_prefix, ep_tls = tls\<rparr>))"

section \<open>Facts about the parts\<close>

lemma pop_slashes_last: "pop_slashes s = [] \<or> last (pop_slashes s) \<noteq> CHR ''/''"
  by (induction s rule: pop_slashes.induct) (subst (1 2) pop_slashes.simps, auto)

lemma pop_slashes_prefix: "prefix (pop_slashes s) s"
proof (induction s rule: pop_slashes.induct)
  case (1 s)
  then show ?case
    by (subst pop_slashes.simps) (auto intro: prefix_order.trans [OF _ prefixeq_butlast])
qed

lemma pop_slashes_id: "s = [] \<or> last s \<noteq> CHR ''/'' \<Longrightarrow> pop_slashes s = s"
  by (subst pop_slashes.simps) auto

lemma pop_slashes_replicate:
  "s = [] \<or> last s \<noteq> CHR ''/'' \<Longrightarrow> pop_slashes (s @ replicate n CHR ''/'') = s"
proof (induction n)
  case (Suc n)
  have r: "s @ replicate (Suc n) CHR ''/'' = (s @ replicate n CHR ''/'') @ [CHR ''/'']"
    by (simp add: replicate_append_same)
  have "pop_slashes (s @ replicate (Suc n) CHR ''/'') = pop_slashes (s @ replicate n CHR ''/'')"
    unfolding r by (subst pop_slashes.simps) (simp del: append_assoc)
  then show ?case using Suc by simp
qed (simp add: pop_slashes_id)

lemma stripScheme_tls:
  "snd (stripScheme url) \<longleftrightarrow> starts_with ''https://'' url \<or> starts_with ''grpcs://'' url"
  by (simp add: stripScheme_def)

text \<open>How a parse can come out, and what it then returns.\<close>

definition authority_of :: "string \<Rightarrow> string" where
  "authority_of url =
     (let value = fst (stripScheme url)
      in case find_str ''/'' value of None \<Rightarrow> value | Some i \<Rightarrow> take i value)"

definition path_of :: "string \<Rightarrow> string" where
  "path_of url =
     (let value = fst (stripScheme url)
      in case find_str ''/'' value of None \<Rightarrow> [] | Some i \<Rightarrow> pop_slashes (drop i value))"

lemma parseEndpoint_parts:
  "parseEndpoint url d =
     (case find_str '':'' (authority_of url) of
        None \<Rightarrow> Inr \<lparr>ep_host = authority_of url, ep_port = d,
                    ep_path_prefix = path_of url, ep_tls = snd (stripScheme url)\<rparr>
      | Some i \<Rightarrow> bindR (stoi (drop (i + 1) (authority_of url))) (\<lambda>p.
                    Inr \<lparr>ep_host = take i (authority_of url), ep_port = p,
                         ep_path_prefix = path_of url, ep_tls = snd (stripScheme url)\<rparr>))"
  by (simp add: parseEndpoint_def authority_of_def path_of_def Let_def split: prod.splits option.splits)

lemma authority_no_slash: "CHR ''/'' \<notin> set (authority_of url)"
  by (auto simp: authority_of_def Let_def find_str_char_None split: option.splits
      dest: find_str_char_SomeD(3))

lemma parseEndpoint_fields:
  assumes "parseEndpoint url d = Inr ep"
  shows "ep_path_prefix ep = path_of url" "ep_tls ep = snd (stripScheme url)"
    "CHR ''/'' \<notin> set (ep_host ep)" "CHR '':'' \<notin> set (ep_host ep)"
    "ep_port ep = d \<or> - (2 ^ 31) \<le> ep_port ep \<and> ep_port ep < 2 ^ 31"
  using assms authority_no_slash [of url] in_set_takeD
  by (fastforce simp: parseEndpoint_parts bindR_eq_Inr find_str_char_None split: option.splits
      dest: stoi_range find_str_char_SomeD(3))+

lemma path_of_shape: "path_of url = [] \<or> hd (path_of url) = CHR ''/'' \<and> last (path_of url) \<noteq> CHR ''/''"
proof (cases "find_str ''/'' (fst (stripScheme url))")
  case (Some i)
  let ?d = "drop i (fst (stripScheme url))"
  have d: "hd ?d = CHR ''/''"
    using find_str_char_SomeD(1,2) [OF Some] by (metis hd_drop_conv_nth)
  have "pop_slashes ?d = [] \<or> hd (pop_slashes ?d) = hd ?d"
    using pop_slashes_prefix [of ?d] by (metis prefix_def hd_append2)
  then show ?thesis
    using pop_slashes_last [of ?d] d Some by (auto simp: path_of_def Let_def)
qed (simp add: path_of_def)

section \<open>A specification: rendering an endpoint\<close>

text \<open>
  The URL forms the header comment of \<open>parseEndpoint\<close> promises: a scheme, a host, an optional
  port, a path prefix, and any number of trailing slashes.
\<close>

datatype scheme = No_scheme | Http | Https | Grpc | Grpcs

fun scheme_text :: "scheme \<Rightarrow> string" where
  "scheme_text No_scheme = []"
| "scheme_text Http = ''http://''"
| "scheme_text Https = ''https://''"
| "scheme_text Grpc = ''grpc://''"
| "scheme_text Grpcs = ''grpcs://''"

fun scheme_tls :: "scheme \<Rightarrow> bool" where
  "scheme_tls Https = True"
| "scheme_tls Grpcs = True"
| "scheme_tls _ = False"

definition port_text :: "nat option \<Rightarrow> string" where
  "port_text p = (case p of None \<Rightarrow> [] | Some n \<Rightarrow> '':'' @ string_of_nat n)"

definition render_url :: "scheme \<Rightarrow> string \<Rightarrow> nat option \<Rightarrow> string \<Rightarrow> nat \<Rightarrow> string" where
  "render_url sch h p path slashes =
     scheme_text sch @ h @ port_text p @ path @ replicate slashes CHR ''/''"

text \<open>A path prefix is empty, or starts with a slash and does not end with one.\<close>

definition clean_path :: "string \<Rightarrow> bool" where
  "clean_path path = (path = [] \<or> hd path = CHR ''/'' \<and> last path \<noteq> CHR ''/'')"

definition plain_host :: "string \<Rightarrow> bool" where
  "plain_host h = (CHR ''/'' \<notin> set h \<and> CHR '':'' \<notin> set h)"

lemma port_text_no_slash: "CHR ''/'' \<notin> set (port_text p)"
  using string_of_nat_chars digit_not_special(11)
  by (fastforce simp: port_text_def split: option.splits)

lemma scheme_split:
  assumes "a @ CHR '':'' # x = b @ y" "CHR '':'' \<notin> set a" "CHR '':'' \<notin> set b" "y = [] \<or> hd y = CHR '':'' \<or> hd y = CHR ''/''"
    "CHR ''/'' \<notin> set a"
  shows "a = b \<and> CHR '':'' # x = y"
  using assms
proof (induction a arbitrary: b)
  case Nil
  then show ?case by (cases b) auto
next
  case (Cons c a)
  then show ?case by (cases b; cases y) auto
qed

text \<open>Without a scheme, such a URL does not look as if it had one.\<close>

lemma no_scheme_start:
  assumes "plain_host h" "clean_path path" "CHR '':'' \<notin> set sch" "CHR ''/'' \<notin> set sch"
  shows "\<not> prefix (sch @ ''://'') (h @ port_text p @ path @ replicate n CHR ''/'')"
proof
  let ?y = "port_text p @ path @ replicate n CHR ''/''"
  assume "prefix (sch @ ''://'') (h @ ?y)"
  then obtain x where x: "sch @ CHR '':'' # ''//'' @ x = h @ ?y" by (auto simp: prefix_def)
  have y: "?y = [] \<or> hd ?y = CHR '':'' \<or> hd ?y = CHR ''/''"
    using assms(2) by (cases n; cases path) (auto simp: port_text_def clean_path_def split: option.splits)
  have e: "CHR '':'' # ''//'' @ x = ?y"
    using scheme_split [OF x assms(3)] assms(1,4) y by (simp add: plain_host_def)
  show False
  proof (cases p)
    case None
    then show False using e assms(2) by (cases n; cases path) (auto simp: port_text_def clean_path_def)
  next
    case (Some k)
    obtain c cs where c: "string_of_nat k = c # cs" by (metis string_of_nat_not_Nil neq_Nil_conv)
    then have "c = CHR ''/''" using e Some by (simp add: port_text_def)
    then show False using string_of_nat_chars [of c k] digit_not_special(11) c by auto
  qed
qed

lemma stripScheme_render:
  assumes "plain_host h" "clean_path path"
  shows "stripScheme (render_url sch h p path n) =
           (h @ port_text p @ path @ replicate n CHR ''/'', scheme_tls sch)"
proof (cases sch)
  case No_scheme
  show ?thesis
    using no_scheme_start [OF assms, of "''https''"] no_scheme_start [OF assms, of "''http''"]
      no_scheme_start [OF assms, of "''grpcs''"] no_scheme_start [OF assms, of "''grpc''"]
    by (simp add: No_scheme render_url_def stripScheme_def starts_with_def)
qed (simp_all add: render_url_def stripScheme_def starts_with_def)

lemma authority_render:
  assumes "plain_host h" "clean_path path"
  shows "authority_of (render_url sch h p path n) = h @ port_text p"
    and "path_of (render_url sch h p path n) = path"
proof -
  let ?a = "h @ port_text p" and ?t = "path @ replicate n CHR ''/''"
  have na: "CHR ''/'' \<notin> set ?a" using assms(1) port_text_no_slash by (auto simp: plain_host_def)
  have v: "fst (stripScheme (render_url sch h p path n)) = ?a @ ?t"
    by (simp add: stripScheme_render [OF assms])
  have pop: "pop_slashes ?t = path"
    using assms(2) by (auto simp: clean_path_def intro: pop_slashes_replicate)
  have "authority_of (render_url sch h p path n) = ?a \<and> path_of (render_url sch h p path n) = path"
  proof (cases ?t)
    case Nil
    then show ?thesis
      using na v by (simp add: authority_of_def path_of_def find_str_char_None [THEN iffD2])
  next
    case (Cons c t)
    then have c: "c = CHR ''/''" using assms(2) by (cases path; cases n) (auto simp: clean_path_def)
    have f: "find_str ''/'' (?a @ ?t) = Some (length ?a)"
      using na Cons c find_str_char by metis
    show ?thesis using f v pop by (simp add: authority_of_def path_of_def)
  qed
  then show "authority_of (render_url sch h p path n) = ?a"
    and "path_of (render_url sch h p path n) = path" by auto
qed

section \<open>Properties\<close>

text \<open>
  C20: parsing inverts rendering. For every scheme, host without \<open>/\<close> and \<open>:\<close>, optional
  port within \<open>int\<close>, clean path prefix and any number of extra trailing slashes,
  \<open>parseEndpoint\<close> returns exactly that host, port (the default one when none is given),
  prefix and TLS flag.
\<close>

theorem parseEndpoint_render:
  assumes "plain_host h" and "clean_path path" and "\<And>n. p = Some n \<Longrightarrow> n < 2 ^ 31"
  shows "parseEndpoint (render_url sch h p path slashes) d =
    Inr \<lparr>ep_host = h, ep_port = (case p of None \<Rightarrow> d | Some n \<Rightarrow> int n),
         ep_path_prefix = path, ep_tls = scheme_tls sch\<rparr>"
proof (cases p)
  case None
  then show ?thesis
    using assms(1) authority_render [OF assms(1,2)] stripScheme_render [OF assms(1,2)]
    by (simp add: parseEndpoint_parts port_text_def plain_host_def find_str_char_None [THEN iffD2])
next
  case (Some n)
  have "find_str '':'' (h @ port_text p) = Some (length h)"
    using assms(1) Some by (simp add: port_text_def plain_host_def find_str_char)
  moreover have "stoi (string_of_nat n) = Inr (int n)"
    using stoi_string_of_nat [of n "[]"] assms(3) [OF Some] by (simp add: no_digit_ahead_def)
  ultimately show ?thesis
    using authority_render [OF assms(1,2)] stripScheme_render [OF assms(1,2)] Some
    by (simp add: parseEndpoint_parts port_text_def)
qed

theorem parseEndpoint_render_witness:
  "parseEndpoint (render_url Https ''h'' (Some 443) ''/gateway'' 2) 8080 =
    Inr \<lparr>ep_host = ''h'', ep_port = 443, ep_path_prefix = ''/gateway'', ep_tls = True\<rparr>"
  using parseEndpoint_render [of "''h''" "''/gateway''" "Some 443" Https 2 8080]
  by (simp add: plain_host_def clean_path_def)

text \<open>
  Whatever the URL, a successful parse yields an \<open>Endpoint\<close> whose invariants hold: the
  path prefix is empty or starts with a slash, and never ends with one; the host contains neither
  \<open>/\<close> nor \<open>:\<close>; the port is the default or an \<open>int\<close>; TLS is on exactly for the
  \<open>https://\<close> and \<open>grpcs://\<close> schemes.
\<close>

lemma parseEndpoint_invariant:
  assumes "parseEndpoint url d = Inr ep"
  shows "clean_path (ep_path_prefix ep) \<and> plain_host (ep_host ep) \<and>
    (ep_port ep = d \<or> - (2 ^ 31) \<le> ep_port ep \<and> ep_port ep < 2 ^ 31) \<and>
    (ep_tls ep \<longleftrightarrow> prefix ''https://'' url \<or> prefix ''grpcs://'' url)"
  using parseEndpoint_fields [OF assms] path_of_shape [of url] stripScheme_tls [of url]
  by (auto simp: clean_path_def plain_host_def starts_with_def)

lemma parseEndpoint_invariant_example:
  "clean_path ''/gateway'' \<and> plain_host ''127.0.0.1'' \<and> \<not> prefix ''grpcs://'' ''http://127.0.0.1:19090/gateway/''"
proof -
  have p: "parseEndpoint ''http://127.0.0.1:19090/gateway/'' 8080 =
    Inr \<lparr>ep_host = ''127.0.0.1'', ep_port = 19090, ep_path_prefix = ''/gateway'', ep_tls = False\<rparr>"
    by code_simp
  show ?thesis using parseEndpoint_invariant [OF p] by (simp only: Endpoint.simps de_Morgan_disj simp_thms)
qed

text \<open>
  C39: a parse fails exactly when the authority has a colon and \<open>std::stoi\<close> rejects the text after
  its first colon, and it then throws what \<open>std::stoi\<close> throws.
\<close>

theorem parseEndpoint_error:
  "parseEndpoint url d = Inl e \<longleftrightarrow>
     (\<exists>h p. authority_of url = h @ '':'' @ p \<and> CHR '':'' \<notin> set h \<and> stoi p = Inl e)"
proof
  assume "parseEndpoint url d = Inl e"
  then obtain i where i: "find_str '':'' (authority_of url) = Some i"
    "stoi (drop (i + 1) (authority_of url)) = Inl e"
    by (auto simp: parseEndpoint_parts bindR_def split: option.splits sum.splits)
  have "authority_of url = take i (authority_of url) @ '':'' @ drop (i + 1) (authority_of url)"
    using find_str_char_SomeD(1,2) [OF i(1)] id_take_nth_drop by fastforce
  then show "\<exists>h p. authority_of url = h @ '':'' @ p \<and> CHR '':'' \<notin> set h \<and> stoi p = Inl e"
    using i(2) find_str_char_SomeD(3) [OF i(1)] by blast
next
  assume "\<exists>h p. authority_of url = h @ '':'' @ p \<and> CHR '':'' \<notin> set h \<and> stoi p = Inl e"
  then obtain h p where hp: "authority_of url = h @ CHR '':'' # p" "CHR '':'' \<notin> set h" "stoi p = Inl e"
    by auto
  then show "parseEndpoint url d = Inl e"
    by (simp add: parseEndpoint_parts find_str_char)
qed

text \<open>
  A bracketed IPv6 literal, the only way to write an IPv6 address in a URL, is rejected: the
  first colon is taken for the port separator although the connection code resolves IPv6 addresses.
\<close>

lemma parseEndpoint_ipv6_rejected:
  "parseEndpoint ''http://[::1]:8080'' 8080 = Inl (Invalid_argument ''stoi'')"
  by code_simp

end
