(* ===== verification/Http_Response.thy ===== *)
theory Http_Response
  imports Cpp_String
begin

text \<open>
  Parsing a raw HTTP/1.1 response (\<open>parseHttpResponse\<close> of \<open>src/KserveProtocol.cpp\<close>): the
  status line, the two headers the client looks at, and the removal of chunked framing. The loop
  that removes the framing computes its next position in 64 bits from a size the peer chose, and
  need not end; its result is an \<open>option\<close>, \<open>None\<close> meaning that it does not return.
\<close>

section \<open>The parser\<close>

record HttpResponse =
  hr_status :: int
  hr_body :: string
  hr_inference_header_length :: int

definition crlf :: string where
  "crlf = [CHR 0x0D, CHR 0x0A]"

definition header_terminator :: string where
  "header_terminator = crlf @ crlf"

text \<open>The scan for \<open>Transfer-Encoding: chunked\<close> in a header block.\<close>

definition is_chunked :: "string \<Rightarrow> bool" where
  "is_chunked headers =
     (contains_str ''transfer-encoding:'' (to_lower headers) \<and>
      contains_str ''chunked'' (to_lower headers))"

text \<open>The value of \<open>Inference-Header-Content-Length\<close>, -1 when absent or unreadable.\<close>

definition inference_marker :: string where
  "inference_marker = ''inference-header-content-length:''"

definition header_length_of :: "string \<Rightarrow> int" where
  "header_length_of headers =
     (case find_str inference_marker (to_lower headers) of
        None \<Rightarrow> -1
      | Some marker_pos \<Rightarrow>
          (case stol (dropWhile (\<lambda>c. c = CHR '' '' \<or> c = CHR 0x09)
                        (drop (marker_pos + length inference_marker) headers)) of
             Inl _ \<Rightarrow> -1
           | Inr n \<Rightarrow> n))"

text \<open>The size on a chunk's first line; \<open>None\<close> when \<open>std::stoul\<close> throws, which ends the loop.\<close>

definition chunk_size_of :: "string \<Rightarrow> nat option" where
  "chunk_size_of size_token =
     (case stoul 16 (case find_str '';'' size_token of None \<Rightarrow> size_token | Some i \<Rightarrow> take i size_token) of
        Inl _ \<Rightarrow> None
      | Inr n \<Rightarrow> Some n)"

partial_function (option) dechunk :: "string \<Rightarrow> nat \<Rightarrow> string \<Rightarrow> string result option" where
  "dechunk body pos decoded =
     (if length body \<le> pos then Some (Inr decoded)
      else case find_from crlf body pos of
        None \<Rightarrow> Some (Inr decoded)
      | Some line_end \<Rightarrow>
          (case chunk_size_of (take (line_end - pos) (drop pos body)) of
             None \<Rightarrow> Some (Inr decoded)
           | Some chunk_size \<Rightarrow>
               if chunk_size = 0 then Some (Inr decoded)
               else if length body < add64 (line_end + 2) chunk_size
               then Some (Inl (Runtime_error ''invalid chunked HTTP body: truncated chunk''))
               else dechunk body (add64 (add64 (line_end + 2) chunk_size) 2)
                      (decoded @ take chunk_size (drop (line_end + 2) body))))"

text \<open>
  The text between the first two spaces. With no second space \<open>substr\<close> is given a huge count and
  takes the rest.
\<close>

definition status_token :: "string \<Rightarrow> nat \<Rightarrow> string" where
  "status_token raw first_space =
     (case find_from '' '' raw (first_space + 1) of
        None \<Rightarrow> drop (first_space + 1) raw
      | Some second_space \<Rightarrow>
          take (second_space - first_space - 1) (drop (first_space + 1) raw))"

definition parseHttpResponse :: "string \<Rightarrow> HttpResponse result option" where
  "parseHttpResponse raw =
     (case find_str '' '' raw of
        None \<Rightarrow> Some (Inl (Runtime_error ''invalid HTTP response: no status line''))
      | Some first_space \<Rightarrow>
      (case stoi (status_token raw first_space) of
         Inl e \<Rightarrow> Some (Inl e)
       | Inr status \<Rightarrow>
      (case find_str header_terminator raw of
         None \<Rightarrow> Some (Inl (Runtime_error ''invalid HTTP response: no header terminator''))
       | Some header_end \<Rightarrow>
           let headers = take header_end raw;
               body = drop (header_end + 4) raw;
               response = (\<lambda>b. \<lparr>hr_status = status, hr_body = b,
                                 hr_inference_header_length = header_length_of headers\<rparr>)
           in if \<not> is_chunked headers then Some (Inr (response body))
              else map_option (\<lambda>r. bindR r (\<lambda>decoded. Inr (response decoded)))
                     (dechunk body 0 []))))"

declare dechunk.simps [code]

section \<open>More on searching\<close>

lemma find_str_skip [find_simps]:
  "c \<notin> set a \<Longrightarrow> find_str (c # p) (a @ s) = map_option ((+) (length a)) (find_str (c # p) s)"
proof (induction a)
  case (Cons d a)
  then have "\<not> prefix (c # p) (d # a @ s)" by (auto simp: prefix_Cons)
  then show ?case using Cons by (simp add: option.map_comp comp_def)
next
  case Nil
  show ?case by (cases "find_str (c # p) s") simp_all
qed

lemma find_from_append:
  "find_from p (a @ s) (length a) = map_option ((+) (length a)) (find_str p s)"
  by (simp add: find_from_def)

text \<open>A character that the needle does not contain separates the places it can be found at.\<close>

lemma find_str_barrier:
  assumes "c \<notin> set p" "p \<noteq> []"
  shows "find_str p (a @ c # b) =
    (case find_str p a of
       Some i \<Rightarrow> Some i
     | None \<Rightarrow> map_option (\<lambda>i. length a + 1 + i) (find_str p b))"
proof (induction a)
  case Nil
  have "\<not> prefix p (c # b)" using assms by (cases p) auto
  then show ?case using assms by (cases "find_str p b") simp_all
next
  case (Cons d a)
  have iff: "prefix p (d # a @ c # b) \<longleftrightarrow> prefix p (d # a)"
  proof
    assume "prefix p (d # a @ c # b)"
    then have "prefix p ((d # a) @ c # b)" by simp
    then show "prefix p (d # a)"
      using assms(1) unfolding prefix_append by (auto simp: prefix_Cons [of _ c b])
  qed (metis append_Cons prefix_prefix)
  show ?case
    using Cons iff by (cases "find_str p b"; cases "find_str p a") auto
qed

lemma to_lower_char_line_break [simp]:
  "to_lower_char (CHR 0x0D) = CHR 0x0D" "to_lower_char (CHR 0x0A) = CHR 0x0A"
  by (simp_all add: to_lower_char_def)

section \<open>Header blocks\<close>

text \<open>
  A specification of what a server sends: a status line, header lines, a blank line, a body. A
  clean line is not empty and holds no carriage return.
\<close>

definition clean_line :: "string \<Rightarrow> bool" where
  "clean_line l = (l \<noteq> [] \<and> CHR 0x0D \<notin> set l)"

fun header_text :: "string list \<Rightarrow> string" where
  "header_text [] = []"
| "header_text (h # hs) = crlf @ h @ header_text hs"

definition render_head :: "nat \<Rightarrow> string \<Rightarrow> string list \<Rightarrow> string" where
  "render_head status reason headers =
     ''HTTP/1.1 '' @ string_of_nat status @ '' '' @ reason @ header_text headers"

definition render_response :: "nat \<Rightarrow> string \<Rightarrow> string list \<Rightarrow> string \<Rightarrow> string" where
  "render_response status reason headers body =
     render_head status reason headers @ header_terminator @ body"

lemma length_crlf [simp]: "length crlf = 2"
  by (simp add: crlf_def)

lemma length_terminator [simp]: "length header_terminator = 4"
  by (simp add: header_terminator_def)

lemma header_text_append [simp]: "header_text (a @ b) = header_text a @ header_text b"
  by (induction a) auto

lemma find_terminator_skip:
  "CHR 0x0D \<notin> set a \<Longrightarrow>
     find_str header_terminator (a @ s) = map_option ((+) (length a)) (find_str header_terminator s)"
  unfolding header_terminator_def crlf_def append.simps by (rule find_str_skip)

lemma find_terminator_lines:
  assumes "list_all clean_line headers"
  shows "find_str header_terminator (header_text headers @ header_terminator @ body) =
    Some (length (header_text headers))"
  using assms
proof (induction headers)
  case Nil
  show ?case by (cases body) (simp_all add: header_terminator_def crlf_def)
next
  case (Cons h hs)
  let ?t = "header_text hs @ header_terminator @ body"
  have h: "h \<noteq> []" "CHR 0x0D \<notin> set h" using Cons.prems by (auto simp: clean_line_def)
  have "find_str header_terminator (crlf @ h @ ?t) = map_option Suc (map_option Suc (find_str header_terminator (h @ ?t)))"
    using h by (cases h) (auto simp: header_terminator_def crlf_def)
  then show ?case using Cons by (simp add: find_terminator_skip [OF h(2)])
qed

lemma digits_no_line_break: "CHR 0x0D \<notin> set (string_of_nat n)" "CHR '' '' \<notin> set (string_of_nat n)"
  using string_of_nat_chars digit_not_special by blast+

lemma find_terminator_render:
  assumes "list_all clean_line headers" "CHR 0x0D \<notin> set reason"
  shows "find_str header_terminator (render_response status reason headers body) =
    Some (length (render_head status reason headers))"
proof -
  let ?s = "''HTTP/1.1 '' @ string_of_nat status @ '' '' @ reason"
  have cr: "CHR 0x0D \<notin> set ?s" using assms(2) digits_no_line_break by simp
  have "find_str header_terminator (?s @ header_text headers @ header_terminator @ body) =
      Some (length ?s + length (header_text headers))"
    unfolding find_terminator_skip [OF cr] find_terminator_lines [OF assms(1)] by simp
  then show ?thesis by (simp add: render_response_def render_head_def)
qed

lemma status_token_render:
  "find_str '' '' (render_response status reason headers body) = Some 8"
  "status_token (render_response status reason headers body) 8 = string_of_nat status"
proof -
  let ?r = "reason @ header_text headers @ header_terminator @ body"
  have r: "render_response status reason headers body = ''HTTP/1.1 '' @ string_of_nat status @ '' '' @ ?r"
    by (simp add: render_response_def render_head_def)
  show "find_str '' '' (render_response status reason headers body) = Some 8"
    unfolding r by simp
  have l: "length ''HTTP/1.1 '' = 9" by simp
  have "find_from '' '' (''HTTP/1.1 '' @ string_of_nat status @ '' '' @ ?r) (length ''HTTP/1.1 '') =
      Some (9 + length (string_of_nat status))"
    unfolding find_from_append using digits_no_line_break(2)
    by (simp add: find_str_char del: find_str.simps)
  then have "find_from '' '' (''HTTP/1.1 '' @ string_of_nat status @ '' '' @ ?r) 9 =
      Some (9 + length (string_of_nat status))"
    by (simp only: l)
  then show "status_token (render_response status reason headers body) 8 = string_of_nat status"
    unfolding r by (simp add: status_token_def)
qed

text \<open>The parser on a rendered message, whatever its headers say.\<close>

lemma parse_render_general:
  assumes "list_all clean_line headers" "CHR 0x0D \<notin> set reason" "status < 2 ^ 31"
  shows "parseHttpResponse (render_response status reason headers body) =
    (let head = render_head status reason headers;
         response = (\<lambda>b. \<lparr>hr_status = int status, hr_body = b,
                           hr_inference_header_length = header_length_of head\<rparr>)
     in if \<not> is_chunked head then Some (Inr (response body))
        else map_option (\<lambda>r. bindR r (\<lambda>decoded. Inr (response decoded))) (dechunk body 0 []))"
proof -
  let ?raw = "render_response status reason headers body" and ?head = "render_head status reason headers"
  have st: "stoi (status_token ?raw 8) = Inr (int status)"
    using stoi_string_of_nat [of status "[]"] assms(3) by (simp add: status_token_render no_digit_ahead_def)
  have "take (length ?head) ?raw = ?head" "drop (length ?head + 4) ?raw = body"
    by (simp_all add: render_response_def)
  then show ?thesis
    by (simp add: parseHttpResponse_def status_token_render(1) st
        find_terminator_render [OF assms(1,2)] Let_def)
qed

section \<open>The chunked framing\<close>

lemma digit_char_0: "digit_char 0 = CHR ''0''"
  by code_simp


text \<open>The next chunk as the loop sees it: size line and the start of the data.\<close>

definition next_chunk :: "string \<Rightarrow> nat \<Rightarrow> (nat \<times> nat) option" where
  "next_chunk body pos =
     (if length body \<le> pos then None
      else case find_from crlf body pos of
        None \<Rightarrow> None
      | Some line_end \<Rightarrow>
          map_option (\<lambda>n. (n, line_end + 2)) (chunk_size_of (take (line_end - pos) (drop pos body))))"

lemma dechunk_step:
  "dechunk body pos decoded =
     (case next_chunk body pos of
        None \<Rightarrow> Some (Inr decoded)
      | Some (n, start) \<Rightarrow>
          if n = 0 then Some (Inr decoded)
          else if length body < add64 start n
          then Some (Inl (Runtime_error ''invalid chunked HTTP body: truncated chunk''))
          else dechunk body (add64 (add64 start n) 2) (decoded @ take n (drop start body)))"
  by (subst dechunk.simps) (auto simp: next_chunk_def split: option.splits)

lemma next_chunk_bounds:
  assumes "next_chunk body pos = Some (n, start)"
  shows "pos < start" "start \<le> length body" "n < size_limit"
proof -
  obtain le where le: "find_from crlf body pos = Some le" "start = le + 2" and
    cs: "chunk_size_of (take (le - pos) (drop pos body)) = Some n"
    using assms by (auto simp: next_chunk_def split: if_splits option.splits)
  then obtain i where "find_str crlf (drop pos body) = Some i" "le = pos + i" "pos \<le> length body"
    by (auto simp: find_from_def split: if_splits)
  then show "pos < start" "start \<le> length body"
    using find_str_bound [of crlf "drop pos body" i] le(2) by (auto simp: crlf_def)
  show "n < size_limit" using cs stoul_range
    by (auto simp: chunk_size_of_def split: sum.splits)
qed

text \<open>A server's encoding of a list of chunks.\<close>

definition encode_chunk :: "string \<Rightarrow> string" where
  "encode_chunk d = to_base 16 (length d) @ crlf @ d @ crlf"

definition encode_chunks :: "string list \<Rightarrow> string" where
  "encode_chunks ds = concat (map encode_chunk ds) @ ''0'' @ crlf @ crlf"

lemma to_base16_chars:
  assumes "c \<in> set (to_base 16 n)"
  shows "c \<noteq> CHR 0x0D" "c \<noteq> CHR '';''"
  using to_base_digits [OF _ _ assms] digit_not_special by auto

lemma next_chunk_at:
  assumes "n < size_limit"
  shows "next_chunk (pre @ to_base 16 n @ crlf @ rest) (length pre) =
    Some (n, length pre + length (to_base 16 n) + 2)"
proof -
  let ?h = "to_base 16 n"
  have cr: "CHR 0x0D \<notin> set ?h" and sc: "find_str '';'' ?h = None"
    using to_base16_chars by (auto simp: find_str_char_None)
  have "find_str crlf (?h @ crlf @ rest) = Some (length ?h)"
    using find_str_append [OF cr, of "[CHR 0x0A]" rest] by (simp add: crlf_def)
  then have f: "find_from crlf (pre @ ?h @ crlf @ rest) (length pre) = Some (length pre + length ?h)"
    by (simp add: find_from_append)
  have "read_int 16 (?h @ []) = Some (False, n)"
    by (rule read_int_to_base) auto
  then have "chunk_size_of ?h = Some n"
    using assms sc by (simp add: chunk_size_of_def stoul_def)
  then show ?thesis by (simp add: next_chunk_def f)
qed

text \<open>What the loop does at a chunk: take its data and go on after it, or find it cut off.\<close>

lemma dechunk_chunk:
  fixes pre d rest :: string
  defines "body \<equiv> pre @ to_base 16 (length d) @ crlf @ d @ rest"
  assumes "d \<noteq> []" "length (pre @ to_base 16 (length d)) + length d + 4 < size_limit"
  shows "dechunk body (length pre) decoded = dechunk body (length pre + length (encode_chunk d)) (decoded @ d)"
proof -
  let ?h = "to_base 16 (length d)"
  have nc: "next_chunk body (length pre) = Some (length d, length pre + length ?h + 2)"
    unfolding body_def using assms(3) by (intro next_chunk_at) simp
  have a1: "add64 (length pre + length ?h + 2) (length d) = length pre + length ?h + 2 + length d"
    and a2: "add64 (length pre + length ?h + 2 + length d) 2 = length pre + length (encode_chunk d)"
    using assms(3) by (simp_all add: encode_chunk_def crlf_def)
  have "take (length d) (drop (length pre + length ?h + 2) body) = d"
    and "\<not> length body < length pre + length ?h + 2 + length d"
    by (simp_all add: body_def crlf_def)
  then show ?thesis
    using assms(2) by (subst dechunk_step) (simp only: nc option.case prod.case a1 a2, simp)
qed

lemma dechunk_truncated:
  assumes "length rest < n" "length (pre @ to_base 16 n) + n + 2 < size_limit"
  shows "dechunk (pre @ to_base 16 n @ crlf @ rest) (length pre) decoded =
    Some (Inl (Runtime_error ''invalid chunked HTTP body: truncated chunk''))"
proof -
  have "next_chunk (pre @ to_base 16 n @ crlf @ rest) (length pre) = Some (n, length pre + length (to_base 16 n) + 2)"
    using assms(2) by (intro next_chunk_at) simp
  moreover have "add64 (length pre + length (to_base 16 n) + 2) n = length pre + length (to_base 16 n) + 2 + n"
    using assms(2) by simp
  ultimately show ?thesis using assms(1) by (subst dechunk_step) simp
qed

lemma dechunk_chunks:
  assumes "list_all (\<lambda>d. d \<noteq> []) ds" "length (pre @ concat (map encode_chunk ds)) < size_limit"
  shows "dechunk (pre @ concat (map encode_chunk ds) @ rest) (length pre) decoded =
    dechunk (pre @ concat (map encode_chunk ds) @ rest) (length (pre @ concat (map encode_chunk ds))) (decoded @ concat ds)"
  using assms
proof (induction ds arbitrary: pre decoded)
  case (Cons d ds)
  let ?rest = "crlf @ concat (map encode_chunk ds) @ rest" and ?pre = "pre @ encode_chunk d"
  have body: "pre @ concat (map encode_chunk (d # ds)) @ rest = pre @ to_base 16 (length d) @ crlf @ d @ ?rest"
    and body': "pre @ concat (map encode_chunk (d # ds)) @ rest = ?pre @ concat (map encode_chunk ds) @ rest"
    by (simp_all add: encode_chunk_def)
  have "dechunk (pre @ concat (map encode_chunk (d # ds)) @ rest) (length pre) decoded =
      dechunk (pre @ concat (map encode_chunk (d # ds)) @ rest) (length ?pre) (decoded @ d)"
    using dechunk_chunk [of d pre ?rest decoded] Cons.prems unfolding body
    by (simp add: encode_chunk_def)
  then show ?case using Cons.IH [of ?pre "decoded @ d"] Cons.prems unfolding body' by simp
qed simp

lemma dechunk_encode_general:
  assumes "list_all (\<lambda>d. d \<noteq> []) ds" "length (pre @ encode_chunks ds) < size_limit"
  shows "dechunk (pre @ encode_chunks ds) (length pre) decoded = Some (Inr (decoded @ concat ds))"
proof -
  let ?pre = "pre @ concat (map encode_chunk ds)"
  have e: "''0'' @ crlf @ crlf = to_base 16 0 @ crlf @ crlf"
    by (simp add: to_base.simps [of 16 0] digit_char_0)
  have "next_chunk (?pre @ ''0'' @ crlf @ crlf) (length ?pre) = Some (0, length ?pre + length (to_base 16 0) + 2)"
    unfolding e by (rule next_chunk_at) simp
  then have "dechunk (?pre @ ''0'' @ crlf @ crlf) (length ?pre) (decoded @ concat ds) = Some (Inr (decoded @ concat ds))"
    by (subst dechunk_step) simp
  then show ?thesis
    using dechunk_chunks [OF assms(1), of pre "''0'' @ crlf @ crlf" decoded] assms(2) by (simp add: encode_chunks_def)
qed

text \<open>
  The size lines the loop comes to, one after the other: none of them makes the 64-bit sum of the
  chunk's start and size wrap. A chunk that goes past the end of the body ends the walk, and so do a
  chunk of size 0 and a line that is not a size.
\<close>

function sizes_fit :: "string \<Rightarrow> nat \<Rightarrow> bool" where
  "sizes_fit body pos =
     (case next_chunk body pos of
        None \<Rightarrow> True
      | Some (n, start) \<Rightarrow>
          if n = 0 then True
          else if size_limit \<le> start + n then False
          else if length body < start + n then True
          else if size_limit \<le> start + n + 2 then False
          else sizes_fit body (start + n + 2))"
  by pat_completeness auto
termination
proof (relation "measure (\<lambda>(body, pos). length body - pos)")
  fix body pos p n start
  assume "next_chunk body pos = Some p" "(n, start) = p" "\<not> length body < start + n"
  then show "((body, start + n + 2), body, pos) \<in> measure (\<lambda>(body, pos). length body - pos)"
    using next_chunk_bounds [of body pos n start] by auto
qed simp

declare sizes_fit.simps [simp del]

lemma dechunk_terminates: "sizes_fit body pos \<Longrightarrow> \<exists>r. dechunk body pos decoded = Some r"
proof (induction body pos arbitrary: decoded rule: sizes_fit.induct)
  case (1 body pos)
  show ?case
  proof (cases "next_chunk body pos")
    case None
    then show ?thesis by (subst dechunk_step) simp
  next
    case (Some p)
    then obtain n start where p: "next_chunk body pos = Some (n, start)" by (cases p) auto
    show ?thesis
    proof (cases "n = 0")
      case True
      then show ?thesis using p by (subst dechunk_step) simp
    next
      case n: False
      have fit: "start + n < size_limit"
        using "1.prems" p n by (subst (asm) sizes_fit.simps) (simp split: if_splits)
      then have a: "add64 start n = start + n" by simp
      show ?thesis
      proof (cases "length body < start + n")
        case True
        then show ?thesis using p n a by (subst dechunk_step) simp
      next
        case False
        have f: "\<not> size_limit \<le> start + n + 2" "sizes_fit body (start + n + 2)"
          using "1.prems" p n False by (subst (asm) (1) sizes_fit.simps, simp split: if_splits)+
        then have a2: "add64 (start + n) 2 = start + n + 2" by simp
        have "\<exists>r. dechunk body (start + n + 2) (decoded @ take n (drop start body)) = Some r"
          using "1.IH" [OF p refl n _ False f(1) f(2)] fit by simp
        then show ?thesis using n False
          by (subst dechunk_step) (simp only: p a a2 option.case prod.case if_False)
      qed
    qed
  qed
qed

section \<open>The inference header\<close>

definition inference_name :: string where
  "inference_name = ''Inference-Header-Content-Length: ''"

definition inference_line :: "nat \<Rightarrow> string" where
  "inference_line k = inference_name @ string_of_nat k"

lemma inference_name_facts:
  "to_lower inference_name = inference_marker @ '' ''"
  "length inference_name = length inference_marker + 1"
  "drop (length inference_marker) inference_name = '' ''"
  "CHR 0x0D \<notin> set inference_name" "inference_name \<noteq> []"
  by code_simp+

lemma inference_line_lower:
  "to_lower (inference_line k @ s) = inference_marker @ CHR '' '' # to_lower (string_of_nat k @ s)"
  by (simp add: inference_line_def inference_name_facts)

lemma header_text_no_digit_ahead: "no_digit_ahead (header_text hs)"
  by (cases hs) (auto simp: no_digit_ahead_def crlf_def is_digit_in_def digit_val_def Let_def)

lemma header_length_of_present:
  assumes "find_str inference_marker (to_lower (render_head status reason before)) = None" "k < 2 ^ 63"
  shows "header_length_of (render_head status reason (before @ inference_line k # after)) = int k"
proof -
  let ?b = "render_head status reason before" and ?t = "string_of_nat k @ header_text after"
  let ?h = "render_head status reason (before @ inference_line k # after)"
  have h: "?h = ?b @ crlf @ inference_line k @ header_text after"
    by (simp add: render_head_def)
  have nocr: "CHR 0x0D \<notin> set inference_marker" "inference_marker \<noteq> []" by (simp_all add: inference_marker_def)
  have "to_lower ?h = to_lower ?b @ CHR 0x0D # CHR 0x0A # inference_marker @ CHR '' '' # to_lower ?t"
    unfolding h to_lower_append [of ?b] to_lower_append [of crlf] inference_line_lower
    by (simp add: crlf_def to_lower_Cons)
  moreover have "find_str inference_marker (CHR 0x0A # inference_marker @ CHR '' '' # to_lower ?t) = Some 1"
    by (simp add: inference_marker_def)
  ultimately have f: "find_str inference_marker (to_lower ?h) = Some (length ?b + 2)"
    using assms(1) by (simp add: find_str_barrier [OF nocr] del: to_lower_append)
  have "drop (length ?b + 2 + length inference_marker) ?h = CHR '' '' # ?t"
    unfolding h by (simp add: inference_line_def inference_name_facts)
  moreover have "dropWhile (\<lambda>c. c = CHR '' '' \<or> c = CHR 0x09) ?t = ?t"
  proof -
    obtain c cs where c: "string_of_nat k = c # cs" by (metis string_of_nat_not_Nil neq_Nil_conv)
    then have "is_digit_in 10 c" using string_of_nat_chars [of c k] by simp
    then show ?thesis using digit_not_special(1) [of 10 c] by (simp add: c is_space_def)
  qed
  ultimately show ?thesis
    using f stol_string_of_nat [OF assms(2) header_text_no_digit_ahead [of after]]
    by (simp add: header_length_of_def)
qed

section \<open>Properties\<close>

text \<open>
  A response that is not chunked parses to its status, to everything after the blank line as the
  body, and to the value of its inference header, wherever that header stands among the others.
\<close>

lemma parseHttpResponse_binary:
  assumes "list_all clean_line before" and "list_all clean_line after" and "CHR 0x0D \<notin> set reason"
    and "status < 2 ^ 31" and "k < 2 ^ 63"
    and "find_str inference_marker (to_lower (render_head status reason before)) = None"
    and "\<not> is_chunked (render_head status reason (before @ inference_line k # after))"
  shows "parseHttpResponse (render_response status reason (before @ inference_line k # after) body) =
    Some (Inr \<lparr>hr_status = int status, hr_body = body, hr_inference_header_length = int k\<rparr>)"
proof -
  have "clean_line (inference_line k)"
    using digits_no_line_break inference_name_facts by (simp add: clean_line_def inference_line_def)
  then have "list_all clean_line (before @ inference_line k # after)" using assms(1,2) by simp
  from parse_render_general [OF this assms(3,4)] show ?thesis
    using assms(7) header_length_of_present [OF assms(6,5)] by (simp add: Let_def)
qed

text \<open>
  C14: chunked framing is removed exactly. However a server splits a body into non-empty chunks, the
  parser returns their concatenation, and it returns.
\<close>

theorem parseHttpResponse_chunked:
  assumes "list_all clean_line headers" and "CHR 0x0D \<notin> set reason" and "status < 2 ^ 31"
    and "is_chunked (render_head status reason headers)"
    and "list_all (\<lambda>d. d \<noteq> []) chunks" and "length (encode_chunks chunks) < size_limit"
  shows "parseHttpResponse (render_response status reason headers (encode_chunks chunks)) =
    Some (Inr \<lparr>hr_status = int status, hr_body = concat chunks,
               hr_inference_header_length = header_length_of (render_head status reason headers)\<rparr>)"
  using dechunk_encode_general [OF assms(5), of "[]" "[]"] assms(4,6)
  by (simp add: parse_render_general [OF assms(1-3)] Let_def)

theorem parseHttpResponse_chunked_witness:
  "\<exists>h. parseHttpResponse (render_response 200 ''OK'' [''Transfer-Encoding: chunked'']
      (encode_chunks [''{x'', '':1}''])) =
    Some (Inr \<lparr>hr_status = 200, hr_body = ''{x:1}'', hr_inference_header_length = h\<rparr>)"
proof -
  have "parseHttpResponse (render_response 200 ''OK'' [''Transfer-Encoding: chunked'']
      (encode_chunks [''{x'', '':1}''])) =
    Some (Inr \<lparr>hr_status = int 200, hr_body = concat [''{x'', '':1}''],
        hr_inference_header_length = header_length_of (render_head 200 ''OK'' [''Transfer-Encoding: chunked''])\<rparr>)"
    by (rule parseHttpResponse_chunked) code_simp+
  then show ?thesis by auto
qed

text \<open>
  C28: the parser returns (a response or an exception) on every input, unless the input is chunked and
  a size line that the loop comes to, following the chunks from the first, is so large that the 64-bit
  position after its chunk would wrap. Bytes that only look like such a line inside a chunk do not count.
\<close>

theorem parseHttpResponse_returns:
  assumes "\<And>i. find_str header_terminator raw = Some i \<Longrightarrow> is_chunked (take i raw) \<Longrightarrow>
    sizes_fit (drop (i + 4) raw) 0"
  shows "\<exists>r. parseHttpResponse raw = Some r"
proof (cases "find_str header_terminator raw")
  case (Some i)
  then show ?thesis
    using dechunk_terminates [of "drop (i + 4) raw" 0 "[]"] assms [OF Some]
    by (auto simp: parseHttpResponse_def Let_def split: option.splits sum.splits)
qed (auto simp: parseHttpResponse_def split: option.splits sum.splits)

text \<open>
  The witness is a chunked response of two chunks, the first of them the five bytes of \<open>-1\<close> on a
  line of its own followed by a zero: read as a size line they would be \<open>2^64 - 1\<close>.
\<close>

theorem parseHttpResponse_returns_witness:
  "\<exists>r. parseHttpResponse (render_response 200 ''OK'' [''Transfer-Encoding: chunked'']
      (encode_chunks [''-1'' @ crlf @ ''0'', ''[-1]''])) = Some r"
proof (rule parseHttpResponse_returns)
  let ?raw = "render_response 200 ''OK'' [''Transfer-Encoding: chunked'']
      (encode_chunks [''-1'' @ crlf @ ''0'', ''[-1]''])"
  fix i
  assume "find_str header_terminator ?raw = Some i"
  moreover have "find_str header_terminator ?raw = Some 43" by code_simp
  ultimately have i: "i = 43" by simp
  have "sizes_fit (drop (43 + 4) ?raw) 0" by code_simp
  then show "sizes_fit (drop (i + 4) ?raw) 0" by (simp only: i)
qed

text \<open>The size line \<open>-6\<close>, read by \<open>std::stoul\<close> as \<open>2^64 - 6\<close>, sends the loop back to itself.\<close>

definition wrapping_body :: string where
  "wrapping_body = ''1'' @ crlf @ ''X'' @ crlf @ ''-6'' @ crlf"

lemma wrapping_body_facts:
  "\<not> length wrapping_body \<le> 6" "find_from crlf wrapping_body 6 = Some 8"
  "chunk_size_of (take (8 - 6) (drop 6 wrapping_body)) = Some 18446744073709551610"
  "\<not> length wrapping_body < add64 (8 + 2) 18446744073709551610"
  "add64 (add64 (8 + 2) 18446744073709551610) 2 = 6"
  by code_simp+

lemma dechunk_wrapping: "dechunk wrapping_body 6 decoded \<noteq> Some r"
proof
  assume ret: "dechunk wrapping_body 6 decoded = Some r"
  have "\<not> (wrapping_body = wrapping_body \<and> (6::nat) = 6)"
  proof (rule dechunk.raw_induct [where P = "\<lambda>b p d r. \<not> (b = wrapping_body \<and> p = 6)", OF _ ret])
    fix f b p d y
    assume IH: "\<And>b p d y. f b p d = Some y \<Longrightarrow> \<not> (b = wrapping_body \<and> p = (6::nat))"
      and eq: "(if length b \<le> p then Some (Inr d)
        else case find_from crlf b p of
          None \<Rightarrow> Some (Inr d)
        | Some line_end \<Rightarrow>
            (case chunk_size_of (take (line_end - p) (drop p b)) of
               None \<Rightarrow> Some (Inr d)
             | Some chunk_size \<Rightarrow>
                 if chunk_size = 0 then Some (Inr d)
                 else if length b < add64 (line_end + 2) chunk_size
                 then Some (Inl (Runtime_error ''invalid chunked HTTP body: truncated chunk''))
                 else f b (add64 (add64 (line_end + 2) chunk_size) 2)
                        (d @ take chunk_size (drop (line_end + 2) b)))) = Some y"
    show "\<not> (b = wrapping_body \<and> p = 6)"
    proof
      assume bp: "b = wrapping_body \<and> p = 6"
      have "(18446744073709551610::nat) \<noteq> 0" by simp
      with eq bp have "f wrapping_body 6 (d @ take 18446744073709551610 (drop (8 + 2) wrapping_body)) = Some y"
        by (simp only: wrapping_body_facts option.case if_False)
      then show False using IH by blast
    qed
  qed
  then show False by simp
qed

text \<open>
  C29: a peer can make the parser run for ever. The position after a chunk is computed modulo
  \<open>2^64\<close> and the size check is computed with the same wrapped sum, so a size line whose value is
  close to \<open>2^64\<close> passes the check and moves the position backwards; here it moves back to the
  same size line.
\<close>

theorem parseHttpResponse_diverges:
  "parseHttpResponse (render_response 200 ''OK'' [''Transfer-Encoding: chunked'']
     (''1'' @ crlf @ ''X'' @ crlf @ ''-6'' @ crlf)) = None"
proof -
  have first: "next_chunk wrapping_body 0 = Some (1, 3)" "\<not> length wrapping_body < add64 3 1"
    "add64 (add64 3 1) 2 = 6" "is_chunked (render_head 200 ''OK'' [''Transfer-Encoding: chunked''])"
    by code_simp+
  have "dechunk wrapping_body 0 [] = dechunk wrapping_body 6 ([] @ take 1 (drop 3 wrapping_body))"
    by (subst dechunk_step) (simp only: first option.case prod.case if_False one_neq_zero)
  then have "dechunk wrapping_body 0 [] = None"
    using dechunk_wrapping by (metis not_Some_eq)
  moreover have "list_all clean_line [''Transfer-Encoding: chunked'']" "CHR 0x0D \<notin> set ''OK''"
    by code_simp+
  ultimately show ?thesis
    using parse_render_general [of "[''Transfer-Encoding: chunked'']" "''OK''" 200 wrapping_body] first(4)
    by (simp add: Let_def wrapping_body_def)
qed

end
