(* ===== verification/Http_Framing.thy ===== *)
theory Http_Framing
  imports Endpoint Http_Response
begin

text \<open>
  The framing rules of \<open>src/KserveHttpClient.cpp\<close>: when a response read so far is complete
  (\<open>messageComplete\<close>), whether it asks to close the connection (\<open>wantsClose\<close>), and the text of
  a request (\<open>buildRequest\<close>, whose meaning is in \<open>Http_Request\<close>). With a keep-alive connection the
  first decides where one response ends and the next begins.
\<close>

section \<open>The code\<close>

definition content_length_marker :: string where
  "content_length_marker = crlf @ ''content-length:''"

definition last_chunk :: string where
  "last_chunk = ''0'' @ crlf @ crlf"

definition messageComplete :: "string \<Rightarrow> bool" where
  "messageComplete raw =
     (case find_str header_terminator raw of
        None \<Rightarrow> False
      | Some header_end \<Rightarrow>
          let headers = to_lower (take header_end raw); body_start = header_end + 4
          in if contains_str ''transfer-encoding:'' headers \<and> contains_str ''chunked'' headers
             then find_from (crlf @ last_chunk) raw header_end \<noteq> None \<or>
                  take 5 (drop body_start raw) = last_chunk
             else case find_str content_length_marker headers of
                    None \<Rightarrow> False
                  | Some pos \<Rightarrow>
                      (case stol (drop (pos + length content_length_marker) headers) of
                         Inl _ \<Rightarrow> False
                       | Inr len \<Rightarrow> add64 body_start (size_of_long len) \<le> length raw))"

definition wantsClose :: "string \<Rightarrow> bool" where
  "wantsClose raw =
     contains_str ''connection: close''
       (to_lower (case find_str header_terminator raw of None \<Rightarrow> raw | Some header_end \<Rightarrow> take header_end raw))"

definition buildRequest ::
  "string \<Rightarrow> Endpoint \<Rightarrow> string \<Rightarrow> string \<Rightarrow> string \<Rightarrow> string \<Rightarrow> string \<Rightarrow> string" where
  "buildRequest http_method ep path auth_token content_type extra_headers body =
     http_method @ '' '' @ path @ '' HTTP/1.1'' @ crlf @
     ''Host: '' @ ep_host ep @ crlf @
     ''Connection: keep-alive'' @ crlf @
     (if content_type \<noteq> [] then ''Content-Type: '' @ content_type @ crlf else []) @
     (if auth_token \<noteq> [] then ''Authorization: Bearer '' @ auth_token @ crlf else []) @
     extra_headers @
     ''Content-Length: '' @ string_of_nat (length body) @ crlf @ crlf @ body"

section \<open>Messages as lines\<close>

definition http_message :: "string \<Rightarrow> string list \<Rightarrow> string \<Rightarrow> string" where
  "http_message start headers body = start @ header_text headers @ header_terminator @ body"

definition content_length_name :: string where
  "content_length_name = ''Content-Length: ''"

definition content_length_line :: "nat \<Rightarrow> string" where
  "content_length_line n = content_length_name @ string_of_nat n"

definition not_content_length :: "string \<Rightarrow> bool" where
  "not_content_length h = (\<not> prefix ''content-length:'' (to_lower h))"

lemma find_terminator_message:
  assumes "list_all clean_line headers" "CHR 0x0D \<notin> set start"
  shows "find_str header_terminator (http_message start headers body) =
    Some (length (start @ header_text headers))"
  unfolding http_message_def find_terminator_skip [OF assms(2)] find_terminator_lines [OF assms(1)]
  by simp

lemma prefix_drop_take: "prefix p (drop j (take n s)) \<Longrightarrow> prefix p (drop j s)"
  by (metis drop_take prefix_order.trans take_is_prefix)

lemma prefix_drop_takeI:
  assumes "prefix p (drop j s)" "j + length p \<le> n"
  shows "prefix p (drop j (take n s))"
proof -
  obtain r where "drop j s = p @ r" using assms(1) by (rule prefixE)
  then have "drop j (take n s) = p @ take (n - j - length p) r" using assms(2) by (simp add: drop_take)
  then show ?thesis by simp
qed

lemma find_str_take:
  "find_str p (take n s) =
     (case find_str p s of
        None \<Rightarrow> None
      | Some i \<Rightarrow> if i + length p \<le> n then Some i else None)"
proof -
  note pre = prefix_drop_take [of p _ n s] and pre' = prefix_drop_takeI [of p _ s n]
  show ?thesis
  proof (cases "find_str p s")
    case None
    have "\<not> prefix p (drop j (take n s))" if "j \<le> length (take n s)" for j
      using None pre [of j] that by (auto simp: find_str_None)
    then show ?thesis using None by (simp add: find_str_None [of p "take n s"])
  next
    case (Some i)
    note b = find_str_bound [OF Some] and f = find_str_first [OF Some] and pp = find_str_prefix [OF Some]
    show ?thesis
    proof (cases "i + length p \<le> n")
      case True
      then have "find_str p (take n s) = Some i"
        using pre' [OF pp] pre f b by (intro find_str_eqI) auto
      then show ?thesis using Some True by simp
    next
      case False
      have "find_str p (take n s) = None"
      proof (cases "find_str p (take n s)")
        case (Some k)
        then have "prefix p (drop k s)" "k + length p \<le> n"
          using find_str_prefix [OF Some] pre find_str_bound [OF Some] by auto
        then show ?thesis using f False by (metis add_le_mono1 le_trans not_less)
      qed
      then show ?thesis using Some False by simp
    qed
  qed
qed

lemma marker_facts:
  "content_length_marker = CHR 0x0D # CHR 0x0A # ''content-length:''"
  "length content_length_marker = 17" "to_lower content_length_name = ''content-length:'' @ '' ''"
  "length content_length_name = 16" "CHR 0x0D \<notin> set content_length_name" "content_length_name \<noteq> []"
  by code_simp+

lemma find_marker_skip:
  "CHR 0x0D \<notin> set a \<Longrightarrow>
     find_str content_length_marker (a @ s) = map_option ((+) (length a)) (find_str content_length_marker s)"
  unfolding marker_facts(1) by (rule find_str_skip)

lemma to_lower_char_cr:
  assumes "to_lower_char c = CHR 0x0D"
  shows "c = CHR 0x0D"
proof (cases "65 \<le> (of_char c :: nat) \<and> of_char c \<le> (90 :: nat)")
  case True
  then have "of_char (to_lower_char c) = (of_char c + 32 :: nat)"
    by (simp add: to_lower_char_def)
  moreover have "of_char (to_lower_char c) = (13 :: nat)" by (simp add: assms)
  ultimately show ?thesis using True by simp
next
  case False
  then show ?thesis using assms by (simp add: to_lower_char_def Let_def split: if_splits)
qed

lemma to_lower_no_cr: "CHR 0x0D \<notin> set a \<Longrightarrow> CHR 0x0D \<notin> set (to_lower a)"
  using to_lower_char_cr by (fastforce simp: to_lower_def)

lemma to_lower_crlf [simp]: "to_lower crlf = crlf"
  by code_simp

lemma find_marker_line:
  assumes "clean_line h" "not_content_length h"
  shows "find_str content_length_marker (to_lower (header_text (h # hs))) =
    map_option ((+) (length (crlf @ h))) (find_str content_length_marker (to_lower (header_text hs)))"
proof -
  let ?t = "to_lower (header_text hs)"
  have h: "CHR 0x0D \<notin> set (to_lower h)" "h \<noteq> []" "\<not> prefix ''content-length:'' (to_lower h)"
    using assms to_lower_no_cr [of h] by (auto simp: clean_line_def not_content_length_def)
  have np: "\<not> prefix ''content-length:'' (to_lower h @ ?t)"
  proof
    assume "prefix ''content-length:'' (to_lower h @ ?t)"
    then obtain us where us: "''content-length:'' = to_lower h @ us" "prefix us ?t"
      using h(3) by (auto simp: prefix_append simp del: append.simps)
    have "?t = [] \<or> hd ?t = CHR 0x0D" by (cases hs) (simp_all add: crlf_def to_lower_Cons)
    then have "us = [] \<or> CHR 0x0D \<in> set us" using us(2) by (cases us; cases ?t) auto
    moreover have "CHR 0x0D \<notin> set ''content-length:''" by simp
    then have "CHR 0x0D \<notin> set us" using us(1) by (metis UnI2 set_append)
    ultimately show False using us(1) h(3) by simp
  qed
  then have "find_str content_length_marker (crlf @ to_lower h @ ?t) =
      map_option Suc (map_option Suc (find_str content_length_marker (to_lower h @ ?t)))"
    by (simp add: marker_facts(1) crlf_def)
  then show ?thesis using find_marker_skip [OF h(1), of ?t]
    by (cases "find_str content_length_marker ?t") simp_all
qed

lemma find_marker_lines:
  assumes "list_all clean_line before" "list_all not_content_length before"
  shows "find_str content_length_marker (to_lower (header_text (before @ content_length_line n # after))) =
    Some (length (header_text before))"
  using assms
proof (induction before)
  case Nil
  have "prefix content_length_marker (to_lower (header_text ([] @ content_length_line n # after)))"
    by (simp add: content_length_line_def content_length_marker_def marker_facts(3))
  then show ?case by (cases "to_lower (header_text ([] @ content_length_line n # after))") (auto simp: marker_facts(1))
next
  case (Cons h hs)
  then show ?case unfolding append_Cons by (subst find_marker_line) simp_all
qed

lemma find_no_marker:
  "list_all clean_line hs \<Longrightarrow> list_all not_content_length hs \<Longrightarrow>
     find_str content_length_marker (to_lower (header_text hs)) = None"
proof (induction hs)
  case Nil
  show ?case by code_simp
next
  case (Cons h hs)
  then show ?case by (subst find_marker_line) simp_all
qed

lemma to_lower_digits: "to_lower (string_of_nat n) = string_of_nat n"
proof -
  have "to_lower_char c = c" if "c \<in> set (string_of_nat n)" for c
    using string_of_nat_chars [OF that]
    by (auto simp: is_digit_in_def digit_val_def to_lower_char_def Let_def split: if_splits)
  then show ?thesis by (simp add: to_lower_def map_idI)
qed

lemma header_text_lower_no_digit: "no_digit_ahead (to_lower (header_text hs))"
  by (cases hs) (auto simp: no_digit_ahead_def crlf_def to_lower_Cons is_digit_in_def digit_val_def Let_def)

lemma content_length_found:
  fixes before after :: "string list"
  assumes "list_all clean_line before" "list_all not_content_length before" "CHR 0x0D \<notin> set start"
    and "n < 2 ^ 63"
  defines "head \<equiv> start @ header_text (before @ content_length_line n # after)"
  shows "find_str content_length_marker (to_lower head) = Some (length (start @ header_text before))"
    and "stol (drop (length (start @ header_text before) + length content_length_marker) (to_lower head)) = Inr (int n)"
proof -
  show "find_str content_length_marker (to_lower head) = Some (length (start @ header_text before))"
    unfolding head_def to_lower_append [of start] find_marker_skip [OF to_lower_no_cr [OF assms(3)]]
      find_marker_lines [OF assms(1,2)] by simp
  have "drop (length (start @ header_text before) + length content_length_marker) (to_lower head) =
      CHR '' '' # string_of_nat n @ to_lower (header_text after)"
    by (simp add: head_def content_length_line_def marker_facts to_lower_digits crlf_def to_lower_Cons)
  then show "stol (drop (length (start @ header_text before) + length content_length_marker) (to_lower head)) = Inr (int n)"
    using stol_string_of_nat [OF assms(4) header_text_lower_no_digit [of after]]
    by (simp add: stol_space is_space_def)
qed

text \<open>What the test sees of a message of which \<open>k\<close> bytes have arrived.\<close>

lemma length_message: "length (http_message start headers body) = length (start @ header_text headers) + 4 + length body"
  by (simp add: http_message_def)

lemma message_so_far:
  fixes body :: string
  assumes "list_all clean_line headers" "CHR 0x0D \<notin> set start"
  defines "m \<equiv> http_message start headers body" and "head \<equiv> start @ header_text headers"
  shows "find_str header_terminator (take k m) = (if length head + 4 \<le> k then Some (length head) else None)"
    and "length head + 4 \<le> k \<Longrightarrow> take (length head) (take k m) = head"
proof -
  have "find_str header_terminator m = Some (length head)"
    unfolding m_def head_def using assms(1,2) by (rule find_terminator_message)
  then show "find_str header_terminator (take k m) = (if length head + 4 \<le> k then Some (length head) else None)"
    by (simp only: find_str_take option.case length_terminator)
qed (simp_all add: m_def head_def http_message_def)

lemma complete_message:
  assumes "list_all clean_line before" "list_all clean_line after" "list_all not_content_length before"
    and "CHR 0x0D \<notin> set start"
    and "\<not> is_chunked (start @ header_text (before @ content_length_line (length body) # after))"
    and "length (http_message start (before @ content_length_line (length body) # after) body) < 2 ^ 63"
  defines "m \<equiv> http_message start (before @ content_length_line (length body) # after) body"
  shows "messageComplete (take k m) \<longleftrightarrow> length m \<le> k"
proof -
  let ?hs = "before @ content_length_line (length body) # after"
  let ?head = "start @ header_text ?hs"
  have "clean_line (content_length_line (length body))"
    using digits_no_line_break marker_facts by (simp add: clean_line_def content_length_line_def)
  then have "list_all clean_line ?hs" using assms(1,2) by simp
  note so_far = message_so_far [OF this assms(4), of k body, folded m_def]
    and len = length_message [of start ?hs body, folded m_def]
  show ?thesis
  proof (cases "length ?head + 4 \<le> k")
    case False
    then show ?thesis using so_far(1) len by (simp add: messageComplete_def)
  next
    case True
    have n: "length body < 2 ^ 63" using assms(6) len by (simp add: m_def)
    note c = content_length_found [OF assms(1,3,4) n]
    have "add64 (length ?head + 4) (size_of_long (int (length body))) = length m"
      using assms(6) len by (simp add: size_of_long_nonneg m_def)
    then show ?thesis
      using True len assms(5) c
      by (simp only: messageComplete_def so_far(1) if_True option.case so_far(2) [OF True] Let_def
          is_chunked_def [symmetric] if_False sum.case c length_take) auto
  qed
qed

text \<open>Without either of the two headers a message is never complete before its connection ends.\<close>

lemma unframed_message:
  assumes "list_all clean_line headers" "list_all not_content_length headers" "CHR 0x0D \<notin> set start"
    and "\<not> is_chunked (start @ header_text headers)"
  shows "\<not> messageComplete (take k (http_message start headers body))"
proof (cases "length (start @ header_text headers) + 4 \<le> k")
  case True
  note so_far = message_so_far [OF assms(1,3), of k body]
  have "find_str content_length_marker (to_lower (start @ header_text headers)) = None"
    unfolding to_lower_append [of start] find_marker_skip [OF to_lower_no_cr [OF assms(3)]]
      find_no_marker [OF assms(1,2)] by simp
  then show ?thesis
    using True assms(4)
    by (simp only: messageComplete_def so_far(1) if_True option.case so_far(2) [OF True] Let_def
        is_chunked_def [symmetric] if_False not_False_eq_True)
next
  case False
  then show ?thesis using message_so_far(1) [OF assms(1,3), of k body] by (simp add: messageComplete_def)
qed

section \<open>Chunked messages\<close>

lemma last_chunk_facts:
  "crlf @ last_chunk = CHR 0x0D # CHR 0x0A # ''0'' @ crlf @ crlf" "length last_chunk = 5"
  "length (crlf @ last_chunk) = 7"
  by code_simp+

lemma find_last_skip:
  "CHR 0x0D \<notin> set a \<Longrightarrow>
     find_str (crlf @ last_chunk) (a @ s) = map_option ((+) (length a)) (find_str (crlf @ last_chunk) s)"
  unfolding last_chunk_facts(1) by (rule find_str_skip)

lemma hex_not_zero:
  assumes "0 < n" "crlf = CHR 0x0D # t"
  shows "\<not> prefix (''0'' @ crlf @ crlf) (to_base 16 n @ crlf @ d)"
proof
  have cr: "CHR 0x0D \<notin> set (to_base 16 n)" using to_base16_chars by auto
  assume "prefix (''0'' @ crlf @ crlf) (to_base 16 n @ crlf @ d)"
  then obtain r where r: "''0'' @ crlf @ crlf @ r = to_base 16 n @ crlf @ d" by (auto simp: prefix_def)
  have "takeWhile (\<lambda>c. c \<noteq> CHR 0x0D) (''0'' @ crlf @ crlf @ r) = ''0''" by (simp add: crlf_def)
  moreover have "takeWhile (\<lambda>c. c \<noteq> CHR 0x0D) (to_base 16 n @ crlf @ d) = to_base 16 n"
    using cr by (subst takeWhile_append2) (auto simp: crlf_def)
  ultimately have "to_base 16 n = ''0''" using r by metis
  then have "digits_value 16 ''0'' = n" using digits_value_to_base [of 16 n] by simp
  moreover have "digits_value 16 ''0'' = 0" by code_simp
  ultimately show False using assms by simp
qed

lemma encode_chunks_start: "\<exists>c t. encode_chunks ds = c # t \<and> c \<noteq> CHR 0x0D"
proof (cases ds)
  case (Cons d ds')
  obtain c t where "to_base 16 (length d) = c # t" by (metis to_base_not_Nil neq_Nil_conv)
  then show ?thesis using Cons to_base16_chars(1) [of c "length d"]
    by (auto simp: encode_chunks_def encode_chunk_def)
qed (simp add: encode_chunks_def)

text \<open>
  The mark the client looks for, as it stands after the data of a chunk. A chunk is safe when the mark is
  not in its data taken with the line breaks around it; a chunk without a carriage return is.
\<close>

definition end_mark :: string where
  "end_mark = crlf @ last_chunk"

definition safe_chunk :: "string \<Rightarrow> bool" where
  "safe_chunk d = (d \<noteq> [] \<and> find_str end_mark (crlf @ d @ crlf) = None)"

definition plain_chunk :: "string \<Rightarrow> bool" where
  "plain_chunk d = (d \<noteq> [] \<and> CHR 0x0D \<notin> set d)"

lemma end_mark_facts:
  "length end_mark = 7" "end_mark \<noteq> []"
  "end_mark = [CHR 0x0D, CHR 0x0A, CHR ''0'', CHR 0x0D, CHR 0x0A, CHR 0x0D, CHR 0x0A]"
  by code_simp+

lemma find_str_later:
  assumes "\<And>j. j < n \<Longrightarrow> \<not> prefix p (drop j s)" "n \<le> length s"
  shows "find_str p s = map_option ((+) n) (find_str p (drop n s))"
  using assms
proof (induction n arbitrary: s)
  case 0
  show ?case by (cases "find_str p s") simp_all
next
  case (Suc n)
  obtain c s' where s: "s = c # s'" using Suc.prems(2) by (cases s) auto
  have "\<not> prefix p (drop j s')" if "j < n" for j using Suc.prems(1) [of "Suc j"] that s by simp
  from Suc.IH [OF this] have "find_str p s' = map_option ((+) n) (find_str p (drop n s'))"
    using Suc.prems(2) s by simp
  moreover have "\<not> prefix p (c # s')" using Suc.prems(1) [of 0] s by simp
  ultimately show ?case by (cases "find_str p (drop n s')") (simp_all add: s)
qed

lemma mark_step:
  "\<not> prefix end_mark (crlf @ s) \<Longrightarrow>
     find_str end_mark (crlf @ s) = map_option ((+) 2) (find_str end_mark s)"
  by (cases "find_str end_mark s") (auto simp: crlf_def end_mark_facts(3))

text \<open>The mark cannot begin in a chunk and end in the size line after it.\<close>

lemma find_mark_chunk:
  assumes "c \<noteq> CHR 0x0D"
  shows "find_str end_mark (crlf @ d @ crlf @ c # t) =
    (case find_str end_mark (crlf @ d @ crlf) of
       Some j \<Rightarrow> Some j
     | None \<Rightarrow> map_option ((+) (2 + length d)) (find_str end_mark (crlf @ c # t)))"
proof -
  let ?s = "crlf @ d @ crlf @ c # t"
  have "?s = (crlf @ d @ crlf) @ c # t" "length (crlf @ d @ crlf) = 4 + length d" by simp_all
  then have tk: "take (4 + length d) ?s = crlf @ d @ crlf" by (metis append_eq_conv_conj)
  note cut = find_str_take [of end_mark "4 + length d" ?s, unfolded tk]
  show ?thesis
  proof (cases "find_str end_mark (crlf @ d @ crlf)")
    case (Some j)
    then show ?thesis using cut by (auto split: option.splits if_splits)
  next
    case None
    have "\<not> prefix end_mark (drop i ?s)" if i: "i < 2 + length d" for i
    proof
      assume pre: "prefix end_mark (drop i ?s)"
      obtain k where k: "find_str end_mark ?s = Some k" "k \<le> i"
      proof (cases "find_str end_mark ?s")
        case None
        have "i \<le> length ?s" using i by simp
        then show ?thesis using None pre by (simp only: find_str_None)
      next
        case (Some k)
        then show ?thesis using find_str_first [OF Some, of i] pre that by (meson not_less)
      qed
      then have k7: "4 + length d < k + 7" using cut None by (auto simp: end_mark_facts(1) split: if_splits)
      have "prefix end_mark (drop k ?s)" using k(1) by (rule find_str_prefix)
      then obtain r where r: "drop k ?s = end_mark @ r" by (rule prefixE)
      have at: "?s ! (k + q) = end_mark ! q" if "q < 7" for q
      proof -
        have "k \<le> length ?s" using k(2) i by simp
        then have "?s ! (k + q) = (end_mark @ r) ! q" unfolding r [symmetric] by (rule nth_drop [symmetric])
        then show ?thesis using that by (simp only: nth_append end_mark_facts(1) if_True)
      qed
      have s4: "?s ! (4 + length d) = c" "?s ! (3 + length d) = CHR 0x0A"
        by (simp_all add: nth_append crlf_def)
      define q where "q = 4 + length d - k"
      have q: "3 \<le> q" "q < 7" "k + q = 4 + length d" "k + (q - 1) = 3 + length d"
        using k(2) i k7 by (simp_all add: q_def)
      then have "end_mark ! q = c" "end_mark ! (q - 1) = CHR 0x0A"
        using at [of q] at [of "q - 1"] s4 by simp_all
      moreover have "q = 3 \<or> q = 4 \<or> q = 5 \<or> q = 6" using q by linarith
      ultimately show False using assms by (auto simp: end_mark_facts(3))
    qed
    from find_str_later [OF this] have "find_str end_mark ?s =
        map_option ((+) (2 + length d)) (find_str end_mark (drop (2 + length d) ?s))" by simp
    then show ?thesis using None by (simp add: crlf_def)
  qed
qed

lemma find_mark_encoded:
  assumes "d \<noteq> []"
  shows "find_str end_mark (crlf @ encode_chunks (d # ds)) =
    map_option ((+) (2 + length (to_base 16 (length d))))
      (case find_str end_mark (crlf @ d @ crlf) of
         Some j \<Rightarrow> Some j
       | None \<Rightarrow> map_option ((+) (2 + length d)) (find_str end_mark (crlf @ encode_chunks ds)))"
proof -
  let ?h = "to_base 16 (length d)"
  obtain c t where c: "encode_chunks ds = c # t" "c \<noteq> CHR 0x0D" using encode_chunks_start by blast
  have body: "encode_chunks (d # ds) = ?h @ crlf @ d @ crlf @ c # t"
    using c(1) by (simp add: encode_chunks_def encode_chunk_def)
  have h: "CHR 0x0D \<notin> set ?h" using to_base16_chars by auto
  have n: "\<not> prefix end_mark (crlf @ ?h @ crlf @ d @ crlf @ c # t)"
    using hex_not_zero [of "length d" "[CHR 0x0A]" "d @ crlf @ c # t"] assms
    by (simp add: end_mark_def last_chunk_def crlf_def)
  have skip: "find_str end_mark (?h @ s) = map_option ((+) (length ?h)) (find_str end_mark s)" for s
    unfolding end_mark_def using h by (rule find_last_skip)
  have "find_str end_mark (crlf @ encode_chunks (d # ds)) =
      map_option ((+) 2) (map_option ((+) (length ?h)) (find_str end_mark (crlf @ d @ crlf @ c # t)))"
    unfolding body mark_step [OF n] skip ..
  also have "\<dots> = map_option ((+) (2 + length ?h)) (find_str end_mark (crlf @ d @ crlf @ c # t))"
    by (cases "find_str end_mark (crlf @ d @ crlf @ c # t)") simp_all
  finally show ?thesis unfolding find_mark_chunk [OF c(2)] c(1) .
qed

lemma find_mark_safe:
  assumes "list_all safe_chunk before"
  shows "find_str end_mark (crlf @ encode_chunks (before @ ds)) =
    map_option ((+) (length (concat (map encode_chunk before)))) (find_str end_mark (crlf @ encode_chunks ds))"
  using assms
proof (induction before)
  case (Cons d before)
  have d: "d \<noteq> []" "find_str end_mark (crlf @ d @ crlf) = None" using Cons.prems by (auto simp: safe_chunk_def)
  show ?case
    using Cons by (cases "find_str end_mark (crlf @ encode_chunks ds)")
      (simp_all add: find_mark_encoded [OF d(1)] d(2) encode_chunk_def)
qed (cases "find_str end_mark (crlf @ encode_chunks ds)"; simp)

lemma find_mark_end:
  assumes "list_all safe_chunk ds"
  shows "find_str end_mark (crlf @ encode_chunks ds) = Some (length (encode_chunks ds) - 5)"
proof -
  have "find_str end_mark (crlf @ encode_chunks []) = Some 0" by code_simp
  then show ?thesis using find_mark_safe [OF assms, of "[]"] by (simp add: encode_chunks_def)
qed

lemma plain_chunk_safe: "plain_chunk d \<Longrightarrow> safe_chunk d"
proof -
  assume "plain_chunk d"
  then have d: "d \<noteq> []" "CHR 0x0D \<notin> set d" by (simp_all add: plain_chunk_def)
  have n: "\<not> prefix end_mark (crlf @ d @ crlf)"
    using d by (cases d; cases "tl d") (auto simp: end_mark_facts(3) crlf_def)
  have "find_str end_mark crlf = None" by code_simp
  then have "find_str end_mark (d @ crlf) = None"
    using find_last_skip [OF d(2), of crlf] by (simp add: end_mark_def)
  then show ?thesis using d(1) mark_step [OF n] by (simp add: safe_chunk_def)
qed

lemma last_chunk_first:
  assumes "list_all (\<lambda>d. d \<noteq> []) ds" "take 5 (take n (encode_chunks ds)) = last_chunk"
  shows "ds = []" "5 \<le> n"
proof -
  show n: "5 \<le> n" using arg_cong [OF assms(2), of length] by (simp add: last_chunk_facts)
  then have "prefix last_chunk (encode_chunks ds)"
    using assms(2) by (metis min_absorb1 take_is_prefix take_take)
  then show "ds = []"
    using assms(1) hex_not_zero [of "length (hd ds)" "[CHR 0x0A]"]
    by (cases ds) (auto simp: encode_chunks_def encode_chunk_def last_chunk_def crlf_def)
qed

text \<open>A chunked message passes the test from the byte on that ends the first mark in it.\<close>

lemma complete_at_mark:
  assumes "list_all clean_line headers" "CHR 0x0D \<notin> set start"
    and "is_chunked (start @ header_text headers)" "list_all (\<lambda>d. d \<noteq> []) ds"
    and "find_str end_mark (crlf @ encode_chunks ds) = Some i"
  shows "messageComplete (take k (http_message start headers (encode_chunks ds))) \<longleftrightarrow>
    length (start @ header_text headers) + 9 + i \<le> k"
proof -
  let ?head = "start @ header_text headers" and ?enc = "encode_chunks ds"
  let ?m = "http_message start headers ?enc"
  note so_far = message_so_far [OF assms(1,2), of k ?enc]
  show ?thesis
  proof (cases "length ?head + 4 \<le> k")
    case False
    then show ?thesis using so_far(1) by (simp add: messageComplete_def)
  next
    case True
    have dr: "drop (length ?head) (take k ?m) = take (k - length ?head) (crlf @ crlf @ ?enc)"
      by (simp only: drop_take) (simp add: http_message_def header_terminator_def)
    have "\<not> prefix end_mark (crlf @ crlf @ ?enc)" by (simp add: end_mark_facts(3) crlf_def)
    from mark_step [OF this] have f: "find_str end_mark (crlf @ crlf @ ?enc) = Some (2 + i)"
      using assms(5) by simp
    have mark: "find_from end_mark (take k ?m) (length ?head) \<noteq> None \<longleftrightarrow> length ?head + 9 + i \<le> k"
      unfolding find_from_def dr find_str_take f using True
      by (auto simp: end_mark_facts(1) http_message_def)
    have d: "drop (length ?head + 4) (take k ?m) = take (k - (length ?head + 4)) ?enc"
      by (simp only: drop_take) (simp add: http_message_def)
    have empty: "length ?head + 9 + i \<le> k" if "take 5 (drop (length ?head + 4) (take k ?m)) = last_chunk"
    proof -
      note first = last_chunk_first [OF assms(4) that [unfolded d]]
      have "find_str end_mark (crlf @ encode_chunks []) = Some 0" by code_simp
      then show ?thesis using assms(5) first by simp
    qed
    have "messageComplete (take k ?m) \<longleftrightarrow>
        find_from end_mark (take k ?m) (length ?head) \<noteq> None \<or>
        take 5 (drop (length ?head + 4) (take k ?m)) = last_chunk"
      using True assms(3) unfolding end_mark_def
      by (simp only: messageComplete_def so_far(1) option.case Let_def so_far(2) [OF True] is_chunked_def if_True simp_thms)
    then show ?thesis using mark empty by blast
  qed
qed

lemma complete_chunked:
  assumes "list_all clean_line headers" "CHR 0x0D \<notin> set start"
    and "is_chunked (start @ header_text headers)" "list_all safe_chunk ds"
  defines "m \<equiv> http_message start headers (encode_chunks ds)"
  shows "messageComplete (take k m) \<longleftrightarrow> length m \<le> k"
proof -
  have "list_all (\<lambda>d. d \<noteq> []) ds" using assms(4) by (auto simp: list_all_iff safe_chunk_def)
  moreover have "5 \<le> length (encode_chunks ds)" by (simp add: encode_chunks_def)
  then have "length (start @ header_text headers) + 9 + (length (encode_chunks ds) - 5) = length m"
    by (simp add: m_def http_message_def)
  ultimately show ?thesis
    using complete_at_mark [OF assms(1-3) _ find_mark_end [OF assms(4)]] unfolding m_def by metis
qed

text \<open>What the parser makes of a message whose end has been cut off in a chunk or right after it.\<close>

lemma parse_cut_chunk:
  assumes "list_all clean_line headers" "CHR 0x0D \<notin> set reason" "status < 2 ^ 31"
    and "is_chunked (render_head status reason headers)"
    and "list_all (\<lambda>d. d \<noteq> []) (before @ [d])" "length (concat (map encode_chunk (before @ [d]))) < size_limit"
    and "n \<le> length d + 2"
  shows "parseHttpResponse (render_response status reason headers
      (concat (map encode_chunk before) @ to_base 16 (length d) @ crlf @ take n (d @ crlf))) =
    Some (if n < length d then Inl (Runtime_error ''invalid chunked HTTP body: truncated chunk'')
          else Inr \<lparr>hr_status = int status, hr_body = concat (before @ [d]),
                    hr_inference_header_length = header_length_of (render_head status reason headers)\<rparr>)"
proof -
  let ?pre = "concat (map encode_chunk before)"
  let ?body = "?pre @ to_base 16 (length d) @ crlf @ take n (d @ crlf)"
  have le: "length (?pre @ to_base 16 (length d)) + length d + 4 < size_limit" "d \<noteq> []"
    "list_all (\<lambda>d. d \<noteq> []) before" "length ([] @ ?pre) < size_limit"
    using assms(5,6) by (auto simp: encode_chunk_def)
  have "dechunk ?body 0 [] = dechunk ?body (length ?pre) (concat before)"
    using dechunk_chunks [OF le(3,4), of "to_base 16 (length d) @ crlf @ take n (d @ crlf)" "[]"] by simp
  also have "\<dots> = Some (if n < length d then Inl (Runtime_error ''invalid chunked HTTP body: truncated chunk'')
      else Inr (concat (before @ [d])))"
  proof (cases "n < length d")
    case True
    then have "length (take n (d @ crlf)) < length d" by simp
    from dechunk_truncated [OF this, of ?pre "concat before"] show ?thesis using le True by simp
  next
    case False
    then have t: "take n (d @ crlf) = d @ take (n - length d) crlf" by simp
    have "length ?body \<le> length ?pre + length (encode_chunk d)" using assms(7) by (simp add: encode_chunk_def)
    then have "dechunk ?body (length ?pre + length (encode_chunk d)) (concat before @ d) = Some (Inr (concat before @ d))"
      by (subst dechunk.simps) simp
    then show ?thesis
      using dechunk_chunk [OF le(2,1), of "take (n - length d) crlf" "concat before"] False unfolding t by simp
  qed
  finally show ?thesis by (simp add: parse_render_general [OF assms(1-3)] Let_def assms(4))
qed

section \<open>Properties\<close>

text \<open>
  C17: a response with a \<open>Content-Length\<close> header is recognised as complete exactly when its last byte
  has arrived, for every way the bytes can be cut off; the
  \<open>Inference-Header-Content-Length\<close> header, whose name ends in the same text, is not mistaken for it.
\<close>

theorem messageComplete_content_length:
  assumes "list_all clean_line before" and "list_all clean_line after"
    and "list_all not_content_length before" and "CHR 0x0D \<notin> set start"
    and "\<not> is_chunked (start @ header_text (before @ content_length_line (length body) # after))"
    and "length (http_message start (before @ content_length_line (length body) # after) body) < 2 ^ 63"
  shows "messageComplete (take k (http_message start (before @ content_length_line (length body) # after) body)) \<longleftrightarrow>
    length (http_message start (before @ content_length_line (length body) # after) body) \<le> k"
  using assms by (rule complete_message)

theorem messageComplete_content_length_witness:
  "messageComplete (http_message ''HTTP/1.1 200 OK'' ([inference_line 2] @ content_length_line 3 # []) ''{}x'') \<and>
   \<not> messageComplete (take 76 (http_message ''HTTP/1.1 200 OK'' ([inference_line 2] @ content_length_line 3 # []) ''{}x''))"
proof -
  let ?m = "http_message ''HTTP/1.1 200 OK'' ([inference_line 2] @ content_length_line (length ''{}x'') # []) ''{}x''"
  have mc: "messageComplete (take k ?m) \<longleftrightarrow> length ?m \<le> k" for k
    by (rule messageComplete_content_length; code_simp)
  have l: "\<not> length ?m \<le> 76" by code_simp
  have "messageComplete (take (length ?m) ?m)" unfolding mc by (rule le_refl)
  moreover have "\<not> messageComplete (take 76 ?m)" unfolding mc by (rule l)
  moreover have "length ''{}x'' = (3::nat)" by simp
  ultimately show ?thesis by (simp only: take_all le_refl not_False_eq_True simp_thms)
qed

text \<open>
  C30: a chunked response whose chunks hold no carriage return (the JSON a server sends holds none) is
  recognised as complete exactly when its last byte has arrived.
\<close>

theorem messageComplete_chunked:
  assumes "list_all clean_line headers" and "CHR 0x0D \<notin> set start"
    and "is_chunked (start @ header_text headers)" and "list_all plain_chunk ds"
  shows "messageComplete (take k (http_message start headers (encode_chunks ds))) \<longleftrightarrow>
    length (http_message start headers (encode_chunks ds)) \<le> k"
proof -
  have "list_all safe_chunk ds" using assms(4) plain_chunk_safe by (auto simp: list_all_iff)
  then show ?thesis by (rule complete_chunked [OF assms(1-3)])
qed

theorem messageComplete_chunked_witness:
  "\<not> messageComplete (take 58 (http_message ''HTTP/1.1 200 OK'' [''Transfer-Encoding: chunked''] (encode_chunks [''{}''])))"
proof -
  let ?m = "http_message ''HTTP/1.1 200 OK'' [''Transfer-Encoding: chunked''] (encode_chunks [''{}''])"
  have "messageComplete (take 58 ?m) \<longleftrightarrow> length ?m \<le> 58"
    by (rule messageComplete_chunked; code_simp)
  moreover have "\<not> length ?m \<le> 58" by code_simp
  ultimately show ?thesis by simp
qed

text \<open>
  C31: a chunked response can be taken for complete too early. Its first chunk that holds the bytes of
  the last chunk (on a line of their own, the line breaks around the data included) ends the read: the
  test passes from the byte on that ends the mark in that chunk, which is before the end of the message.
  What has been read then fails to parse when data of the chunk is missing, and otherwise parses as the
  response with all later chunks left out.
\<close>

theorem messageComplete_early:
  assumes "list_all clean_line headers" and "CHR 0x0D \<notin> set reason" and "status < 2 ^ 31"
    and "is_chunked (render_head status reason headers)"
    and "list_all safe_chunk before" and "list_all (\<lambda>d. d \<noteq> []) (d # after)"
    and "find_str end_mark (crlf @ d @ crlf) = Some j"
    and "length (encode_chunks (before @ d # after)) < size_limit"
  shows "let m = render_response status reason headers (encode_chunks (before @ d # after));
             cut = length (render_head status reason headers) + 4 + length (concat (map encode_chunk before)) +
                   length (to_base 16 (length d)) + j + 7
         in cut < length m \<and> (\<forall>k. messageComplete (take k m) \<longleftrightarrow> cut \<le> k) \<and>
            parseHttpResponse (take cut m) =
              Some (if j + 5 < length d then Inl (Runtime_error ''invalid chunked HTTP body: truncated chunk'')
                    else Inr \<lparr>hr_status = int status, hr_body = concat (before @ [d]),
                              hr_inference_header_length = header_length_of (render_head status reason headers)\<rparr>)"
proof -
  let ?start = "''HTTP/1.1 '' @ string_of_nat status @ '' '' @ reason" and ?ds = "before @ d # after"
  let ?head = "render_head status reason headers" and ?h = "to_base 16 (length d)"
  let ?pre = "concat (map encode_chunk before)"
  let ?cut = "length ?head + 4 + length ?pre + length ?h + j + 7"
  let ?m = "render_response status reason headers (encode_chunks ?ds)"
  have h: "?head = ?start @ header_text headers" by (simp add: render_head_def)
  have m: "?m = http_message ?start headers (encode_chunks ?ds)"
    by (simp add: render_response_def render_head_def http_message_def)
  have ne: "list_all (\<lambda>d. d \<noteq> []) ?ds" "d \<noteq> []" "list_all (\<lambda>d. d \<noteq> []) (before @ [d])"
    using assms(5,6) by (auto simp: list_all_iff safe_chunk_def)
  have j: "j + 5 \<le> length d + 2" using find_str_bound [OF assms(7)] by (simp add: end_mark_facts(1))
  have enc: "encode_chunks ?ds = ?pre @ ?h @ crlf @ d @ crlf @ encode_chunks after"
    by (simp add: encode_chunks_def encode_chunk_def)
  have "find_str end_mark (crlf @ encode_chunks ?ds) = Some (length ?pre + (2 + length ?h + j))"
    unfolding find_mark_safe [OF assms(5)] find_mark_encoded [OF ne(2)] assms(7) by simp
  moreover have "CHR 0x0D \<notin> set ?start" using assms(2) digits_no_line_break by simp
  ultimately have complete: "messageComplete (take k ?m) \<longleftrightarrow> ?cut \<le> k" for k
    using complete_at_mark [of headers ?start ?ds "length ?pre + (2 + length ?h + j)" k] assms(1,4) ne(1)
    unfolding m h by (simp add: ac_simps)
  have less: "?cut < length ?m"
    using j by (simp add: render_response_def enc) (simp add: encode_chunks_def)
  have "take ?cut ?m = render_response status reason headers (?pre @ ?h @ crlf @ take (j + 5) (d @ crlf))"
    using j by (simp add: render_response_def enc add.commute)
  moreover have "length (concat (map encode_chunk (before @ [d]))) < size_limit"
    using assms(8) by (simp add: encode_chunks_def)
  ultimately have "parseHttpResponse (take ?cut ?m) =
      Some (if j + 5 < length d then Inl (Runtime_error ''invalid chunked HTTP body: truncated chunk'')
            else Inr \<lparr>hr_status = int status, hr_body = concat (before @ [d]),
                      hr_inference_header_length = header_length_of ?head\<rparr>)"
    using parse_cut_chunk [OF assms(1-4) ne(3) _ j] by (simp only:)
  with less complete show ?thesis by (simp only: Let_def simp_thms)
qed

text \<open>
  The witness has both outcomes: a chunk that goes on after the mark, of whose message 58 bytes of 66
  pass, and a chunk whose data ends with the mark, whose successor is lost without an error.
\<close>

theorem messageComplete_early_witness:
  "(let m = render_response 200 ''OK'' [''Transfer-Encoding: chunked''] (encode_chunks [''A'' @ end_mark @ ''B''])
    in length m = 66 \<and> messageComplete (take 58 m) \<and>
       parseHttpResponse (take 58 m) = Some (Inl (Runtime_error ''invalid chunked HTTP body: truncated chunk''))) \<and>
   (let m = render_response 200 ''OK'' [''Transfer-Encoding: chunked''] (encode_chunks [''A'' @ end_mark, ''lost''])
    in length m = 74 \<and> messageComplete (take 58 m) \<and>
       parseHttpResponse (take 58 m) =
         Some (Inr \<lparr>hr_status = 200, hr_body = ''A'' @ end_mark, hr_inference_header_length = -1\<rparr>))"
proof -
  let ?hs = "[''Transfer-Encoding: chunked'']"
  have c: "list_all clean_line ?hs" "CHR 0x0D \<notin> set ''OK''" "(200::nat) < 2 ^ 31" "is_chunked (render_head 200 ''OK'' ?hs)"
    "list_all safe_chunk []"
    by code_simp+
  have hd: "length (render_head 200 ''OK'' ?hs) = 43" "header_length_of (render_head 200 ''OK'' ?hs) = -1" by code_simp+
  have d1: "list_all (\<lambda>d. d \<noteq> []) [''A'' @ end_mark @ ''B'']"
    "find_str end_mark (crlf @ (''A'' @ end_mark @ ''B'') @ crlf) = Some 3"
    "length (encode_chunks ([] @ [''A'' @ end_mark @ ''B''])) < size_limit"
    "length (''A'' @ end_mark @ ''B'') = 9"
    "length (render_response 200 ''OK'' ?hs (encode_chunks ([] @ [''A'' @ end_mark @ ''B'']))) = 66"
    by code_simp+
  have d2: "list_all (\<lambda>d. d \<noteq> []) [''A'' @ end_mark, ''lost'']"
    "find_str end_mark (crlf @ (''A'' @ end_mark) @ crlf) = Some 3"
    "length (encode_chunks ([] @ [''A'' @ end_mark, ''lost''])) < size_limit"
    "length (''A'' @ end_mark) = 8"
    "length (render_response 200 ''OK'' ?hs (encode_chunks ([] @ [''A'' @ end_mark, ''lost'']))) = 74"
    by code_simp+
  have e: "(43::nat) + 4 + length (concat (map encode_chunk [])) + length (to_base 16 9) + 3 + 7 = 58"
    "(43::nat) + 4 + length (concat (map encode_chunk [])) + length (to_base 16 8) + 3 + 7 = 58"
    by code_simp+
  have f: "(3::nat) + 5 < 9" "\<not> (3::nat) + 5 < 8"
    "concat [x] = x" "int 200 = 200" for x :: string
    by simp_all
  note r1 = messageComplete_early [OF c d1(1-3), unfolded Let_def hd d1(4,5) append_Nil e]
    and r2 = messageComplete_early [OF c d2(1-3), unfolded Let_def hd d2(4,5) append_Nil e]
  show ?thesis
    using r1 r2 by (simp only: Let_def d1(4) d2(4) d1(5) [unfolded append_Nil] d2(5) [unfolded append_Nil] append_Nil e f if_True if_False order_refl simp_thms)
qed

text \<open>
  An HTTP/1.0 response without a \<open>Connection\<close> header does not count as asking to close the
  connection, whatever its status line says, although HTTP/1.0 closes by default.
\<close>

lemma wantsClose_http10:
  "wantsClose (''HTTP/1.0 200 OK'' @ crlf @ ''Content-Length: 2'' @ header_terminator @ ''{}'') = False"
  by code_simp

end
