(* ===== verification/Cpp_Double.thy ===== *)
theory Cpp_Double
  imports Complex_Main Cpp_String "HOL-Library.Log_Nat"
begin

text \<open>
  The \<open>double\<close> arithmetic of \<open>src/KserveRetry.cpp\<close>: IEEE-754 binary64 with rounding
  to nearest, ties to even. A finite value is the rational it denotes (the sign of a zero, which no
  operation of the code distinguishes, is dropped). Also \<open>std::lround\<close> and
  \<open>std::stod\<close>.
\<close>

section \<open>Values and rounding\<close>

datatype double = Fin rat | PInf | NInf | NaN

text \<open>\<open>floor (log2 q)\<close> of a positive rational, by the lengths of numerator and denominator.\<close>

definition flog2 :: "rat \<Rightarrow> int" where
  "flog2 q =
     (case quotient_of q of (n, d) \<Rightarrow>
        let k = bitlen n - bitlen d in if 2 powi k \<le> q then k else k - 1)"

text \<open>Nearest integer, ties to even.\<close>

definition rne :: "rat \<Rightarrow> int" where
  "rne q =
     (let f = \<lfloor>q\<rfloor>; r = q - of_int f
      in if r < 1 / 2 then f else if 1 / 2 < r then f + 1 else if even f then f else f + 1)"

text \<open>Exponent of the last bit of the result: 53 bits, but not below \<open>2^-1074\<close>.\<close>

definition quantum :: "rat \<Rightarrow> int" where
  "quantum q = max (flog2 q - 52) (- 1074)"

definition round_pos :: "rat \<Rightarrow> rat" where
  "round_pos q = of_int (rne (q / 2 powi quantum q)) * 2 powi quantum q"

definition rnd :: "rat \<Rightarrow> double" where
  "rnd q =
     (if q = 0 then Fin 0
      else
        let v = round_pos \<bar>q\<bar>
        in if 2 ^ 1024 \<le> v then (if q < 0 then NInf else PInf)
           else Fin (if q < 0 then - v else v))"

section \<open>Operations\<close>

fun dneg :: "double \<Rightarrow> double" where
  "dneg (Fin x) = Fin (- x)"
| "dneg PInf = NInf"
| "dneg NInf = PInf"
| "dneg NaN = NaN"

fun dadd :: "double \<Rightarrow> double \<Rightarrow> double" where
  "dadd (Fin x) (Fin y) = rnd (x + y)"
| "dadd NaN _ = NaN"
| "dadd _ NaN = NaN"
| "dadd PInf NInf = NaN"
| "dadd NInf PInf = NaN"
| "dadd PInf _ = PInf"
| "dadd _ PInf = PInf"
| "dadd NInf _ = NInf"
| "dadd _ NInf = NInf"

definition dsub :: "double \<Rightarrow> double \<Rightarrow> double" where
  "dsub a b = dadd a (dneg b)"

definition dinf :: "bool \<Rightarrow> double" where
  "dinf neg = (if neg then NInf else PInf)"

fun dmul :: "double \<Rightarrow> double \<Rightarrow> double" where
  "dmul (Fin x) (Fin y) = rnd (x * y)"
| "dmul NaN _ = NaN"
| "dmul _ NaN = NaN"
| "dmul PInf (Fin y) = (if y = 0 then NaN else dinf (y < 0))"
| "dmul NInf (Fin y) = (if y = 0 then NaN else dinf (0 < y))"
| "dmul (Fin x) PInf = (if x = 0 then NaN else dinf (x < 0))"
| "dmul (Fin x) NInf = (if x = 0 then NaN else dinf (0 < x))"
| "dmul PInf NInf = NInf"
| "dmul NInf PInf = NInf"
| "dmul PInf PInf = PInf"
| "dmul NInf NInf = PInf"

text \<open>\<open>a < b\<close>, false when either is a NaN.\<close>

fun dlt :: "double \<Rightarrow> double \<Rightarrow> bool" where
  "dlt (Fin x) (Fin y) = (x < y)"
| "dlt NInf (Fin _) = True"
| "dlt NInf PInf = True"
| "dlt (Fin _) PInf = True"
| "dlt _ _ = False"

definition dle :: "double \<Rightarrow> double \<Rightarrow> bool" where
  "dle a b = (dlt a b \<or> (a = b \<and> a \<noteq> NaN))"

text \<open>The operators, so that arithmetic is written as the code writes it.\<close>

instantiation double :: "{ord, plus, minus, times, uminus}"
begin

definition double_uminus: "- a = dneg a" for a :: double

definition double_plus: "a + b = dadd a b" for a b :: double

definition double_minus: "a - b = dsub a b" for a b :: double

definition double_times: "a * b = dmul a b" for a b :: double

definition double_less: "a < b \<longleftrightarrow> dlt a b" for a b :: double

definition double_less_eq: "a \<le> b \<longleftrightarrow> dle a b" for a b :: double

instance ..

end

lemmas double_ops [simp] = double_uminus double_plus double_minus double_times double_less double_less_eq

text \<open>\<open>static_cast<double>\<close> of an \<open>int\<close>, exact.\<close>

definition of_cint :: "int \<Rightarrow> double" where
  "of_cint n = Fin (of_int n)"

text \<open>\<open>std::pow(2.0, n)\<close>, exact until it overflows.\<close>

definition pow2d :: "int \<Rightarrow> double" where
  "pow2d n = rnd (2 powi n)"

text \<open>\<open>std::min(a, b)\<close> and \<open>std::clamp(v, lo, hi)\<close>, the comparisons as specified.\<close>

definition dmin :: "double \<Rightarrow> double \<Rightarrow> double" where
  "dmin a b = (if dlt b a then b else a)"

definition dclamp :: "double \<Rightarrow> double \<Rightarrow> double \<Rightarrow> double result" where
  "dclamp v lo hi =
     (if dlt hi lo then Inl (Undefined_behaviour ''std::clamp'')
      else Inr (if dlt v lo then lo else if dlt hi v then hi else v))"

text \<open>
  \<open>static_cast<int>(std::lround(x))\<close>: halves away from zero. Outside the range of
  \<open>long\<close>, and for a NaN, the result is unspecified; a \<open>long\<close> outside the range of
  \<open>int\<close> is reduced.
\<close>

definition lround_int :: "double \<Rightarrow> int result" where
  "lround_int x =
     (case x of
        Fin q \<Rightarrow>
          let n = (if q < 0 then - \<lfloor>1 / 2 - q\<rfloor> else \<lfloor>q + 1 / 2\<rfloor>)
          in if - (2 ^ 63) \<le> n \<and> n < 2 ^ 63 then Inr ((n + 2 ^ 31) mod 2 ^ 32 - 2 ^ 31)
             else Inl (Undefined_behaviour ''std::lround'')
      | _ \<Rightarrow> Inl (Undefined_behaviour ''std::lround''))"

section \<open>\<open>std::stod\<close>\<close>

definition read_exponent :: "char list \<Rightarrow> string \<Rightarrow> int" where
  "read_exponent marks s =
     (case s of
        [] \<Rightarrow> 0
      | c # cs \<Rightarrow>
          if c \<in> set marks then
            case split_sign cs of (neg, rest) \<Rightarrow>
              let ds = takeWhile (is_digit_in 10) rest
              in if ds = [] then 0 else signed_of (neg, digits_value 10 ds)
          else 0)"

text \<open>Digits with an optional point, then an optional exponent.\<close>

definition read_number :: "nat \<Rightarrow> nat \<Rightarrow> char list \<Rightarrow> string \<Rightarrow> rat option" where
  "read_number base radix marks s =
     (let whole = takeWhile (is_digit_in base) s;
          rest = dropWhile (is_digit_in base) s;
          (frac, rest) =
            (case rest of
               c # cs \<Rightarrow>
                 if c = CHR ''.'' then (takeWhile (is_digit_in base) cs, dropWhile (is_digit_in base) cs)
                 else ([], rest)
             | [] \<Rightarrow> ([], []))
      in if whole = [] \<and> frac = [] then None
         else Some (of_nat (digits_value base (whole @ frac)) / of_nat base ^ length frac *
                    of_nat radix powi read_exponent marks rest))"

definition is_hex_float :: "string \<Rightarrow> bool" where
  "is_hex_float s =
     (starts_with ''0x'' (to_lower s) \<and> read_number 16 2 ''pP'' (drop 2 s) \<noteq> None)"

definition stod :: "string \<Rightarrow> double result" where
  "stod s =
     (case split_sign (dropWhile is_space s) of (neg, rest) \<Rightarrow>
        if starts_with ''inf'' (to_lower rest) then Inr (dinf neg)
        else if starts_with ''nan'' (to_lower rest) then Inr NaN
        else
          case (if is_hex_float rest then read_number 16 2 ''pP'' (drop 2 rest)
                else read_number 10 10 ''eE'' rest) of
            None \<Rightarrow> Inl (Invalid_argument ''stod'')
          | Some q \<Rightarrow>
              (case rnd (if neg then - q else q) of
                 Fin v \<Rightarrow>
                   if \<bar>v\<bar> < 2 powi (- 1022) \<and> v \<noteq> (if neg then - q else q) then
                     Inl (Out_of_range ''stod'')
                   else Inr (Fin v)
               | _ \<Rightarrow> Inl (Out_of_range ''stod'')))"

lemma stod_catchable: "stod s = Inl e \<Longrightarrow> catchable e"
  by (auto simp: stod_def split: prod.splits if_splits option.splits double.splits)

section \<open>Facts about rounding\<close>

lemma two_powi_pos [simp]: "0 < (2 :: rat) powi k"
  by simp

lemma bitlen_powi: "0 < n \<Longrightarrow> (2 :: rat) powi (bitlen n - 1) \<le> of_int n \<and> of_int n < (2 :: rat) powi bitlen n"
proof -
  assume n: "0 < n"
  then have b: "0 < bitlen n" using bitlen_nonneg [of n] bitlen_eq_zero_iff [of n] by linarith
  have "2 ^ nat (bitlen n - 1) \<le> n" "n < 2 ^ nat (bitlen n)" using bitlen_bounds [OF n] by auto
  then have "(of_int (2 ^ nat (bitlen n - 1)) :: rat) \<le> of_int n" "of_int n < (of_int (2 ^ nat (bitlen n)) :: rat)"
    by (simp_all only: of_int_le_iff of_int_less_iff)
  then show ?thesis using b by (simp add: power_int_nonneg_exp)
qed

lemma flog2_bounds:
  assumes "0 < q"
  shows "2 powi flog2 q \<le> q" "q < 2 powi (flog2 q + 1)"
proof -
  obtain n d where qd: "quotient_of q = (n, d)" by fastforce
  have d: "0 < d" using quotient_of_denom_pos [OF qd] .
  have q: "q = of_int n / of_int d" using quotient_of_div [OF qd] .
  have n: "0 < n" using assms d by (simp add: q zero_less_divide_iff)
  note nb = bitlen_powi [OF n] and db = bitlen_powi [OF d]
  let ?k = "bitlen n - bitlen d"
  have "q < 2 powi bitlen n / 2 powi (bitlen d - 1)"
    unfolding q using nb db d n by (intro frac_less) simp_all
  then have up: "q < 2 powi (?k + 1)" by (simp add: power_int_diff power_int_add)
  have "2 powi (bitlen n - 1) / 2 powi bitlen d \<le> q"
    unfolding q using nb db d n by (intro frac_le) simp_all
  then have lo: "2 powi (?k - 1) \<le> q" by (simp add: power_int_diff)
  show "2 powi flog2 q \<le> q" "q < 2 powi (flog2 q + 1)"
    using up lo by (auto simp: flog2_def qd Let_def)
qed

lemma powi_less_imp: "(2 :: rat) powi a < 2 powi b \<Longrightarrow> a < b"
  using power_int_increasing [of b a "2 :: rat"] by (cases "a < b") auto

lemma flog2_unique:
  assumes "2 powi k \<le> q" "q < 2 powi (k + 1)"
  shows "flog2 q = k"
proof -
  have q: "0 < q" using assms(1) two_powi_pos [of k] by linarith
  have "(2 :: rat) powi flog2 q < 2 powi (k + 1)" "(2 :: rat) powi k < 2 powi (flog2 q + 1)"
    using flog2_bounds [OF q] assms by linarith+
  then have "flog2 q < k + 1" "k < flog2 q + 1" by (simp_all only: powi_less_imp)
  then show ?thesis by linarith
qed

lemma flog2_less:
  assumes "0 < q" "q < 2 powi k"
  shows "flog2 q < k"
  using flog2_bounds(1) [OF assms(1)] assms(2) by (intro powi_less_imp) linarith

lemma rne_of_int [simp]: "rne (of_int k) = k"
  by (simp add: rne_def)

lemma rne_near: "\<bar>q - of_int (rne q)\<bar> \<le> 1 / 2"
  using floor_correct [of q] unfolding rne_def Let_def by (auto simp: abs_le_iff)

lemma rne_close: "\<bar>q - of_int k\<bar> < 1 / 2 \<Longrightarrow> rne q = k"
  using rne_near [of q] by linarith

lemma rne_mono: "p \<le> q \<Longrightarrow> rne p \<le> rne q"
proof -
  assume pq: "p \<le> q"
  show ?thesis
  proof (cases "\<lfloor>p\<rfloor> = \<lfloor>q\<rfloor>")
    case True
    then show ?thesis using pq by (auto simp: rne_def Let_def)
  next
    case False
    then have "\<lfloor>p\<rfloor> + 1 \<le> \<lfloor>q\<rfloor>" using floor_mono [OF pq] by linarith
    moreover have "rne p \<le> \<lfloor>p\<rfloor> + 1" "\<lfloor>q\<rfloor> \<le> rne q" by (simp_all add: rne_def Let_def)
    ultimately show ?thesis by linarith
  qed
qed

text \<open>Rounding is exact on 53-bit multiples of a power of two, and off by half a quantum at most.\<close>

lemma round_pos_exact:
  assumes "0 < m" "m \<le> 2 ^ 53" "- 1074 \<le> e"
  shows "round_pos (of_int m * 2 powi e) = of_int m * 2 powi e"
proof -
  let ?q = "of_int m * 2 powi e :: rat"
  let ?u = "quantum ?q"
  have q: "0 < ?q" using assms(1) by simp
  have "?u \<le> e \<or> m = 2 ^ 53"
  proof (rule disjCI)
    assume "m \<noteq> 2 ^ 53"
    then have "(of_int m :: rat) < of_int (2 ^ 53)" using assms(2) by (simp only: of_int_less_iff)
    then have "?q < 2 powi (53 + e)" by (simp add: power_int_add)
    from flog2_less [OF q this] show "?u \<le> e" using assms(3) by (simp add: quantum_def)
  qed
  moreover have "?u \<le> e + 1"
  proof -
    have "(of_int m :: rat) \<le> of_int (2 ^ 53)" using assms(2) by (simp only: of_int_le_iff)
    then have "?q < 2 powi (54 + e)" by (simp add: power_int_add less_le_trans [rotated])
    from flog2_less [OF q this] show ?thesis using assms(3) by (simp add: quantum_def)
  qed
  ultimately obtain k where k: "?q = of_int k * 2 powi ?u"
  proof (elim disjE)
    assume "?u \<le> e"
    then have "(2 :: rat) powi e = of_int (2 ^ nat (e - ?u)) * 2 powi ?u"
      by (simp add: power_int_nonneg_exp [symmetric] power_int_diff)
    then have "?q = of_int (m * 2 ^ nat (e - ?u)) * 2 powi ?u"
      unfolding of_int_mult by (simp only: mult.assoc)
    then show thesis by (rule that)
  next
    assume m: "m = 2 ^ 53" and u: "?u \<le> e + 1"
    then have "(2 :: rat) powi (e + 1) = of_int (2 ^ nat (e + 1 - ?u)) * 2 powi ?u"
      by (simp add: power_int_nonneg_exp [symmetric] power_int_diff)
    moreover have "?q = of_int (2 ^ 52) * 2 powi (e + 1)" by (simp add: m power_int_add)
    ultimately have "?q = of_int (2 ^ 52 * 2 ^ nat (e + 1 - ?u)) * 2 powi ?u"
      unfolding of_int_mult by (simp only: mult.assoc)
    then show thesis by (rule that)
  qed
  have nz: "(2 :: rat) powi ?u \<noteq> 0" by simp
  have "?q / 2 powi ?u = of_int k" by (rule nonzero_divide_eq_eq [OF nz, THEN iffD2, OF k])
  then have "round_pos ?q = of_int k * 2 powi ?u" by (simp only: round_pos_def rne_of_int)
  then show ?thesis using k by simp
qed

lemma round_pos_error: "\<bar>round_pos q - q\<bar> \<le> 2 powi (quantum q - 1)"
proof -
  let ?u = "(2 :: rat) powi quantum q"
  have u: "0 < ?u" by simp
  have "round_pos q - q = (of_int (rne (q / ?u)) - q / ?u) * ?u"
    by (simp add: round_pos_def left_diff_distrib)
  then have "\<bar>round_pos q - q\<bar> = \<bar>of_int (rne (q / ?u)) - q / ?u\<bar> * ?u"
    using u by (simp only: abs_mult abs_of_pos)
  also have "\<dots> \<le> 1 / 2 * ?u"
    using rne_near [of "q / ?u"] u by (intro mult_right_mono) (simp_all add: abs_minus_commute)
  finally show ?thesis by (simp add: power_int_diff)
qed

lemma round_pos_nonneg: "0 \<le> q \<Longrightarrow> 0 \<le> round_pos q"
proof -
  assume "0 \<le> q"
  then have "0 \<le> rne (q / 2 powi quantum q)" using rne_mono [of 0 "q / 2 powi quantum q"] by (simp add: rne_def)
  then show ?thesis by (simp add: round_pos_def)
qed

text \<open>In the unit interval the error is at most \<open>2^-54\<close>; that close to 1, the result is 1.\<close>

lemma round_unit_error: "0 < q \<Longrightarrow> q < 1 \<Longrightarrow> \<bar>round_pos q - q\<bar> \<le> 2 powi (- 54)"
proof -
  assume q: "0 < q" "q < 1"
  then have "quantum q - 1 \<le> - 54" using flog2_less [of q 0] by (simp add: quantum_def)
  then have "(2 :: rat) powi (quantum q - 1) \<le> 2 powi (- 54)" by (intro power_int_increasing) simp_all
  then show ?thesis using round_pos_error [of q] by linarith
qed

lemma rnd_near_one:
  assumes "\<bar>q - 1\<bar> \<le> 2 powi (- 54)"
  shows "rnd q = Fin 1"
proof -
  have e: "(2 :: rat) powi (- 54) = 1 / 18014398509481984" by (simp add: power_int_minus)
  have b: "1 - 1 / 18014398509481984 \<le> q" "q \<le> 1 + 1 / 18014398509481984"
    using abs_le_D1 [OF assms] abs_le_D2 [OF assms] unfolding e by linarith+
  have "round_pos q = 1"
  proof (cases "q < 1")
    case True
    have "flog2 q = - 1" using b True by (intro flog2_unique) (simp_all add: power_int_def)
    then have u: "quantum q = - 53" by (simp add: quantum_def)
    have p: "(2 :: rat) powi (- 53) = 1 / 9007199254740992" by (simp add: power_int_minus)
    have "rne (q * 9007199254740992) = 9007199254740992"
    proof (cases "q = 1 - 1 / 18014398509481984")
      case True
      then have x: "q * 9007199254740992 = 9007199254740991 + 1 / 2" by simp
      then have f: "\<lfloor>q * 9007199254740992\<rfloor> = 9007199254740991" by (intro floor_unique) linarith+
      show ?thesis unfolding rne_def Let_def f by (simp add: x)
    next
      case False
      then show ?thesis using b \<open>q < 1\<close> by (intro rne_close) (simp add: abs_less_iff)
    qed
    then show ?thesis by (simp add: round_pos_def u p)
  next
    case False
    have "flog2 q = 0" using b False by (intro flog2_unique) simp_all
    then have u: "quantum q = - 52" by (simp add: quantum_def)
    have p: "(2 :: rat) powi (- 52) = 1 / 4503599627370496" by (simp add: power_int_minus)
    have "rne (q * 4503599627370496) = 4503599627370496"
      using b False by (intro rne_close) (simp add: abs_less_iff)
    then show ?thesis by (simp add: round_pos_def u p)
  qed
  then show ?thesis using b by (simp add: rnd_def)
qed

end
