(* ===== verification/Secrets.thy ===== *)
theory Secrets
  imports Cpp_String
begin

text \<open>
  Secret and TLS material lookup of \<open>src/KserveProtocol.cpp\<close>. The environment and the file
  system are functions: \<open>env name\<close> is what \<open>std::getenv\<close> returns (\<open>None\<close> is
  \<open>nullptr\<close>), \<open>files path\<close> the contents of a file that opens.
\<close>

section \<open>The code\<close>

type_synonym env = "string \<Rightarrow> string option"
type_synonym files = "string \<Rightarrow> string option"

definition blank :: "char \<Rightarrow> bool" where
  "blank c = (c = CHR '' '' \<or> c = CHR 0x09 \<or> c = CHR 0x0D \<or> c = CHR 0x0A)"

text \<open>The loop over \<open>end\<close>.\<close>

fun trim_end :: "string \<Rightarrow> nat \<Rightarrow> nat" where
  "trim_end v 0 = 0"
| "trim_end v (Suc n) = (if blank (v ! n) then trim_end v n else Suc n)"

definition trimTrailingWhitespace :: "string \<Rightarrow> string" where
  "trimTrailingWhitespace v = take (trim_end v (length v)) v"

definition resolveSecret :: "string option \<Rightarrow> string option \<Rightarrow> string" where
  "resolveSecret env_value file_contents =
     (case env_value of
        Some v \<Rightarrow>
          if v \<noteq> [] then v
          else (case file_contents of Some f \<Rightarrow> trimTrailingWhitespace f | None \<Rightarrow> [])
      | None \<Rightarrow> (case file_contents of Some f \<Rightarrow> trimTrailingWhitespace f | None \<Rightarrow> []))"

definition requireClientCertPair :: "string \<Rightarrow> string \<Rightarrow> bool result" where
  "requireClientCertPair client_cert client_key =
     (let has_cert = client_cert \<noteq> []; has_key = client_key \<noteq> []
      in if has_cert \<noteq> has_key then
           Inl (Runtime_error (''KServe mTLS requires both KSERVE_CLIENT_CERT and KSERVE_CLIENT_KEY ''
             @ ''(only one was provided)''))
         else Inr (has_cert \<and> has_key))"

definition readFileToString :: "files \<Rightarrow> string \<Rightarrow> string result" where
  "readFileToString files path =
     (case files path of
        None \<Rightarrow> Inl (Runtime_error (''failed to open file: '' @ path))
      | Some contents \<Rightarrow> Inr contents)"

definition readSecretFromEnvOrFile :: "env \<Rightarrow> files \<Rightarrow> string \<Rightarrow> string \<Rightarrow> string result" where
  "readSecretFromEnvOrFile env files env_var file_env_var =
     (let env_ptr = env env_var
      in if env_ptr = None \<or> env_ptr = Some [] then
           case env file_env_var of
             None \<Rightarrow> Inr (resolveSecret env_ptr None)
           | Some file_path \<Rightarrow>
               if file_path = [] then Inr (resolveSecret env_ptr None)
               else bindR (readFileToString files file_path) (\<lambda>file_str.
                 Inr (resolveSecret env_ptr (Some file_str)))
         else Inr (resolveSecret env_ptr None))"

definition readFileFromEnvPath :: "env \<Rightarrow> files \<Rightarrow> string \<Rightarrow> string result" where
  "readFileFromEnvPath env files env_var =
     (case env env_var of
        None \<Rightarrow> Inr []
      | Some path \<Rightarrow> if path = [] then Inr [] else readFileToString files path)"

section \<open>Properties\<close>

lemma trim_end_bound: "trim_end v n \<le> n"
  by (induction n) auto

lemma trim_end_blank: "trim_end v n \<le> i \<Longrightarrow> i < n \<Longrightarrow> blank (v ! i)"
  by (induction n) (auto simp: less_Suc_eq split: if_splits)

lemma trim_end_stop: "trim_end v n = 0 \<or> \<not> blank (v ! (trim_end v n - 1))"
  by (induction n) auto

lemma trimTrailingWhitespace_split:
  "\<exists>ws. v = trimTrailingWhitespace v @ ws \<and> list_all blank ws"
proof (intro exI conjI)
  show "v = trimTrailingWhitespace v @ drop (trim_end v (length v)) v"
    by (simp add: trimTrailingWhitespace_def)
  show "list_all blank (drop (trim_end v (length v)) v)"
    using trim_end_blank [of v "length v"] by (auto simp: list_all_length)
qed

lemma trimTrailingWhitespace_last: "trimTrailingWhitespace v = [] \<or> \<not> blank (last (trimTrailingWhitespace v))"
  using trim_end_stop [of v "length v"] trim_end_bound [of v "length v"]
  by (auto simp: trimTrailingWhitespace_def last_conv_nth min_absorb2)

lemma trim_end_append: "i = length s \<Longrightarrow> s = [] \<or> \<not> blank (last s) \<Longrightarrow> trim_end (s @ t) i = i"
proof (cases i)
  case (Suc n)
  assume "i = length s" "s = [] \<or> \<not> blank (last s)"
  moreover from this Suc have "s \<noteq> []" "n = length s - 1" "n < length s" by auto
  ultimately have "\<not> blank ((s @ t) ! n)" by (simp add: nth_append last_conv_nth)
  then show ?thesis by (simp add: Suc)
qed simp

lemma trimTrailingWhitespace_append:
  assumes "list_all blank ws" "s = [] \<or> \<not> blank (last s)"
  shows "trimTrailingWhitespace (s @ ws) = s"
proof -
  have "trim_end (s @ ws) (length s + n) = length s" if "n \<le> length ws" for n
    using that assms by (induction n) (auto simp: trim_end_append nth_append list_all_length)
  from this [of "length ws"] show ?thesis by (simp add: trimTrailingWhitespace_def)
qed

text \<open>
  Where a secret comes from. A non-empty variable wins and its file is not opened; otherwise the
  file named by the second variable supplies it without its trailing whitespace; a name that does not
  open is an error, and no name at all an empty secret.
\<close>

lemma readSecretFromEnvOrFile_precedence:
  "readSecretFromEnvOrFile env files var file_var =
     (case env var of
        Some (c # v) \<Rightarrow> Inr (c # v)
      | _ \<Rightarrow>
          (case env file_var of
             Some (p # path) \<Rightarrow>
               (case files (p # path) of
                  Some contents \<Rightarrow> Inr (trimTrailingWhitespace contents)
                | None \<Rightarrow> Inl (Runtime_error (''failed to open file: '' @ p # path)))
           | _ \<Rightarrow> Inr []))"
  by (auto simp: readSecretFromEnvOrFile_def resolveSecret_def readFileToString_def Let_def
      split: option.splits list.splits)

text \<open>
  A token file written with trailing line ends or blanks gives exactly the token, and trimming
  never removes anything else.
\<close>

lemma trimTrailingWhitespace_spec:
  "trimTrailingWhitespace v = s \<longleftrightarrow>
     (\<exists>ws. v = s @ ws \<and> list_all blank ws) \<and> (if s = [] then True else blank (last s) = False)"
  using trimTrailingWhitespace_split [of v] trimTrailingWhitespace_last [of v]
    trimTrailingWhitespace_append [where s = s] by (cases "s = []") auto

end
