(* ===== verification/Retry.thy ===== *)
theory Retry
  imports Cpp_Double Secrets
begin

text \<open>
  The retry policy of \<open>src/KserveRetry.cpp\<close> and the loop \<open>runWithRetry\<close> of
  \<open>include/KserveRetry.hpp\<close>. The loop is written over a state \<open>'w\<close> of the
  outside world that the attempt, the sleep and the random source change in turn; an attempt that
  does not return is \<open>None\<close>. The locale \<open>retry_invariant\<close> is the contract between
  the loop and an attempt.
\<close>

section \<open>The policy\<close>

record RetryPolicy =
  rp_max_attempts :: int
  rp_base_delay_ms :: int
  rp_max_delay_ms :: int
  rp_jitter :: double

definition default_policy :: RetryPolicy where
  "default_policy =
     \<lparr>rp_max_attempts = 3, rp_base_delay_ms = 100, rp_max_delay_ms = 2000, rp_jitter = rnd (1 / 5)\<rparr>"

definition envInt :: "env \<Rightarrow> string \<Rightarrow> int \<Rightarrow> int result" where
  "envInt env name fallback =
     (case env name of
        None \<Rightarrow> Inr fallback
      | Some raw \<Rightarrow>
          catchR (bindR (stoi raw) (\<lambda>value. Inr (if 0 < value then value else fallback))) (Inr fallback))"

definition envFraction :: "env \<Rightarrow> string \<Rightarrow> double \<Rightarrow> double result" where
  "envFraction env name fallback =
     (case env name of
        None \<Rightarrow> Inr fallback
      | Some raw \<Rightarrow>
          catchR (bindR (stod raw) (\<lambda>value.
                    if Fin 0 \<le> value \<and> value \<le> Fin 1 then Inr value else Inr fallback))
                 (Inr fallback))"

text \<open>\<open>retries + 1\<close> overflows an \<open>int\<close> at its maximum.\<close>

definition add_int :: "int \<Rightarrow> int \<Rightarrow> int result" where
  "add_int a b =
     (if - (2 ^ 31) \<le> a + b \<and> a + b < 2 ^ 31 then Inr (a + b) else Inl (Undefined_behaviour ''int overflow''))"

definition envAttempts :: "env \<Rightarrow> int \<Rightarrow> int result" where
  "envAttempts env fallback =
     (case env ''KSERVE_MAX_RETRIES'' of
        None \<Rightarrow> Inr fallback
      | Some raw \<Rightarrow>
          catchR (bindR (stoi raw) (\<lambda>retries. if 0 \<le> retries then add_int retries 1 else Inr fallback))
                 (Inr fallback))"

definition retryPolicyFromEnv :: "env \<Rightarrow> RetryPolicy result" where
  "retryPolicyFromEnv env =
     (let policy = default_policy
      in bindR (envAttempts env (rp_max_attempts policy)) (\<lambda>a.
         bindR (envInt env ''KSERVE_RETRY_BASE_MS'' (rp_base_delay_ms policy)) (\<lambda>b.
         bindR (envInt env ''KSERVE_RETRY_MAX_MS'' (rp_max_delay_ms policy)) (\<lambda>m.
         bindR (envFraction env ''KSERVE_RETRY_JITTER'' (rp_jitter policy)) (\<lambda>j.
           Inr \<lparr>rp_max_attempts = a, rp_base_delay_ms = b, rp_max_delay_ms = m, rp_jitter = j\<rparr>)))))"

section \<open>Backoff\<close>

definition backoffDelayMs :: "RetryPolicy \<Rightarrow> int \<Rightarrow> double \<Rightarrow> int result" where
  "backoffDelayMs policy attempt rand_unit =
     (if attempt < 1 then Inr 0
      else
        let max_delay = of_cint (rp_max_delay_ms policy);
            exp_delay = of_cint (rp_base_delay_ms policy) * pow2d (attempt - 1);
            exp_delay = dmin exp_delay max_delay
        in bindR (dclamp rand_unit (Fin 0) (Fin 1)) (\<lambda>clamped_unit.
             let factor = Fin 1 - rp_jitter policy + clamped_unit * Fin 2 * rp_jitter policy;
                 jittered = exp_delay * factor
             in bindR (dclamp jittered (Fin 0) max_delay) lround_int))"

definition isRetryableHttpStatus :: "int \<Rightarrow> bool" where
  "isRetryableHttpStatus status = (status = 429 \<or> status = 502 \<or> status = 503 \<or> status = 504)"

definition isRetryableGrpcStatus :: "int \<Rightarrow> bool" where
  "isRetryableGrpcStatus code = (code = 4 \<or> code = 8 \<or> code = 14)"

section \<open>The loop\<close>

text \<open>Whether an outcome ends the loop although attempts remain.\<close>

definition is_final :: "('a \<Rightarrow> bool) \<Rightarrow> 'a result \<Rightarrow> bool" where
  "is_final is_retryable r = (case r of Inr x \<Rightarrow> \<not> is_retryable x | Inl e \<Rightarrow> \<not> catchable e)"

function retry_loop ::
    "RetryPolicy \<Rightarrow> int \<Rightarrow> ('w \<Rightarrow> ('a result \<times> 'w) option) \<Rightarrow> ('a \<Rightarrow> bool) \<Rightarrow> (int \<Rightarrow> 'w \<Rightarrow> 'w) \<Rightarrow>
     ('w \<Rightarrow> double \<times> 'w) \<Rightarrow> int \<Rightarrow> 'w \<Rightarrow> ('a result \<times> 'w) option" where
  "retry_loop policy attempts attempt is_retryable sleeper rng i w =
     (case attempt w of
        None \<Rightarrow> None
      | Some (r, w1) \<Rightarrow>
          if attempts \<le> i \<or> is_final is_retryable r then Some (r, w1)
          else
            case rng w1 of (u, w2) \<Rightarrow>
              (case backoffDelayMs policy i u of
                 Inl e \<Rightarrow> Some (Inl e, w2)
               | Inr ms \<Rightarrow>
                   retry_loop policy attempts attempt is_retryable sleeper rng (i + 1) (sleeper ms w2)))"
  by pat_completeness auto
termination
  by (relation "measure (\<lambda>(p, n, a, q, s, g, i, w). nat (n - i))") auto

declare retry_loop.simps [simp del]

definition runWithRetry ::
    "RetryPolicy \<Rightarrow> ('w \<Rightarrow> ('a result \<times> 'w) option) \<Rightarrow> ('a \<Rightarrow> bool) \<Rightarrow> (int \<Rightarrow> 'w \<Rightarrow> 'w) \<Rightarrow>
     ('w \<Rightarrow> double \<times> 'w) \<Rightarrow> 'w \<Rightarrow> ('a result \<times> 'w) option" where
  "runWithRetry policy attempt is_retryable sleeper rng w =
     (let attempts = if 0 < rp_max_attempts policy then rp_max_attempts policy else 1
      in retry_loop policy attempts attempt is_retryable sleeper rng 1 w)"

section \<open>Policies from the environment\<close>

definition valid_policy :: "RetryPolicy \<Rightarrow> bool" where
  "valid_policy p =
     (1 \<le> rp_max_attempts p \<and> rp_max_attempts p < 2 ^ 31 \<and>
      0 < rp_base_delay_ms p \<and> rp_base_delay_ms p < 2 ^ 31 \<and>
      0 < rp_max_delay_ms p \<and> rp_max_delay_ms p < 2 ^ 31 \<and>
      (case rp_jitter p of Fin j \<Rightarrow> 0 \<le> j \<and> j \<le> 1 \<and> rnd j = Fin j | _ \<Rightarrow> False))"

lemma rnd_idem:
  assumes "rnd q = Fin v"
  shows "rnd v = Fin v"
proof (cases "q = 0")
  case True
  then show ?thesis using assms by (auto simp: rnd_def)
next
  case False
  define r where "r = round_pos \<bar>q\<bar>"
  define k where "k = rne (\<bar>q\<bar> / 2 powi quantum \<bar>q\<bar>)"
  have q: "0 < \<bar>q\<bar>" using False by simp
  have v: "\<bar>v\<bar> = r" "r < 2 ^ 1024" "v = (if q < 0 then - r else r)"
    using assms False round_pos_nonneg [of "\<bar>q\<bar>"]
    by (auto simp: rnd_def r_def Let_def split: if_splits)
  have rk: "r = of_int k * 2 powi quantum \<bar>q\<bar>" by (simp add: r_def k_def round_pos_def)
  show ?thesis
  proof (cases "k = 0")
    case True
    then show ?thesis using rk v by (simp add: rnd_def)
  next
    case False
    have "0 \<le> k" unfolding k_def using rne_mono [of 0 "\<bar>q\<bar> / 2 powi quantum \<bar>q\<bar>"] by (simp add: rne_def)
    have "flog2 \<bar>q\<bar> + 1 \<le> quantum \<bar>q\<bar> + 53" by (simp add: quantum_def)
    then have "(2 :: rat) powi (flog2 \<bar>q\<bar> + 1) \<le> 2 powi (quantum \<bar>q\<bar> + 53)" by (intro power_int_increasing) simp_all
    then have "\<bar>q\<bar> \<le> 2 powi quantum \<bar>q\<bar> * of_int (2 ^ 53)"
      using flog2_bounds(2) [OF q] by (simp add: power_int_add)
    then have "\<bar>q\<bar> / 2 powi quantum \<bar>q\<bar> \<le> of_int (2 ^ 53)"
      by (simp add: pos_divide_le_eq mult.commute)
    then have "k \<le> 2 ^ 53" unfolding k_def using rne_mono by (metis rne_of_int)
    then have "round_pos r = r"
      unfolding rk using \<open>0 \<le> k\<close> False by (intro round_pos_exact) (simp_all add: quantum_def)
    moreover have "0 < r" unfolding rk using \<open>0 \<le> k\<close> False by simp
    ultimately show ?thesis using v by (auto simp: rnd_def)
  qed
qed

lemma envInt_valid: "envInt env name d = Inr n \<Longrightarrow> 0 < d \<Longrightarrow> d < 2 ^ 31 \<Longrightarrow> 0 < n \<and> n < 2 ^ 31"
  using stoi_range
  by (auto simp: envInt_def catchR_def bindR_def split: option.splits sum.splits if_splits)

lemma envInt_ok: "\<exists>n. envInt env name d = Inr n"
  by (auto simp: envInt_def catchR_def bindR_def dest: stoi_catchable split: option.splits sum.splits)

lemma envFraction_ok: "\<exists>x. envFraction env name d = Inr x"
  by (auto simp: envFraction_def catchR_def bindR_def dest: stod_catchable split: option.splits sum.splits)

lemma stod_rounded: "stod s = Inr (Fin v) \<Longrightarrow> rnd v = Fin v"
  by (auto simp: stod_def dinf_def split: prod.splits if_splits option.splits double.splits intro: rnd_idem)

lemma envFraction_valid:
  assumes "envFraction env name d = Inr x"
  shows "x = d \<or> (\<exists>j. x = Fin j \<and> 0 \<le> j \<and> j \<le> 1 \<and> rnd j = Fin j)"
proof (cases "env name")
  case None
  then show ?thesis using assms by (simp add: envFraction_def)
next
  case (Some raw)
  show ?thesis
  proof (cases "stod raw")
    case (Inl e)
    then show ?thesis using assms Some stod_catchable [OF Inl] by (simp add: envFraction_def)
  next
    case (Inr y)
    show ?thesis
    proof (cases y)
      case (Fin v)
      then have "rnd v = Fin v" using Inr stod_rounded by simp
      moreover have "x = d \<or> x = Fin v \<and> 0 \<le> v \<and> v \<le> 1"
        using assms Some Inr Fin by (auto simp: envFraction_def dle_def split: if_splits)
      ultimately show ?thesis by blast
    qed (use assms Some Inr in \<open>simp_all add: envFraction_def dle_def\<close>)
  qed
qed

lemma default_jitter: "rnd (1 / 5) = Fin (3602879701896397 / 18014398509481984)"
proof -
  have "flog2 (1 / 5) = - 3" by (rule flog2_unique) (simp_all add: power_int_minus)
  then have u: "quantum (1 / 5) = - 55" by (simp add: quantum_def)
  have p: "(2 :: rat) powi (- 55) = 1 / 36028797018963968" by (simp add: power_int_minus)
  have "rne (1 / 5 * 36028797018963968) = 7205759403792794" by (rule rne_close) (simp add: abs_if)
  then have "round_pos (1 / 5) = 3602879701896397 / 18014398509481984" by (simp add: round_pos_def u p)
  then show ?thesis by (simp add: rnd_def)
qed

lemma envAttempts_cases:
  "envAttempts env d =
     (case env ''KSERVE_MAX_RETRIES'' of
        None \<Rightarrow> Inr d
      | Some raw \<Rightarrow>
          (case stoi raw of
             Inl _ \<Rightarrow> Inr d
           | Inr n \<Rightarrow> if n < 0 then Inr d
                     else if n = 2 ^ 31 - 1 then Inl (Undefined_behaviour ''int overflow'')
                     else Inr (n + 1)))"
  using stoi_range stoi_catchable
  by (auto simp: envAttempts_def catchR_def bindR_def add_int_def split: option.splits sum.splits if_splits)
    force+

text \<open>
  C38: whatever the environment holds, the policy is valid (at least one attempt, positive delays, a
  jitter in the unit interval), with one exception: the largest \<open>int\<close> as
  \<open>KSERVE_MAX_RETRIES\<close> overflows the signed addition of one.
\<close>

theorem retryPolicyFromEnv_valid:
  "case retryPolicyFromEnv env of
     Inr p \<Rightarrow> valid_policy p
   | Inl e \<Rightarrow> e = Undefined_behaviour ''int overflow'' \<and>
       map_option stoi (env ''KSERVE_MAX_RETRIES'') = Some (Inr (2 ^ 31 - 1))"
proof -
  obtain b m j where bmj: "envInt env ''KSERVE_RETRY_BASE_MS'' 100 = Inr b"
    "envInt env ''KSERVE_RETRY_MAX_MS'' 2000 = Inr m"
    "envFraction env ''KSERVE_RETRY_JITTER'' (rnd (1 / 5)) = Inr j"
    using envInt_ok envFraction_ok by meson
  have r: "retryPolicyFromEnv env = bindR (envAttempts env 3) (\<lambda>a.
      Inr \<lparr>rp_max_attempts = a, rp_base_delay_ms = b, rp_max_delay_ms = m, rp_jitter = j\<rparr>)"
    by (simp add: retryPolicyFromEnv_def default_policy_def Let_def bmj)
  have j: "\<exists>v. j = Fin v \<and> 0 \<le> v \<and> v \<le> 1 \<and> rnd v = Fin v"
    using envFraction_valid [OF bmj(3)] rnd_idem [OF default_jitter] default_jitter by auto
  have bm: "0 < b" "b < 2 ^ 31" "0 < m" "m < 2 ^ 31"
    using envInt_valid [OF bmj(1)] envInt_valid [OF bmj(2)] by simp_all
  show ?thesis
    unfolding r envAttempts_cases using j bm stoi_range
    by (auto simp: valid_policy_def split: option.splits sum.splits) force
qed

section \<open>The delay\<close>

text \<open>Small non-negative values round to finite ones.\<close>

lemma rnd_small:
  assumes "0 \<le> q" "q \<le> 8"
  shows "\<exists>v. rnd q = Fin v \<and> 0 \<le> v \<and> v \<le> q + 1 / 2"
proof (cases "q = 0")
  case True
  then show ?thesis by (simp add: rnd_def)
next
  case False
  then have q: "0 < q" using assms(1) by simp
  have "q < 2 powi 4" using assms(2) by simp
  then have "quantum q - 1 \<le> - 1" using flog2_less [OF q, of 4] by (simp add: quantum_def)
  then have "(2 :: rat) powi (quantum q - 1) \<le> 2 powi (- 1)" by (intro power_int_increasing) simp_all
  then have "\<bar>round_pos q - q\<bar> \<le> 1 / 2" using round_pos_error [of q] by simp
  then have v: "round_pos q \<le> q + 1 / 2" using abs_ge_self [of "round_pos q - q"] by linarith
  moreover have "(9 :: rat) < 2 ^ 1024" by simp
  ultimately have "round_pos q < 2 ^ 1024" using assms(2) by linarith
  then show ?thesis using q \<open>round_pos q \<le> q + 1 / 2\<close> round_pos_nonneg [OF assms(1)] by (simp add: rnd_def)
qed

lemma floor_half [simp]: "\<lfloor>1 / 2 :: rat\<rfloor> = 0"
  by (rule floor_unique) simp_all

lemma rnd_exact: "0 < q \<Longrightarrow> round_pos q = q \<Longrightarrow> rnd q = (if 2 ^ 1024 \<le> q then PInf else Fin q)"
  by (simp add: rnd_def Let_def)

lemma pow2d_value: "0 \<le> n \<Longrightarrow> pow2d n = (if n < 1024 then Fin (2 powi n) else PInf)"
proof -
  assume n: "0 \<le> n"
  have e: "round_pos (2 powi n) = 2 powi n" using round_pos_exact [of 1 n] n by simp
  have "(2 :: rat) ^ 1024 \<le> 2 powi n \<longleftrightarrow> 1024 \<le> n"
    using power_int_increasing [of 1024 n "2 :: rat"] powi_less_imp [of 1024 n]
      power_int_strict_increasing [of n 1024 "2 :: rat"] by (cases "1024 \<le> n") auto
  then show ?thesis unfolding pow2d_def rnd_exact [OF two_powi_pos e] by simp
qed

text \<open>The capped exponential term is the exact one.\<close>

lemma capped_term:
  assumes "0 < b" "b < 2 ^ 31" "0 < m" "m < 2 ^ 31" "0 \<le> n"
  shows "dmin (dmul (of_cint b) (pow2d n)) (of_cint m) = Fin (of_int (min (b * 2 ^ nat n) m))"
proof -
  have big: "m < b * 2 ^ nat n" if "(2 :: rat) ^ 1024 \<le> of_int b * 2 powi n"
  proof -
    have "(of_int (2 ^ 1024) :: rat) \<le> of_int (b * 2 ^ nat n)"
      using that assms(5) by (simp add: power_int_nonneg_exp)
    then have "2 ^ 1024 \<le> b * 2 ^ nat n" by (simp only: of_int_le_iff)
    moreover have "(2 :: int) ^ 31 < 2 ^ 1024" by simp
    ultimately show ?thesis using assms(4) by linarith
  qed
  have ex: "round_pos (of_int b * 2 powi n) = of_int b * 2 powi n"
    using assms by (intro round_pos_exact) simp_all
  have big': "m < b * 2 ^ nat n" if "1024 \<le> n"
  proof (rule big)
    have "(2 :: rat) ^ 1024 \<le> 2 powi n" using power_int_increasing [of 1024 n "2 :: rat"] that by simp
    also have "\<dots> \<le> of_int b * 2 powi n" using assms(1) by simp
    finally show "(2 :: rat) ^ 1024 \<le> of_int b * 2 powi n" .
  qed
  have i: "of_int b * 2 powi n = (of_int (b * 2 ^ nat n) :: rat)" using assms(5) by (simp add: power_int_nonneg_exp)
  have pos: "0 < (of_int b * 2 powi n :: rat)" using assms(1) by simp
  show ?thesis
  proof (cases "1024 \<le> n \<or> (2 :: rat) ^ 1024 \<le> of_int b * 2 powi n")
    case True
    then have "dmul (of_cint b) (pow2d n) = PInf"
      using assms(1,5) rnd_exact [OF pos ex] by (auto simp: of_cint_def pow2d_value dinf_def)
    moreover have "m < b * 2 ^ nat n" using True big big' by blast
    ultimately show ?thesis by (simp add: dmin_def of_cint_def)
  next
    case False
    then have "dmul (of_cint b) (pow2d n) = Fin (of_int (b * 2 ^ nat n))"
      using assms(5) rnd_exact [OF pos ex] unfolding i [symmetric] by (simp add: of_cint_def pow2d_value)
    then show ?thesis by (simp only: dmin_def of_cint_def dlt.simps of_int_less_iff) (simp add: min_def)
  qed
qed

lemma dclamp_Fin: "lo \<le> hi \<Longrightarrow> dclamp (Fin x) (Fin lo) (Fin hi) = Inr (Fin (max lo (min x hi)))"
  by (auto simp: dclamp_def)

lemma lround_int_nonneg:
  assumes "0 \<le> q" "q \<le> of_int m" "m < 2 ^ 31"
  shows "\<exists>n. lround_int (Fin q) = Inr n \<and> 0 \<le> n \<and> n \<le> m"
proof -
  have "\<lfloor>q + 1 / 2\<rfloor> \<le> \<lfloor>of_int m + (1 / 2 :: rat)\<rfloor>" using assms(2) by (intro floor_mono) simp
  moreover have "\<lfloor>of_int m + (1 / 2 :: rat)\<rfloor> = m" by simp
  moreover have "0 \<le> \<lfloor>q + 1 / 2\<rfloor>" using assms(1) by simp
  ultimately show ?thesis using assms by (simp add: lround_int_def)
qed

lemma lround_int_of_int: "0 \<le> n \<Longrightarrow> n < 2 ^ 31 \<Longrightarrow> lround_int (Fin (of_int n)) = Inr n"
  by (simp add: lround_int_def)

definition unit_double :: "double \<Rightarrow> bool" where
  "unit_double u = (case u of Fin q \<Rightarrow> 0 \<le> q \<and> q \<le> 1 | _ \<Rightarrow> False)"

lemma jitter_factor:
  assumes "0 \<le> u" "u \<le> 1" "0 \<le> j" "j \<le> 1"
  shows "\<exists>f. dadd (dsub (Fin 1) (Fin j)) (dmul (dmul (Fin u) (Fin 2)) (Fin j)) = Fin f \<and> 0 \<le> f"
proof -
  obtain a where a: "rnd (1 - j) = Fin a" "0 \<le> a" "a \<le> 3 / 2"
    using rnd_small [of "1 - j"] assms by force
  obtain b where b: "rnd (u * 2) = Fin b" "0 \<le> b" "b \<le> 5 / 2"
    using rnd_small [of "u * 2"] assms by force
  have bj: "0 \<le> b * j" "b * j \<le> 5 / 2" using b assms mult_left_le [of j b] by auto
  then obtain c where c: "rnd (b * j) = Fin c" "0 \<le> c" "c \<le> 3" using rnd_small [of "b * j"] by force
  obtain f where "rnd (a + c) = Fin f" "0 \<le> f" using rnd_small [of "a + c"] a c by force
  then show ?thesis by (simp add: dsub_def a b c)
qed

lemma rnd_pos_class: "0 \<le> q \<Longrightarrow> rnd q = PInf \<or> (\<exists>v. rnd q = Fin v \<and> 0 \<le> v)"
  using round_pos_nonneg [of q] by (auto simp: rnd_def Let_def)

lemma backoff_range:
  assumes "valid_policy p" "unit_double u"
  shows "\<exists>ms. backoffDelayMs p attempt u = Inr ms \<and> 0 \<le> ms \<and> ms \<le> rp_max_delay_ms p"
proof (cases "attempt < 1")
  case True
  then show ?thesis using assms(1) by (simp add: backoffDelayMs_def valid_policy_def)
next
  case False
  let ?m = "rp_max_delay_ms p"
  obtain j where j: "rp_jitter p = Fin j" "0 \<le> j" "j \<le> 1"
    using assms(1) by (auto simp: valid_policy_def split: double.splits)
  obtain q where q: "u = Fin q" "0 \<le> q" "q \<le> 1" using assms(2) by (auto simp: unit_double_def split: double.splits)
  obtain f where f: "dadd (dsub (Fin 1) (Fin j)) (dmul (dmul (Fin q) (Fin 2)) (Fin j)) = Fin f" "0 \<le> f"
    using jitter_factor q j by blast
  have m: "0 < ?m" "?m < 2 ^ 31" using assms(1) by (simp_all add: valid_policy_def)
  obtain x where t: "dmin (dmul (of_cint (rp_base_delay_ms p)) (pow2d (attempt - 1))) (of_cint ?m) = Fin x" "0 \<le> x"
  proof (rule that)
    show "dmin (dmul (of_cint (rp_base_delay_ms p)) (pow2d (attempt - 1))) (of_cint ?m) =
        Fin (of_int (min (rp_base_delay_ms p * 2 ^ nat (attempt - 1)) ?m))"
      using assms(1) False by (intro capped_term) (simp_all add: valid_policy_def)
  qed (use assms(1) in \<open>simp add: valid_policy_def\<close>)
  have c: "dclamp u (Fin 0) (Fin 1) = Inr (Fin q)" using q by (simp add: dclamp_Fin)
  have r: "backoffDelayMs p attempt u = bindR (dclamp (rnd (x * f)) (Fin 0) (Fin (of_int ?m))) lround_int"
    unfolding backoffDelayMs_def Let_def double_ops t(1) c using False f by (simp add: j of_cint_def)
  have "rnd (x * f) = PInf \<or> (\<exists>v. rnd (x * f) = Fin v \<and> 0 \<le> v)" using f t(2) by (intro rnd_pos_class) simp
  then obtain v where "dclamp (rnd (x * f)) (Fin 0) (Fin (of_int ?m)) = Inr (Fin v)" "0 \<le> v" "v \<le> of_int ?m"
  proof (elim disjE exE conjE)
    assume "rnd (x * f) = PInf"
    then show thesis using m that [of "of_int ?m"] by (simp add: dclamp_def)
  next
    fix v assume "rnd (x * f) = Fin v" "0 \<le> v"
    then show thesis using m that [of "max 0 (min v (of_int ?m))"] by (simp add: dclamp_Fin)
  qed
  then show ?thesis using lround_int_nonneg [OF _ _ m(2)] by (simp add: r)
qed

text \<open>
  C25: the backoff is bounded. Under a valid policy every attempt number and every random fraction give
  a delay between zero and the configured maximum; no overflow or NaN of the floating-point
  computation reaches the conversion to \<open>int\<close>.
\<close>

theorem backoffDelayMs_bounded:
  assumes "valid_policy p" "unit_double u"
  shows "\<exists>ms. backoffDelayMs p attempt u = Inr ms \<and> 0 \<le> ms \<and> ms \<le> rp_max_delay_ms p"
  using assms by (rule backoff_range)

lemma default_valid: "valid_policy default_policy"
  using default_jitter rnd_idem [OF default_jitter]
  by (simp add: valid_policy_def default_policy_def)

theorem backoffDelayMs_bounded_witness:
  "\<exists>ms. backoffDelayMs default_policy 2000 (Fin 1) = Inr ms \<and> 0 \<le> ms \<and> ms \<le> 2000"
  using backoffDelayMs_bounded [OF default_valid, of "Fin 1" 2000]
  by (simp add: unit_double_def default_policy_def)

text \<open>The factor at one half: the two roundings cancel, whatever the jitter.\<close>

lemma jitter_factor_half:
  assumes "rnd j = Fin j" "0 \<le> j" "j \<le> 1"
  shows "dadd (dsub (Fin 1) (Fin j)) (dmul (dmul (Fin (1 / 2)) (Fin 2)) (Fin j)) = Fin 1"
proof -
  have one: "rnd 1 = Fin 1" by (rule rnd_near_one) simp
  obtain a where a: "rnd (1 - j) = Fin a" "\<bar>a - (1 - j)\<bar> \<le> 2 powi (- 54)"
  proof (cases "j = 0 \<or> j = 1")
    case True
    moreover have "rnd 0 = Fin 0" by (simp add: rnd_def)
    ultimately show thesis using that [of "1 - j"] one by auto
  next
    case False
    then have b: "0 < 1 - j" "1 - j < 1" using assms by simp_all
    obtain v where v: "rnd (1 - j) = Fin v" using rnd_small [of "1 - j"] b by force
    then have "v = round_pos (1 - j)" using b by (auto simp: rnd_def Let_def split: if_splits)
    then show thesis using that [OF v] round_unit_error [OF b] by simp
  qed
  have "a + j - 1 = a - (1 - j)" by simp
  then have "rnd (a + j) = Fin 1" using a(2) by (intro rnd_near_one) (simp only:)
  then show ?thesis using one by (simp add: dsub_def a(1) assms(1))
qed

lemma delay_half:
  assumes "valid_policy p" "1 \<le> attempt"
  shows "backoffDelayMs p attempt (Fin (1 / 2)) =
    Inr (min (rp_base_delay_ms p * 2 ^ nat (attempt - 1)) (rp_max_delay_ms p))"
proof -
  let ?m = "rp_max_delay_ms p"
  define n where "n = min (rp_base_delay_ms p * 2 ^ nat (attempt - 1)) (rp_max_delay_ms p)"
  obtain j where j: "rp_jitter p = Fin j" "rnd j = Fin j" "0 \<le> j" "j \<le> 1"
    using assms(1) by (auto simp: valid_policy_def split: double.splits)
  have m: "0 < ?m" "?m < 2 ^ 31" and b: "0 < rp_base_delay_ms p"
    using assms(1) by (simp_all add: valid_policy_def)
  have t: "dmin (dmul (of_cint (rp_base_delay_ms p)) (pow2d (attempt - 1))) (of_cint ?m) = Fin (of_int n)"
    unfolding n_def using assms by (intro capped_term) (simp_all add: valid_policy_def)
  have n: "0 < n" "n \<le> ?m" using m b by (simp_all add: n_def)
  then have "n \<le> 2 ^ 53" using m(2) by simp
  then have "round_pos (of_int n * 2 powi 0) = of_int n * 2 powi 0" using n by (intro round_pos_exact) simp_all
  moreover have "(of_int n :: rat) < 2 ^ 1024"
  proof -
    have "(of_int n :: rat) < of_int (2 ^ 31)" using n m(2) by (simp only: of_int_less_iff)
    also have "\<dots> \<le> 2 ^ 1024" by simp
    finally show ?thesis .
  qed
  moreover have "0 < (of_int n :: rat)" using n(1) by (simp only: of_int_0_less_iff)
  ultimately have x: "rnd (of_int n) = Fin (of_int n)" using rnd_exact by simp
  have l: "dclamp (Fin (of_int n)) (Fin 0) (of_cint ?m) = Inr (Fin (of_int n))"
    using n by (simp add: of_cint_def dclamp_def)
  have c: "dclamp (Fin (1 / 2)) (Fin 0) (Fin 1) = Inr (Fin (1 / 2))" by (simp add: dclamp_def)
  have d: "dmul (Fin (of_int n)) (Fin 1) = Fin (of_int n)" by (simp add: x)
  have "\<not> attempt < 1" using assms(2) by simp
  then have "backoffDelayMs p attempt (Fin (1 / 2)) = lround_int (Fin (of_int n))"
    unfolding backoffDelayMs_def Let_def double_ops t c j(1) bindR_simps jitter_factor_half [OF j(2-4)] d l
    by simp
  also have "\<dots> = Inr n" using n m by (intro lround_int_of_int) linarith+
  finally show ?thesis unfolding n_def .
qed

text \<open>
  At the random fraction one half the delay is exactly \<open>min (base * 2^(attempt-1)) max\<close>,
  for every valid policy and any jitter: rounding never shows, and no attempt number is too large.
\<close>

lemma backoffDelayMs_half:
  assumes "valid_policy p" "1 \<le> attempt"
  shows "backoffDelayMs p attempt (Fin (1 / 2)) =
    Inr (min (rp_base_delay_ms p * 2 ^ nat (attempt - 1)) (rp_max_delay_ms p))"
  using assms by (rule delay_half)

section \<open>What the loop returns\<close>

text \<open>
  The reference: the state just before attempt number \<open>k + 1\<close>, as long as every earlier attempt
  was transient.
\<close>

definition retry_step ::
    "RetryPolicy \<Rightarrow> ('w \<Rightarrow> ('a result \<times> 'w) option) \<Rightarrow> ('a \<Rightarrow> bool) \<Rightarrow> (int \<Rightarrow> 'w \<Rightarrow> 'w) \<Rightarrow>
     ('w \<Rightarrow> double \<times> 'w) \<Rightarrow> nat \<Rightarrow> 'w \<Rightarrow> 'w option" where
  "retry_step policy attempt is_retryable sleeper rng k w =
     (case attempt w of
        None \<Rightarrow> None
      | Some (r, w1) \<Rightarrow>
          if is_final is_retryable r then None
          else
            case rng w1 of (u, w2) \<Rightarrow>
              (case backoffDelayMs policy (int (Suc k)) u of Inl e \<Rightarrow> None | Inr ms \<Rightarrow> Some (sleeper ms w2)))"

fun state_before ::
    "RetryPolicy \<Rightarrow> ('w \<Rightarrow> ('a result \<times> 'w) option) \<Rightarrow> ('a \<Rightarrow> bool) \<Rightarrow> (int \<Rightarrow> 'w \<Rightarrow> 'w) \<Rightarrow>
     ('w \<Rightarrow> double \<times> 'w) \<Rightarrow> 'w \<Rightarrow> nat \<Rightarrow> 'w option" where
  "state_before policy attempt is_retryable sleeper rng w 0 = Some w"
| "state_before policy attempt is_retryable sleeper rng w (Suc k) =
     Option.bind (state_before policy attempt is_retryable sleeper rng w k)
       (retry_step policy attempt is_retryable sleeper rng k)"

lemma state_before_None:
  "state_before p a q s g w k = None \<Longrightarrow> k \<le> n \<Longrightarrow> state_before p a q s g w n = None"
proof (induction n)
  case (Suc n)
  then show ?case by (cases "k = Suc n") auto
qed simp

lemma retry_step_final: "attempt w = Some (r, w1) \<Longrightarrow> is_final q r \<Longrightarrow> retry_step p attempt q s g k w = None"
  by (simp add: retry_step_def)

text \<open>One round of the loop, when the delay is always defined.\<close>

lemma retry_loop_step:
  assumes "valid_policy p" "\<And>w. unit_double (fst (rng w))"
  shows "retry_loop p n attempt q sleeper rng (int (Suc k)) w =
     (case attempt w of
        None \<Rightarrow> None
      | Some (r, w1) \<Rightarrow>
          if n \<le> int (Suc k) \<or> is_final q r then Some (r, w1)
          else Option.bind (retry_step p attempt q sleeper rng k w)
                 (retry_loop p n attempt q sleeper rng (int (Suc (Suc k)))))"
proof -
  have "\<exists>ms. backoffDelayMs p (int (Suc k)) (fst (rng v)) = Inr ms" for v
    using backoff_range [OF assms] by blast
  then obtain ms where ms: "\<And>v. backoffDelayMs p (int (Suc k)) (fst (rng v)) = Inr (ms v)" by metis
  have "int (Suc k) + 1 = int (Suc (Suc k))" by simp
  then show ?thesis
    using ms by (subst retry_loop.simps)
      (simp add: retry_step_def case_prod_beta \<open>int (Suc k) + 1 = int (Suc (Suc k))\<close> split: option.split del: of_nat_Suc)
qed

lemma retry_loop_ends:
  assumes "valid_policy p" "\<And>w. unit_double (fst (rng w))"
    and "attempt w = Some (r, w1)" "n \<le> Suc k \<or> is_final q r"
  shows "retry_loop p (int n) attempt q sleeper rng (int (Suc k)) w = Some (r, w1)"
  using assms(4) by (subst retry_loop_step [OF assms(1,2)]) (auto simp: assms(3))

lemma retry_loop_goes_on:
  assumes "valid_policy p" "\<And>w. unit_double (fst (rng w))"
    and "attempt w = Some (r, w1)" "\<not> (n \<le> Suc k \<or> is_final q r)"
  shows "retry_loop p (int n) attempt q sleeper rng (int (Suc k)) w =
    Option.bind (retry_step p attempt q sleeper rng k w) (retry_loop p (int n) attempt q sleeper rng (int (Suc (Suc k))))"
  using assms(4) by (subst retry_loop_step [OF assms(1,2)]) (simp add: assms(3) del: of_nat_Suc)

lemma ex_from: "(\<exists>l \<ge> k. P l) \<longleftrightarrow> P k \<or> (\<exists>l \<ge> Suc k. P l)" for k :: nat
  using le_eq_less_or_eq [of k] by (auto simp: Suc_le_eq)

lemma retry_loop_iff:
  assumes "valid_policy p" "\<And>w. unit_double (fst (rng w))"
    and "state_before p attempt q sleeper rng w0 k = Some w" "k < n"
  shows "retry_loop p (int n) attempt q sleeper rng (int (Suc k)) w = Some (r, w') \<longleftrightarrow>
    (\<exists>l \<ge> k. l < n \<and> (\<exists>v. state_before p attempt q sleeper rng w0 l = Some v \<and>
       attempt v = Some (r, w') \<and> (Suc l = n \<or> is_final q r)))" (is "_ \<longleftrightarrow> (\<exists>l \<ge> k. ?Q l)")
  using assms(3,4)
proof (induction "n - k" arbitrary: k w)
  case (Suc d)
  let ?before = "state_before p attempt q sleeper rng w0"
  let ?here = "attempt w = Some (r, w') \<and> (Suc k = n \<or> is_final q r)"
  let ?R = "\<lambda>k. \<exists>l \<ge> k. ?Q l"
  have split: "?R k \<longleftrightarrow> ?here \<or> ?R (Suc k)" using Suc.prems by (simp only: ex_from [of k ?Q]) auto
  have none: "\<not> ?R (Suc k)" if "?before (Suc k) = None \<or> n \<le> Suc k"
    using that state_before_None [of p attempt q sleeper rng w0 "Suc k"] by fastforce
  show ?case
  proof (cases "attempt w")
    case None
    then have "?before (Suc k) = None" using Suc.prems by (simp add: retry_step_def)
    then have "\<not> ?R (Suc k)" using none by blast
    then show ?thesis unfolding split using None by (subst retry_loop_step [OF assms(1,2)]) simp
  next
    case (Some rw)
    obtain r1 w1 where rw: "attempt w = Some (r1, w1)" using Some by (cases rw) simp
    show ?thesis
    proof (cases "n \<le> Suc k \<or> is_final q r1")
      case True
      then have "?before (Suc k) = None \<or> n \<le> Suc k" using Suc.prems rw by (auto simp: retry_step_final)
      then have "\<not> ?R (Suc k)" by (rule none)
      moreover have "?here \<longleftrightarrow> r1 = r \<and> w1 = w'" using True rw Suc.prems(2) by auto
      ultimately show ?thesis
        unfolding split retry_loop_ends [where attempt = attempt and w = w, OF assms(1,2) rw True] by (simp only: option.inject prod.inject simp_thms)
    next
      case False
      then have h: "\<not> ?here" using rw by auto
      show ?thesis
      proof (cases "retry_step p attempt q sleeper rng k w")
        case None
        then have "?before (Suc k) = None" using Suc.prems by simp
        then show ?thesis unfolding retry_loop_goes_on [where attempt = attempt and w = w, OF assms(1,2) rw False] split using none h None by simp
      next
        case v: (Some v)
        then have "?before (Suc k) = Some v" using Suc.prems by simp
        then have "retry_loop p (int n) attempt q sleeper rng (int (Suc (Suc k))) v = Some (r, w') \<longleftrightarrow> ?R (Suc k)"
          using False Suc.hyps(2) by (intro Suc.hyps(1)) simp_all
        then show ?thesis unfolding retry_loop_goes_on [where attempt = attempt and w = w, OF assms(1,2) rw False] split v bind.bind_lunit using h by blast
      qed
    qed
  qed
qed simp

lemma retry_iff:
  assumes "valid_policy p" "\<And>w. unit_double (fst (rng w))"
  shows "runWithRetry p attempt q sleeper rng w = Some (r, w') \<longleftrightarrow>
    (\<exists>k v. k < nat (rp_max_attempts p) \<and> state_before p attempt q sleeper rng w k = Some v \<and>
       attempt v = Some (r, w') \<and> (Suc k = nat (rp_max_attempts p) \<or> is_final q r))"
proof -
  have n: "0 < rp_max_attempts p" "int (nat (rp_max_attempts p)) = rp_max_attempts p"
    using assms(1) by (simp_all add: valid_policy_def)
  then have r: "runWithRetry p attempt q sleeper rng w =
      retry_loop p (int (nat (rp_max_attempts p))) attempt q sleeper rng (int (Suc 0)) w"
    by (simp add: runWithRetry_def)
  show ?thesis
    unfolding r using n(1)
    by (subst retry_loop_iff [OF assms, where k = 0 and ?w0.0 = w]) auto
qed

text \<open>
  C9: the outcome of the loop. With a valid policy and a random source in the unit interval,
  \<open>runWithRetry\<close> returns exactly the outcome of some attempt number \<open>k + 1\<close> within
  \<open>max_attempts\<close> before which every outcome was transient (a retryable result or a caught
  exception) and which is itself final or the last one allowed; result and exception pass through
  unchanged.
\<close>

theorem runWithRetry_outcome:
  assumes "valid_policy p" "\<And>w. unit_double (fst (rng w))"
  shows "runWithRetry p attempt q sleeper rng w = Some (r, w') \<longleftrightarrow>
    (\<exists>k v. k < nat (rp_max_attempts p) \<and> state_before p attempt q sleeper rng w k = Some v \<and>
       attempt v = Some (r, w') \<and> (Suc k = nat (rp_max_attempts p) \<or> is_final q r))"
  using assms by (rule retry_iff)

lemma run_first:
  "attempt w = Some (r, w1) \<Longrightarrow> is_final q r \<Longrightarrow> runWithRetry p attempt q sleeper rng w = Some (r, w1)"
  unfolding runWithRetry_def Let_def by (subst retry_loop.simps) simp

section \<open>Scripted attempts\<close>

text \<open>
  A world that is a list of outcomes still to come and the delays slept so far, for the
  examples.
\<close>

type_synonym 'a script = "'a result list \<times> int list"

fun scripted_attempt :: "'a script \<Rightarrow> ('a result \<times> 'a script) option" where
  "scripted_attempt ([], ds) = None"
| "scripted_attempt (r # rs, ds) = Some (r, (rs, ds))"

definition scripted_sleep :: "int \<Rightarrow> 'a script \<Rightarrow> 'a script" where
  "scripted_sleep ms w = (fst w, snd w @ [ms])"

definition mid_rng :: "'w \<Rightarrow> double \<times> 'w" where
  "mid_rng w = (Fin (1 / 2), w)"

definition term_ms :: "RetryPolicy \<Rightarrow> nat \<Rightarrow> int" where
  "term_ms p k = min (rp_base_delay_ms p * 2 ^ k) (rp_max_delay_ms p)"

lemma backoff_half: "valid_policy p \<Longrightarrow> backoffDelayMs p (int (Suc k)) (Fin (1 / 2)) = Inr (term_ms p k)"
  using delay_half [of p "int (Suc k)"] by (simp add: term_ms_def)

section \<open>The schedule\<close>

text \<open>
  The delay the policy asks for before retry number \<open>k + 1\<close> at a random fraction: the doubled and
  capped term, spread by the jitter around it, and kept within the limits; over the rationals.
\<close>

definition jittered_ms :: "RetryPolicy \<Rightarrow> nat \<Rightarrow> double \<Rightarrow> rat" where
  "jittered_ms p k u =
     (case (rp_jitter p, u) of
        (Fin j, Fin x) \<Rightarrow>
          max 0 (min (of_int (min (rp_base_delay_ms p * 2 ^ k) (rp_max_delay_ms p)) * (1 - j + 2 * x * j))
                   (of_int (rp_max_delay_ms p)))
      | _ \<Rightarrow> 0)"

definition is_delay :: "RetryPolicy \<Rightarrow> nat \<Rightarrow> double \<Rightarrow> int \<Rightarrow> bool" where
  "is_delay p k u ms \<longleftrightarrow> 0 \<le> ms \<and> ms \<le> rp_max_delay_ms p \<and> \<bar>of_int ms - jittered_ms p k u\<bar> < 51 / 100"

text \<open>
  \<open>paced k ds v\<close>: \<open>k\<close> attempts that are retried, each followed by one draw of a random fraction and
  one sleep of a delay for it, lead to \<open>v\<close>; the delays are \<open>ds\<close>.
\<close>

inductive paced ::
    "RetryPolicy \<Rightarrow> ('w \<Rightarrow> ('a result \<times> 'w) option) \<Rightarrow> ('a \<Rightarrow> bool) \<Rightarrow> (int \<Rightarrow> 'w \<Rightarrow> 'w) \<Rightarrow> ('w \<Rightarrow> double \<times> 'w) \<Rightarrow>
     'w \<Rightarrow> nat \<Rightarrow> int list \<Rightarrow> 'w \<Rightarrow> bool"
  for p attempt q sleeper rng w0 where
  start: "paced p attempt q sleeper rng w0 0 [] w0"
| again: "paced p attempt q sleeper rng w0 k ds w \<Longrightarrow> attempt w = Some (r, w1) \<Longrightarrow> \<not> is_final q r \<Longrightarrow>
    rng w1 = (u, w2) \<Longrightarrow> is_delay p k u ms \<Longrightarrow> paced p attempt q sleeper rng w0 (Suc k) (ds @ [ms]) (sleeper ms w2)"

inductive_simps paced_0: "paced p attempt q sleeper rng w0 0 ds v"
inductive_simps paced_Suc: "paced p attempt q sleeper rng w0 (Suc k) ds v"

subsection \<open>How far the computed delay is from the exact one\<close>

lemma rnd_small_error:
  assumes "0 \<le> q" "q \<le> 8"
  shows "\<exists>v. rnd q = Fin v \<and> 0 \<le> v \<and> \<bar>v - q\<bar> \<le> 1 / 2 ^ 50"
proof (cases "q = 0")
  case True
  then show ?thesis by (simp add: rnd_def)
next
  case False
  then have q: "0 < q" using assms(1) by simp
  obtain v where v: "rnd q = Fin v" "0 \<le> v" using rnd_small [OF assms] by blast
  then have "v = round_pos q" using q by (auto simp: rnd_def Let_def split: if_splits)
  moreover have "q < 2 powi 4" using assms(2) by simp
  then have "quantum q - 1 \<le> - 50" using flog2_less [OF q, of 4] by (simp add: quantum_def)
  then have "(2 :: rat) powi (quantum q - 1) \<le> 2 powi (- 50)" by (intro power_int_increasing) simp_all
  then have "\<bar>round_pos q - q\<bar> \<le> 2 powi (- 50)" using round_pos_error [of q] by linarith
  moreover have "(2 :: rat) powi (- 50) = 1 / 2 ^ 50" by (simp add: power_int_minus)
  ultimately have "\<bar>v - q\<bar> \<le> 1 / 2 ^ 50" by (simp only:)
  then show ?thesis using v by blast
qed

lemma factor_error:
  assumes "0 \<le> u" "u \<le> 1" "0 \<le> j" "j \<le> 1"
  shows "\<exists>f. dadd (dsub (Fin 1) (Fin j)) (dmul (dmul (Fin u) (Fin 2)) (Fin j)) = Fin f \<and> 0 \<le> f \<and>
    \<bar>f - (1 - j + 2 * u * j)\<bar> \<le> 4 / 2 ^ 50"
proof -
  define e where "e = (1 / 2 ^ 50 :: rat)"
  have e: "0 < e" "e \<le> 1" by (simp_all add: e_def)
  obtain a where a: "rnd (1 - j) = Fin a" "0 \<le> a" "\<bar>a - (1 - j)\<bar> \<le> e"
    unfolding e_def using rnd_small_error [of "1 - j"] assms by force
  obtain b where b: "rnd (u * 2) = Fin b" "0 \<le> b" "\<bar>b - u * 2\<bar> \<le> e"
    unfolding e_def using rnd_small_error [of "u * 2"] assms by force
  have "\<bar>(b - u * 2) * j\<bar> \<le> e * 1" unfolding abs_mult using b(3) assms by (intro mult_mono) simp_all
  then have bj: "\<bar>b * j - 2 * u * j\<bar> \<le> e" by (simp add: algebra_simps)
  have "0 \<le> b * j" using b assms by simp
  moreover have "2 * u * j \<le> 2" using assms mult_mono [of u 1 j 1] by simp
  then have "b * j \<le> 3" using bj e by linarith
  ultimately obtain c where c: "rnd (b * j) = Fin c" "0 \<le> c" "\<bar>c - b * j\<bar> \<le> e"
    unfolding e_def using rnd_small_error [of "b * j"] by force
  have "a + c \<le> 8" using a(3) c(3) \<open>b * j \<le> 3\<close> assms e by linarith
  then obtain f where f: "rnd (a + c) = Fin f" "0 \<le> f" "\<bar>f - (a + c)\<bar> \<le> e"
    unfolding e_def using rnd_small_error [of "a + c"] a(2) c(2) by force
  have "\<bar>f - (1 - j + 2 * u * j)\<bar> \<le> 4 * e" using a(3) bj c(3) f(3) by linarith
  then show ?thesis using f by (simp add: dsub_def a b c e_def)
qed

lemma product_error:
  assumes "0 \<le> x" "x \<le> 2 ^ 31" "0 \<le> f" "\<bar>f - g\<bar> \<le> 4 / 2 ^ 50" "g \<le> 2"
  shows "\<exists>v. rnd (x * f) = Fin v \<and> 0 \<le> v \<and> \<bar>v - x * g\<bar> \<le> 1 / 2 ^ 16"
proof (cases "x * f = 0")
  case True
  have "\<bar>x * (f - g)\<bar> \<le> 2 ^ 31 * (4 / 2 ^ 50)" unfolding abs_mult using assms by (intro mult_mono) simp_all
  also have "(2 ^ 31 * (4 / 2 ^ 50) :: rat) \<le> 1 / 2 ^ 16" by simp
  finally have "\<bar>x * (f - g)\<bar> \<le> 1 / 2 ^ 16" .
  moreover have "x * (f - g) = - (x * g)" using True by (simp only: right_diff_distrib)
  ultimately have "\<bar>0 - x * g\<bar> \<le> 1 / 2 ^ 16" by (simp only: abs_minus_cancel diff_0)
  then show ?thesis using True by (intro exI [of _ 0]) (simp only: rnd_def if_True order_refl simp_thms)
next
  case False
  then have p: "0 < x * f" using assms by simp
  have "\<bar>x * (f - g)\<bar> \<le> 2 ^ 31 * (4 / 2 ^ 50)" unfolding abs_mult using assms by (intro mult_mono) simp_all
  also have "(2 ^ 31 * (4 / 2 ^ 50) :: rat) = 1 / 2 ^ 17" by simp
  finally have xf: "\<bar>x * f - x * g\<bar> \<le> 1 / 2 ^ 17" by (simp add: algebra_simps)
  have "x * g \<le> x * 2" using assms by (intro mult_left_mono) simp_all
  then have "x * g \<le> 2 ^ 31 * 2" using assms(2) by simp
  moreover have "x * f - x * g \<le> 1 / 2 ^ 17" using xf by (rule abs_le_D1)
  moreover have "(2 ^ 31 * 2 + 1 / 2 ^ 17 :: rat) < 2 powi 33" by simp
  ultimately have "x * f < 2 powi 33" by linarith
  then have "quantum (x * f) - 1 \<le> - 21" using flog2_less [OF p, of 33] by (simp add: quantum_def)
  then have "(2 :: rat) powi (quantum (x * f) - 1) \<le> 2 powi (- 21)" by (intro power_int_increasing) simp_all
  then have "\<bar>round_pos (x * f) - x * f\<bar> \<le> 2 powi (- 21)"
    using round_pos_error [of "x * f"] by linarith
  moreover have "(2 :: rat) powi (- 21) = 1 / 2 ^ 21" by (simp add: power_int_minus)
  ultimately have r: "\<bar>round_pos (x * f) - x * f\<bar> \<le> 1 / 2 ^ 21" by (simp only:)
  have "round_pos (x * f) < 2 ^ 1024"
  proof -
    have "round_pos (x * f) \<le> x * f + 1" using order_trans [OF r, of 1] by (simp only: abs_le_iff) simp
    also have "\<dots> < 2 ^ 34" using \<open>x * f < 2 powi 33\<close> by simp
    also have "(2 ^ 34 :: rat) < 2 ^ 1024" by simp
    finally show ?thesis .
  qed
  then have "rnd (x * f) = Fin (round_pos (x * f))" using p False by (simp add: rnd_def del: mult_eq_0_iff)
  moreover have "\<bar>round_pos (x * f) - x * g\<bar> \<le> 1 / 2 ^ 21 + 1 / 2 ^ 17"
    using add_mono [OF r xf] abs_triangle_ineq [of "round_pos (x * f) - x * f" "x * f - x * g"]
    by (simp only: diff_add_cancel add_diff_eq)
  then have "\<bar>round_pos (x * f) - x * g\<bar> \<le> 1 / 2 ^ 16" by (rule order_trans) simp
  ultimately show ?thesis using round_pos_nonneg [of "x * f"] p by simp
qed

lemma lround_error:
  assumes "0 \<le> v" "v \<le> of_int m" "m < 2 ^ 31"
  shows "\<exists>n. lround_int (Fin v) = Inr n \<and> \<bar>of_int n - v\<bar> \<le> 1 / 2"
proof -
  define n where "n = \<lfloor>v + 1 / 2\<rfloor>"
  have e: "of_int n \<le> v + 1 / 2" "v + 1 / 2 < of_int n + 1" unfolding n_def by linarith+
  then have "\<bar>of_int n - v\<bar> \<le> 1 / 2" by linarith
  moreover have "\<exists>k. lround_int (Fin v) = Inr k \<and> 0 \<le> k \<and> k \<le> m" using lround_int_nonneg [OF assms] .
  moreover have "0 \<le> n" unfolding n_def using assms(1) by simp
  moreover have "n \<le> m"
  proof -
    have "(of_int n :: rat) < of_int (m + 1)" using e(1) assms(2) by simp
    then show ?thesis by (simp only: of_int_less_iff)
  qed
  ultimately show ?thesis using assms by (simp add: lround_int_def n_def)
qed

lemma delay_accurate:
  assumes "valid_policy p" "unit_double u" "backoffDelayMs p (int (Suc k)) u = Inr ms"
  shows "is_delay p k u ms"
proof -
  let ?m = "rp_max_delay_ms p" and ?t = "min (rp_base_delay_ms p * 2 ^ k) (rp_max_delay_ms p)"
  obtain j where j: "rp_jitter p = Fin j" "0 \<le> j" "j \<le> 1"
    using assms(1) by (auto simp: valid_policy_def split: double.splits)
  obtain x where x: "u = Fin x" "0 \<le> x" "x \<le> 1" using assms(2) by (auto simp: unit_double_def split: double.splits)
  let ?g = "1 - j + 2 * x * j"
  have m: "0 < ?m" "?m < 2 ^ 31" "0 < rp_base_delay_ms p" "rp_base_delay_ms p < 2 ^ 31"
    using assms(1) by (simp_all add: valid_policy_def)
  obtain f where f: "dadd (dsub (Fin 1) (Fin j)) (dmul (dmul (Fin x) (Fin 2)) (Fin j)) = Fin f" "0 \<le> f"
    "\<bar>f - ?g\<bar> \<le> 4 / 2 ^ 50"
    using factor_error x j by blast
  have "x * j \<le> 1 * j" using x j by (intro mult_right_mono) simp_all
  then have g: "?g \<le> 2" using j by linarith
  have "0 \<le> ?t" "?t \<le> 2 ^ 31" using m by simp_all
  then have "(of_int 0 :: rat) \<le> of_int ?t" "(of_int ?t :: rat) \<le> of_int (2 ^ 31)" by (simp_all only: of_int_le_iff)
  then have t: "0 \<le> (of_int ?t :: rat)" "(of_int ?t :: rat) \<le> 2 ^ 31"
    by (simp_all only: of_int_0 of_int_power of_int_numeral)
  obtain v where v: "rnd (of_int ?t * f) = Fin v" "0 \<le> v" "\<bar>v - of_int ?t * ?g\<bar> \<le> 1 / 2 ^ 16"
    using product_error [OF t f(2,3) g] by blast
  let ?c = "max 0 (min v (of_int ?m))"
  have tm: "dmin (dmul (of_cint (rp_base_delay_ms p)) (pow2d (int (Suc k) - 1))) (of_cint ?m) = Fin (of_int ?t)"
    using capped_term [OF m(3,4,1,2), of "int k"] by simp
  have c: "dclamp u (Fin 0) (Fin 1) = Inr (Fin x)" using x by (simp add: dclamp_Fin)
  have "dclamp (Fin v) (Fin 0) (Fin (of_int ?m)) = Inr (Fin ?c)" using m by (intro dclamp_Fin) simp
  then have r: "backoffDelayMs p (int (Suc k)) u = lround_int (Fin ?c)"
    unfolding backoffDelayMs_def Let_def double_ops tm c using f v(1) by (simp add: j of_cint_def del: of_nat_Suc)
  have "0 \<le> ?c" "?c \<le> of_int ?m" using m by simp_all
  from lround_error [OF this m(2)] obtain n where "lround_int (Fin ?c) = Inr n" "\<bar>of_int n - ?c\<bar> \<le> 1 / 2" by blast
  then have n: "\<bar>of_int ms - ?c\<bar> \<le> 1 / 2" using r assms(3) by simp
  have "\<bar>?c - max 0 (min (of_int ?t * ?g) (of_int ?m))\<bar> \<le> \<bar>v - of_int ?t * ?g\<bar>" by linarith
  then have "\<bar>?c - jittered_ms p k u\<bar> \<le> 1 / 2 ^ 16" using v(3) by (simp add: jittered_ms_def j x)
  then have "\<bar>of_int ms - jittered_ms p k u\<bar> \<le> 1 / 2 + 1 / 2 ^ 16"
    using n abs_triangle_ineq [of "of_int ms - ?c" "?c - jittered_ms p k u"] by (simp only: diff_add_cancel add_diff_eq)
  also have "(1 / 2 + 1 / 2 ^ 16 :: rat) < 51 / 100" by simp
  finally have "\<bar>of_int ms - jittered_ms p k u\<bar> < 51 / 100" .
  moreover have "0 \<le> ms" "ms \<le> ?m" using backoff_range [OF assms(1,2), of "int (Suc k)"] assms(3) by simp_all
  ultimately show ?thesis by (simp add: is_delay_def)
qed

lemma before_paced:
  assumes "valid_policy p" "\<And>w. unit_double (fst (rng w))"
  shows "state_before p attempt q sleeper rng w k = Some v \<Longrightarrow> \<exists>ds. paced p attempt q sleeper rng w k ds v"
proof (induction k arbitrary: v)
  case 0
  then show ?case by (auto intro: paced.start)
next
  case (Suc k)
  then obtain x where x: "state_before p attempt q sleeper rng w k = Some x" "retry_step p attempt q sleeper rng k x = Some v"
    by (auto simp: Option.bind_eq_Some_conv)
  obtain ds where ds: "paced p attempt q sleeper rng w k ds x" using Suc.IH [OF x(1)] by blast
  obtain r w1 where a: "attempt x = Some (r, w1)" "\<not> is_final q r"
    using x(2) by (auto simp: retry_step_def split: option.splits if_splits)
  obtain u w2 where u: "rng w1 = (u, w2)" by (cases "rng w1")
  obtain ms where ms: "backoffDelayMs p (int (Suc k)) u = Inr ms" "v = sleeper ms w2"
    using x(2) a u by (auto simp: retry_step_def split: sum.splits)
  have "unit_double u" using assms(2) [of w1] u by simp
  from paced.again [OF ds a u delay_accurate [OF assms(1) this ms(1)]] show ?case unfolding ms(2) by blast
qed

text \<open>
  C24: the schedule, for any attempt, any random source in the unit interval and any world. When the loop
  returns, it has made some number \<open>k\<close> of attempts that were retried, fewer than allowed, and after each
  of them drawn one random fraction and slept once, for a delay within half a millisecond, up to the
  rounding of a double, of what the policy asks for: the base delay doubled with every retry and capped at
  the maximum, spread by the jitter from \<open>1 - j\<close> at fraction 0 to \<open>1 + j\<close> at fraction 1, and kept
  between 0 and the maximum. Then came the attempt whose outcome it returns, which was final or the last
  one allowed; after that it does not sleep.
\<close>

theorem runWithRetry_schedule:
  assumes "valid_policy p" "\<And>w. unit_double (fst (rng w))"
    and "runWithRetry p attempt q sleeper rng w = Some (r, w')"
  shows "\<exists>k ds v. k < nat (rp_max_attempts p) \<and> paced p attempt q sleeper rng w k ds v \<and>
    attempt v = Some (r, w') \<and> (Suc k = nat (rp_max_attempts p) \<or> is_final q r)"
proof -
  obtain k v where k: "k < nat (rp_max_attempts p)" "state_before p attempt q sleeper rng w k = Some v"
    "attempt v = Some (r, w')" "Suc k = nat (rp_max_attempts p) \<or> is_final q r"
    using assms(3) unfolding retry_iff [OF assms(1,2)] by blast
  obtain ds where "paced p attempt q sleeper rng w k ds v"
    using before_paced [of p rng attempt q sleeper w k v] assms(1,2) k(2) by blast
  with k show ?thesis by blast
qed

text \<open>
  The default policy against one unavailable response, at the random fractions 0 and 1: the pause is 80
  and 120 milliseconds, not the 100 of the middle.
\<close>

definition const_rng :: "rat \<Rightarrow> 'w \<Rightarrow> double \<times> 'w" where
  "const_rng x w = (Fin x, w)"

lemma scripted_pause:
  assumes "0 \<le> x" "x \<le> 1"
  obtains ms where "runWithRetry default_policy scripted_attempt isRetryableHttpStatus scripted_sleep (const_rng x)
      ([Inr 503, Inr 200], []) = Some (Inr 200, ([], [ms]))"
proof -
  have "unit_double (Fin x)" using assms by (simp add: unit_double_def)
  then obtain ms where ms: "backoffDelayMs default_policy 1 (Fin x) = Inr ms" using backoff_range [OF default_valid] by blast
  have "rp_max_attempts default_policy = 3" by (simp add: default_policy_def)
  then have "runWithRetry default_policy scripted_attempt isRetryableHttpStatus scripted_sleep (const_rng x)
      ([Inr 503, Inr 200], []) = Some (Inr 200, ([], [ms]))"
    using ms by (simp add: runWithRetry_def retry_loop.simps is_final_def isRetryableHttpStatus_def const_rng_def scripted_sleep_def)
  then show thesis by (rule that)
qed

lemma first_pause:
  assumes "0 \<le> x" "x \<le> 1"
    and "paced default_policy scripted_attempt isRetryableHttpStatus scripted_sleep (const_rng x) ([Inr 503, Inr 200], []) k ds v"
    and "scripted_attempt v = Some (Inr 200, ([], [ms]))"
  shows "is_delay default_policy 0 (Fin x) ms"
proof (cases k)
  case 0
  then show ?thesis using assms(3,4) by (simp add: paced_0)
next
  case (Suc n)
  obtain ds' w r w1 u w2 d where p: "paced default_policy scripted_attempt isRetryableHttpStatus scripted_sleep (const_rng x)
      ([Inr 503, Inr 200], []) n ds' w" "scripted_attempt w = Some (r, w1)" "const_rng x w1 = (u, w2)"
      "is_delay default_policy n u d" "v = scripted_sleep d w2"
    using assms(3) unfolding Suc paced_Suc by blast
  have v: "v = ([Inr 200], [ms])" using assms(4) by (cases v rule: scripted_attempt.cases) auto
  then have "w2 = ([Inr 200], [])" "d = ms" using p(5) by (cases w2; simp add: scripted_sleep_def)+
  then have w: "w = ([r, Inr 200], [])" "u = Fin x"
    using p(2,3) by (cases w rule: scripted_attempt.cases; simp add: const_rng_def)+
  have "n = 0"
  proof (cases n)
    case (Suc i)
    then obtain e y where "w = scripted_sleep e y" using p(1) unfolding Suc paced_Suc by blast
    then show ?thesis using w by (simp add: scripted_sleep_def)
  qed
  then show ?thesis using p(4) \<open>d = ms\<close> w(2) by simp
qed

lemma delay_bracket:
  assumes "is_delay p k u ms" "of_int (n - 1) + 51 / 100 < jittered_ms p k u" "jittered_ms p k u < of_int (n + 1) - 51 / 100"
  shows "ms = n"
proof -
  have "\<bar>of_int ms - jittered_ms p k u\<bar> < 51 / 100" using assms(1) by (simp add: is_delay_def)
  then have "(of_int (n - 1) :: rat) < of_int ms" "(of_int ms :: rat) < of_int (n + 1)" using assms(2,3) by linarith+
  then show ?thesis by (simp only: of_int_less_iff)
qed

theorem runWithRetry_schedule_witness:
  "runWithRetry default_policy scripted_attempt isRetryableHttpStatus scripted_sleep (const_rng 0) ([Inr 503, Inr 200], []) =
     Some (Inr 200, ([], [80])) \<and>
   runWithRetry default_policy scripted_attempt isRetryableHttpStatus scripted_sleep (const_rng 1) ([Inr 503, Inr 200], []) =
     Some (Inr 200, ([], [120]))"
proof -
  have pause: "is_delay default_policy 0 (Fin x) ms"
    if x: "0 \<le> x" "x \<le> 1"
      and r: "runWithRetry default_policy scripted_attempt isRetryableHttpStatus scripted_sleep (const_rng x)
        ([Inr 503, Inr 200], []) = Some (Inr 200, ([], [ms]))" for x ms
  proof -
    have u: "unit_double (fst (const_rng x w))" for w :: "int script" using x by (simp add: const_rng_def unit_double_def)
    show ?thesis using runWithRetry_schedule [OF default_valid u r] first_pause [OF x] by blast
  qed
  have j: "jittered_ms default_policy 0 (Fin 0) = 100 * (1 - 3602879701896397 / 18014398509481984)"
    "jittered_ms default_policy 0 (Fin 1) = 100 * (1 + 3602879701896397 / 18014398509481984)"
    by (simp_all add: jittered_ms_def default_policy_def default_jitter)
  obtain a where a: "runWithRetry default_policy scripted_attempt isRetryableHttpStatus scripted_sleep (const_rng 0)
      ([Inr 503, Inr 200], []) = Some (Inr 200, ([], [a]))" by (rule scripted_pause [of 0]) simp_all
  obtain b where b: "runWithRetry default_policy scripted_attempt isRetryableHttpStatus scripted_sleep (const_rng 1)
      ([Inr 503, Inr 200], []) = Some (Inr 200, ([], [b]))" by (rule scripted_pause [of 1]) simp_all
  have "a = 80" using pause [OF _ _ a] by (rule delay_bracket) (simp_all add: j)
  moreover have "b = 120" using pause [OF _ _ b] by (rule delay_bracket) (simp_all add: j)
  ultimately show ?thesis using a b by simp
qed

theorem runWithRetry_outcome_witness:
  "runWithRetry default_policy scripted_attempt isRetryableHttpStatus scripted_sleep mid_rng ([Inr 200], []) =
     Some (Inr 200, ([], []))"
proof -
  have u: "unit_double (fst (mid_rng w))" for w :: "int script" by (simp add: mid_rng_def unit_double_def)
  show ?thesis
  proof (subst runWithRetry_outcome [OF default_valid u], intro exI conjI)
    show "0 < nat (rp_max_attempts default_policy)" by (simp add: default_policy_def)
    show "state_before default_policy scripted_attempt isRetryableHttpStatus scripted_sleep mid_rng ([Inr 200], []) 0
      = Some ([Inr 200], [])" by simp
    show "scripted_attempt ([Inr 200], []) = Some (Inr 200, ([], []))" by simp
    show "Suc 0 = nat (rp_max_attempts default_policy) \<or> is_final isRetryableHttpStatus (Inr 200)"
      by (simp add: is_final_def isRetryableHttpStatus_def)
  qed
qed

section \<open>What the loop leaves alone\<close>

text \<open>
  The contract of an attempt: it and the two side effects of the loop keep an invariant of the world.
  Then so does the whole loop.
\<close>

locale retry_invariant =
  fixes Inv :: "'w \<Rightarrow> bool"
    and attempt :: "'w \<Rightarrow> ('a result \<times> 'w) option"
    and sleeper :: "int \<Rightarrow> 'w \<Rightarrow> 'w"
    and rng :: "'w \<Rightarrow> double \<times> 'w"
  assumes attempt_keeps: "Inv w \<Longrightarrow> attempt w = Some (r, w') \<Longrightarrow> Inv w'"
    and sleep_keeps: "Inv w \<Longrightarrow> Inv (sleeper ms w)"
    and rng_keeps: "Inv w \<Longrightarrow> Inv (snd (rng w))"
begin

lemma loop_keeps:
  assumes "Inv w" "retry_loop p n attempt q sleeper rng i w = Some (r, w')"
  shows "Inv w'"
  using assms
proof (induction "nat (n - i)" arbitrary: i w rule: less_induct)
  case less
  obtain r1 w1 where a: "attempt w = Some (r1, w1)"
    using less.prems(2) by (subst (asm) retry_loop.simps) (auto split: option.splits)
  have w1: "Inv w1" using attempt_keeps [OF less.prems(1) a] .
  show ?case
  proof (cases "n \<le> i \<or> is_final q r1")
    case True
    then show ?thesis using less.prems(2) a w1 by (subst (asm) retry_loop.simps) simp
  next
    case False
    obtain u w2 where u: "rng w1 = (u, w2)" by (cases "rng w1")
    then have w2: "Inv w2" using rng_keeps [OF w1] by simp
    show ?thesis
    proof (cases "backoffDelayMs p i u")
      case (Inl e)
      then show ?thesis using less.prems(2) a False u w2 by (subst (asm) retry_loop.simps) simp
    next
      case (Inr ms)
      then have "retry_loop p n attempt q sleeper rng (i + 1) (sleeper ms w2) = Some (r, w')"
        using less.prems(2) a False u by (subst (asm) retry_loop.simps) simp
      then show ?thesis using less.hyps [of "i + 1" "sleeper ms w2"] False sleep_keeps [OF w2] by simp
    qed
  qed
qed

lemma run_keeps: "Inv w \<Longrightarrow> runWithRetry p attempt q sleeper rng w = Some (r, w') \<Longrightarrow> Inv w'"
  unfolding runWithRetry_def Let_def by (rule loop_keeps)

end

section \<open>How often the loop calls\<close>

text \<open>
  A stronger contract: every attempt returns and can be counted in the world. Then the loop returns
  with any policy, and the count says how much of its budget it has used.
\<close>

locale retry_counting =
  fixes count :: "'w \<Rightarrow> nat"
    and attempt :: "'w \<Rightarrow> ('a result \<times> 'w) option"
    and sleeper :: "int \<Rightarrow> 'w \<Rightarrow> 'w"
    and rng :: "'w \<Rightarrow> double \<times> 'w"
  assumes attempt_counts: "\<exists>r w'. attempt w = Some (r, w') \<and> count w' = Suc (count w)"
    and sleep_counts: "count (sleeper ms w) = count w"
    and rng_counts: "count (snd (rng w)) = count w"
begin

lemma loop_returns:
  assumes "i \<le> n"
  shows "\<exists>r w'. retry_loop p n attempt q sleeper rng i w = Some (r, w') \<and>
    count w < count w' \<and> count w' \<le> count w + Suc (nat (n - i))"
  using assms
proof (induction "nat (n - i)" arbitrary: i w)
  case 0
  obtain r w1 where a: "attempt w = Some (r, w1)" "count w1 = Suc (count w)" using attempt_counts by blast
  then have "retry_loop p n attempt q sleeper rng i w = Some (r, w1)" using 0 by (subst retry_loop.simps) simp
  then show ?case using a(2) by simp
next
  case (Suc d)
  obtain r w1 where a: "attempt w = Some (r, w1)" "count w1 = Suc (count w)" using attempt_counts by blast
  obtain u w2 where u: "rng w1 = (u, w2)" by (cases "rng w1")
  have c2: "count w2 = Suc (count w)" using rng_counts [of w1] u a(2) by simp
  show ?case
  proof (cases "is_final q r \<or> (\<exists>e. backoffDelayMs p i u = Inl e)")
    case True
    then have "\<exists>r' w'. retry_loop p n attempt q sleeper rng i w = Some (r', w') \<and> count w' = Suc (count w)"
      using a u c2 by (subst retry_loop.simps) auto
    then show ?thesis by fastforce
  next
    case False
    then obtain ms where ms: "backoffDelayMs p i u = Inr ms" by (cases "backoffDelayMs p i u") auto
    have d: "d = nat (n - (i + 1))" "i + 1 \<le> n" using Suc.hyps(2) Suc.prems by linarith+
    obtain r' w' where w': "retry_loop p n attempt q sleeper rng (i + 1) (sleeper ms w2) = Some (r', w')"
      "count (sleeper ms w2) < count w'" "count w' \<le> count (sleeper ms w2) + Suc (nat (n - (i + 1)))"
      using Suc.hyps(1) [OF d, of "sleeper ms w2"] by blast
    have "retry_loop p n attempt q sleeper rng i w = Some (r', w')"
      using a u ms False d(2) w'(1) by (subst retry_loop.simps) simp
    moreover have "nat (n - i) = Suc (nat (n - (i + 1)))" using Suc.hyps(2) by simp
    ultimately show ?thesis using w'(2,3) c2 by (simp add: sleep_counts)
  qed
qed

lemma run_returns:
  "\<exists>r w'. runWithRetry p attempt q sleeper rng w = Some (r, w') \<and> count w < count w' \<and>
     count w' \<le> count w + nat (max 1 (rp_max_attempts p))"
proof -
  have "Suc (nat ((if 0 < rp_max_attempts p then rp_max_attempts p else 1) - 1)) = nat (max 1 (rp_max_attempts p))"
    by (cases "0 < rp_max_attempts p") (simp_all add: Suc_nat_eq_nat_zadd1)
  then show ?thesis
    using loop_returns [of 1 "if 0 < rp_max_attempts p then rp_max_attempts p else 1" p q w]
    unfolding runWithRetry_def Let_def by (simp only:) simp
qed

lemma before_counts: "state_before p attempt q sleeper rng w k = Some v \<Longrightarrow> count v = count w + k"
proof (induction k arbitrary: v)
  case (Suc k)
  then obtain u where u: "state_before p attempt q sleeper rng w k = Some u" "retry_step p attempt q sleeper rng k u = Some v"
    by (auto simp: Option.bind_eq_Some_conv)
  obtain r w1 where a: "attempt u = Some (r, w1)" "count w1 = Suc (count u)" using attempt_counts by blast
  then show ?case
    using u Suc.IH [OF u(1)] rng_counts [of w1]
    by (auto simp: retry_step_def sleep_counts split: if_splits prod.splits sum.splits)
qed simp

text \<open>The outcome is that of the last attempt; a transient one only after the whole budget.\<close>

lemma run_last:
  assumes "valid_policy p" "\<And>w. unit_double (fst (rng w))" "runWithRetry p attempt q sleeper rng w = Some (r, w')"
  obtains v where "attempt v = Some (r, w')" "\<not> is_final q r \<longrightarrow> count w' = count w + nat (rp_max_attempts p)"
proof -
  obtain k v where kv: "state_before p attempt q sleeper rng w k = Some v" "attempt v = Some (r, w')"
    "Suc k = nat (rp_max_attempts p) \<or> is_final q r"
    using assms(3) unfolding retry_iff [OF assms(1,2)] by blast
  have "count w' = Suc (count w + k)" using attempt_counts [of v] before_counts [OF kv(1)] kv(2) by auto
  then show ?thesis using that kv(2,3) by auto
qed

end

end
