(* ===== verification/Os_World.thy ===== *)
theory Os_World
  imports Retry "HOL-Library.Multiset"
begin

text \<open>
  The operating system and OpenSSL as seen by the HTTP client. The world is the history of system
  calls, newest first; what a call returns is an arbitrary function of the history, collected in the
  record \<open>os\<close>, so that a theorem about every \<open>os\<close> covers every behaviour of the
  network. A program is a function from a state to an outcome (value or exception) and a new state, or
  \<open>None\<close> when it does not return.
\<close>

section \<open>Programs\<close>

type_synonym ('w, 'a) prog = "'w \<Rightarrow> ('a result \<times> 'w) option"

definition ret :: "'a \<Rightarrow> ('w, 'a) prog" where
  "ret x w = Some (Inr x, w)"

definition throw :: "exn \<Rightarrow> ('w, 'a) prog" where
  "throw e w = Some (Inl e, w)"

definition of_result :: "'a result \<Rightarrow> ('w, 'a) prog" where
  "of_result r w = Some (r, w)"

definition bindP :: "('w, 'a) prog \<Rightarrow> ('a \<Rightarrow> ('w, 'b) prog) \<Rightarrow> ('w, 'b) prog" where
  "bindP p f w =
     (case p w of
        None \<Rightarrow> None
      | Some (Inl e, w1) \<Rightarrow> Some (Inl e, w1)
      | Some (Inr x, w1) \<Rightarrow> f x w1)"

text \<open>\<open>try { p } catch (...) { h; throw; }\<close>.\<close>

definition on_exception :: "('w, 'a) prog \<Rightarrow> ('w \<Rightarrow> 'w) \<Rightarrow> ('w, 'a) prog" where
  "on_exception p h w =
     (case p w of
        None \<Rightarrow> None
      | Some (Inl e, w1) \<Rightarrow> Some (Inl e, if catchable e then h w1 else w1)
      | Some (Inr x, w1) \<Rightarrow> Some (Inr x, w1))"

named_theorems prog_simps \<open>unfolding rules of programs\<close>

lemma prog_basic [prog_simps]:
  "ret x w = Some (Inr x, w)" "throw e w = Some (Inl e, w)" "of_result r w = Some (r, w)"
  by (simp_all add: ret_def throw_def of_result_def)

lemma bindP_cases:
  assumes "bindP p f w = Some (r, w')"
  obtains e where "p w = Some (Inl e, w')" "r = Inl e"
  | x w1 where "p w = Some (Inr x, w1)" "f x w1 = Some (r, w')"
  using assms by (auto simp: bindP_def split: option.splits sum.splits)

lemma bindP_step [prog_simps]:
  "p w = Some (Inr x, w1) \<Longrightarrow> bindP p f w = f x w1" "p w = Some (Inl e, w1) \<Longrightarrow> bindP p f w = Some (Inl e, w1)"
  "p w = None \<Longrightarrow> bindP p f w = None"
  by (simp_all add: bindP_def)

section \<open>History\<close>

type_synonym addr = nat

datatype tls_call =
    Ctx_new
  | Set_min_proto_tls12
  | Set_verify_peer
  | Load_verify_locations string
  | Set_default_verify_paths
  | Ssl_new
  | Set_fd int
  | Set_sni string
  | Set_hostflags
  | Set1_host string
  | Ssl_connect
  | Err_get_error
  | Ssl_shutdown
  | Ssl_free int
  | Ctx_free int
  | Ssl_write string int

datatype event =
    EResolve string string
  | ESocket int
  | ESetsockopt int string int int
  | EConnect int addr bool
  | ESend int string int
  | ERecv int "string option"
  | EClose int
  | ETls tls_call int
  | ESslRead "string option"
  | ESleep int
  | ERandom double

type_synonym history = "event list"

text \<open>
  A pointer OpenSSL returns is an \<open>int\<close>, zero for \<open>nullptr\<close>. \<open>os_recv\<close> and
  \<open>os_ssl_read\<close> give the bytes read, none of them for a closed connection, and
  \<open>None\<close> for a negative return. \<open>os_tls_built\<close> is the macro
  \<open>KSERVE_CLIENT_WITH_TLS\<close>.
\<close>

record os =
  os_tls_built :: bool
  os_env :: env
  os_files :: files
  os_resolve :: "history \<Rightarrow> string \<Rightarrow> string \<Rightarrow> string + addr list"
  os_socket :: "history \<Rightarrow> addr \<Rightarrow> int"
  os_connect :: "history \<Rightarrow> int \<Rightarrow> addr \<Rightarrow> bool"
  os_send :: "history \<Rightarrow> int \<Rightarrow> string \<Rightarrow> int"
  os_recv :: "history \<Rightarrow> int \<Rightarrow> nat \<Rightarrow> string option"
  os_tls :: "history \<Rightarrow> tls_call \<Rightarrow> int"
  os_ssl_read :: "history \<Rightarrow> int \<Rightarrow> int \<Rightarrow> string option"
  os_err_text :: "int \<Rightarrow> string"
  os_random :: "history \<Rightarrow> double"

section \<open>Resources\<close>

datatype resource = Fd int | Ctx int | Ssl int

fun acquired :: "event \<Rightarrow> resource multiset" where
  "acquired (ESocket fd) = (if 0 \<le> fd then {#Fd fd#} else {#})"
| "acquired (ETls Ctx_new h) = (if h \<noteq> 0 then {#Ctx h#} else {#})"
| "acquired (ETls Ssl_new h) = (if h \<noteq> 0 then {#Ssl h#} else {#})"
| "acquired _ = {#}"

fun released :: "event \<Rightarrow> resource multiset" where
  "released (EClose fd) = {#Fd fd#}"
| "released (ETls (Ssl_free h) _) = {#Ssl h#}"
| "released (ETls (Ctx_free h) _) = {#Ctx h#}"
| "released _ = {#}"

text \<open>What is acquired and not yet released, and that nothing was released that was not held.\<close>

fun held :: "history \<Rightarrow> resource multiset" where
  "held [] = {#}"
| "held (e # h) = held h - released e + acquired e"

fun disciplined :: "history \<Rightarrow> bool" where
  "disciplined [] = True"
| "disciplined (e # h) = (released e \<subseteq># held h \<and> disciplined h)"

text \<open>Events that touch no resource.\<close>

definition neutral :: "event \<Rightarrow> bool" where
  "neutral e = (acquired e = {#} \<and> released e = {#})"

lemma neutral_events [simp]:
  "neutral (EResolve a b)" "neutral (ESetsockopt n o1 a1 b1)" "neutral (EConnect n x ok)" "neutral (ESend n s k)"
  "neutral (ERecv n d)" "neutral (ESslRead d)" "neutral (ESleep n)" "neutral (ERandom u)"
  by (simp_all add: neutral_def)

lemma neutral_Cons [simp]: "neutral e \<Longrightarrow> held (e # h) = held h" "neutral e \<Longrightarrow> disciplined (e # h) = disciplined h"
  by (simp_all add: neutral_def)

section \<open>Triples\<close>

text \<open>
  \<open>triple P p Q E\<close>: from a state in \<open>P\<close>, the program \<open>p\<close>, if it returns, ends
  in \<open>Q x\<close> with a value \<open>x\<close> or in \<open>E\<close> with an exception.
\<close>

definition triple ::
    "('w \<Rightarrow> bool) \<Rightarrow> ('w, 'a) prog \<Rightarrow> ('a \<Rightarrow> 'w \<Rightarrow> bool) \<Rightarrow> (exn \<Rightarrow> 'w \<Rightarrow> bool) \<Rightarrow> bool" where
  "triple P p Q E \<longleftrightarrow>
     (\<forall>w r w'. P w \<longrightarrow> p w = Some (r, w') \<longrightarrow> (case r of Inr x \<Rightarrow> Q x w' | Inl e \<Rightarrow> E e w'))"

lemma tripleI:
  "(\<And>w x w'. P w \<Longrightarrow> p w = Some (Inr x, w') \<Longrightarrow> Q x w') \<Longrightarrow>
   (\<And>w e w'. P w \<Longrightarrow> p w = Some (Inl e, w') \<Longrightarrow> E e w') \<Longrightarrow> triple P p Q E"
  by (auto simp: triple_def split: sum.split)

lemma tripleD:
  "triple P p Q E \<Longrightarrow> P w \<Longrightarrow> p w = Some (Inr x, w') \<Longrightarrow> Q x w'"
  "triple P p Q E \<Longrightarrow> P w \<Longrightarrow> p w = Some (Inl e, w') \<Longrightarrow> E e w'"
  unfolding triple_def by fastforce+

lemma triple_bind:
  assumes "triple P p R E" "\<And>x. triple (R x) (f x) Q E"
  shows "triple P (bindP p f) Q E"
proof (rule tripleI)
  fix w x w' assume P: "P w" and b: "bindP p f w = Some (Inr x, w')"
  show "Q x w'"
    using b
  proof (rule bindP_cases)
    fix y w1 assume "p w = Some (Inr y, w1)" "f y w1 = Some (Inr x, w')"
    then show ?thesis using tripleD(1) [OF assms(1) P] tripleD(1) [OF assms(2)] by blast
  qed simp
next
  fix w e w' assume P: "P w" and b: "bindP p f w = Some (Inl e, w')"
  show "E e w'"
    using b
  proof (rule bindP_cases)
    fix e' assume "p w = Some (Inl e', w')" "Inl e = (Inl e' :: 'c result)"
    then show ?thesis using tripleD(2) [OF assms(1) P] by simp
  next
    fix y w1 assume "p w = Some (Inr y, w1)" "f y w1 = Some (Inl e, w')"
    then show ?thesis using tripleD(1) [OF assms(1) P] tripleD(2) [OF assms(2)] by blast
  qed
qed

lemma triple_ret: "(\<And>w. P w \<Longrightarrow> Q x w) \<Longrightarrow> triple P (ret x) Q E"
  by (auto simp: triple_def prog_basic)

lemma triple_throw: "(\<And>w. P w \<Longrightarrow> E e w) \<Longrightarrow> triple P (throw e) Q E"
  by (auto simp: triple_def prog_basic)

lemma triple_if: "(b \<Longrightarrow> triple P p Q E) \<Longrightarrow> (\<not> b \<Longrightarrow> triple P q Q E) \<Longrightarrow> triple P (if b then p else q) Q E"
  by simp

lemma triple_pre: "triple P' p Q E \<Longrightarrow> (\<And>w. P w \<Longrightarrow> P' w) \<Longrightarrow> triple P p Q E"
  unfolding triple_def by blast

lemma triple_post:
  "triple P p Q' E' \<Longrightarrow> (\<And>x w. Q' x w \<Longrightarrow> Q x w) \<Longrightarrow> (\<And>e w. E' e w \<Longrightarrow> E e w) \<Longrightarrow> triple P p Q E"
  by (rule tripleI) (blast dest: tripleD)+

lemma triple_imp: "(b \<Longrightarrow> triple P p Q E) \<Longrightarrow> triple (\<lambda>w. b \<and> P w) p Q E"
  unfolding triple_def by blast

lemma triple_on_exception:
  assumes "triple P p Q E" "\<And>e w. E e w \<Longrightarrow> catchable e" "\<And>e w. E e w \<Longrightarrow> E' e (h w)"
  shows "triple P (on_exception p h) Q E'"
proof (rule tripleI)
  fix w x w' assume "P w" "on_exception p h w = Some (Inr x, w')"
  then show "Q x w'"
    using tripleD(1) [OF assms(1)] by (auto simp: on_exception_def split: option.splits sum.splits)
next
  fix w e w' assume "P w" "on_exception p h w = Some (Inl e, w')"
  then obtain w1 where "p w = Some (Inl e, w1)" "w' = (if catchable e then h w1 else w1)" "P w"
    by (auto simp: on_exception_def split: option.splits sum.splits)
  then show "E' e w'" using tripleD(2) [OF assms(1)] assms(2,3) by metis
qed

text \<open>Owning exactly the resources \<open>X\<close>, with a clean record.\<close>

definition owns :: "resource multiset \<Rightarrow> history \<Rightarrow> bool" where
  "owns X h = (held h = X \<and> disciplined h)"

lemma owns_neutral [simp]: "neutral e \<Longrightarrow> owns X (e # h) = owns X h"
  by (simp add: owns_def neutral_def)

lemma owns_release:
  "owns (add_mset x X) h \<Longrightarrow> released e = {#x#} \<Longrightarrow> acquired e = {#} \<Longrightarrow> owns X (e # h)"
  by (simp add: owns_def)

lemma owns_acquire: "owns X h \<Longrightarrow> released e = {#} \<Longrightarrow> acquired e = {#x#} \<Longrightarrow> owns (add_mset x X) (e # h)"
  by (simp add: owns_def)

section \<open>A scripted network\<close>

text \<open>
  A concrete environment for examples: every call succeeds, every send accepts at most
  \<open>window\<close> bytes, and the successive reads return the given segments and then a close.
\<close>

definition script_os :: "env \<Rightarrow> nat \<Rightarrow> string list \<Rightarrow> os" where
  "script_os env window segments =
     \<lparr>os_tls_built = True, os_env = env, os_files = (\<lambda>_. None),
      os_resolve = (\<lambda>h host port. Inr [0]), os_socket = (\<lambda>h ai. 3 + int (length h)),
      os_connect = (\<lambda>h fd ai. True),
      os_send = (\<lambda>h fd d. int (min window (length d))),
      os_recv = (\<lambda>h fd n. let k = length (filter (\<lambda>e. case e of ERecv _ _ \<Rightarrow> True | _ \<Rightarrow> False) h)
                           in if k < length segments then Some (segments ! k) else Some []),
      os_tls = (\<lambda>h call. case call of Ssl_write d k \<Rightarrow> int (min window (length d)) | _ \<Rightarrow> 1), os_ssl_read = (\<lambda>h ssl n. Some []), os_err_text = (\<lambda>_. []),
      os_random = (\<lambda>h. Fin (1 / 2))\<rparr>"

end
