(* ===== verification/Http_Transport.thy ===== *)
theory Http_Transport
  imports Http_Framing Os_World
begin

text \<open>
  The transport of \<open>src/KserveHttpClient.cpp\<close>: sockets, TLS, the framed reader, the keep-alive
  connection and one round trip. All of it runs over the history of \<open>Os_World\<close>.
\<close>

section \<open>Connecting\<close>

text \<open>C++ division and remainder, toward zero.\<close>

definition cdiv :: "int \<Rightarrow> int \<Rightarrow> int" where
  "cdiv a b = sgn a * (\<bar>a\<bar> div b)"

definition cmod :: "int \<Rightarrow> int \<Rightarrow> int" where
  "cmod a b = a - cdiv a b * b"

definition setTimeout :: "int \<Rightarrow> int \<Rightarrow> history \<Rightarrow> history" where
  "setTimeout fd timeout_ms h =
     (let tv_sec = cdiv timeout_ms 1000; tv_usec = cmod timeout_ms 1000 * 1000
      in ESetsockopt fd ''SO_SNDTIMEO'' tv_sec tv_usec # ESetsockopt fd ''SO_RCVTIMEO'' tv_sec tv_usec # h)"

text \<open>The loop over the resolved addresses; the result is the final \<open>fd\<close>.\<close>

fun try_addresses :: "os \<Rightarrow> int \<Rightarrow> addr list \<Rightarrow> int \<Rightarrow> history \<Rightarrow> int \<times> history" where
  "try_addresses os timeout_ms [] fd h = (fd, h)"
| "try_addresses os timeout_ms (ai # rest) _ h =
     (let fd = os_socket os h ai; h1 = ESocket fd # h
      in if fd < 0 then try_addresses os timeout_ms rest fd h1
         else
           let h2 = setTimeout fd timeout_ms h1;
               ok = os_connect os h2 fd ai; h3 = EConnect fd ai ok # h2
           in if ok then (fd, h3)
              else try_addresses os timeout_ms rest (- 1) (EClose fd # h3))"

text \<open>What a C function reads of a string it gets by \<open>c_str()\<close>.\<close>

definition c_str :: "string \<Rightarrow> string" where
  "c_str s = takeWhile (\<lambda>c. c \<noteq> CHR 0x00) s"

definition connectSocket :: "os \<Rightarrow> string \<Rightarrow> int \<Rightarrow> int \<Rightarrow> (history, int) prog" where
  "connectSocket os host port timeout_ms h =
     (let h1 = EResolve (c_str host) (string_of_int port) # h
      in case os_resolve os h (c_str host) (string_of_int port) of
           Inl text \<Rightarrow> throw (Runtime_error (''host resolution failed: '' @ host @ '': '' @ text)) h1
         | Inr addrs \<Rightarrow>
             (case try_addresses os timeout_ms addrs (- 1) h1 of
                (fd, h2) \<Rightarrow>
                  if fd < 0 then
                    throw (Runtime_error (''connect failed to '' @ host @ '':'' @ string_of_int port)) h2
                  else ret fd h2))"

section \<open>Connections\<close>

text \<open>
  The two implementations of \<open>Connection\<close>: a plain socket, and a socket with its
  \<open>SSL_CTX\<close> and \<open>SSL\<close>.
\<close>

datatype Connection = PlainConnection int | TlsConnection int int int

definition plain_close :: "int \<Rightarrow> history \<Rightarrow> history" where
  "plain_close fd h = (if 0 \<le> fd then EClose fd # h else h)"

definition tls_cleanup :: "int \<Rightarrow> int \<Rightarrow> int \<Rightarrow> history \<Rightarrow> history" where
  "tls_cleanup fd ctx ssl h =
     (let h1 = (if ssl \<noteq> 0 then ETls (Ssl_free ssl) 0 # ETls Ssl_shutdown 0 # h else h);
          h2 = (if ctx \<noteq> 0 then ETls (Ctx_free ctx) 0 # h1 else h1)
      in if 0 \<le> fd then EClose fd # h2 else h2)"

fun destroy :: "Connection \<Rightarrow> history \<Rightarrow> history" where
  "destroy (PlainConnection fd) h = plain_close fd h"
| "destroy (TlsConnection fd ctx ssl) h = tls_cleanup fd ctx ssl h"

declare plain_close_def [simp] tls_cleanup_def [simp]

function plain_send :: "os \<Rightarrow> int \<Rightarrow> string \<Rightarrow> nat \<Rightarrow> history \<Rightarrow> unit result \<times> history" where
  "plain_send os fd data sent h =
     (if sent < length data then
        let n = os_send os h fd (drop sent data); h1 = ESend fd (drop sent data) n # h
        in if n \<le> 0 then (Inl (Runtime_error ''HTTP send failed''), h1)
           else plain_send os fd data (sent + nat n) h1
      else (Inr (), h))"
  by pat_completeness auto
termination
  by (relation "measure (\<lambda>(os, fd, data, sent, h). length data - sent)") auto

declare plain_send.simps [simp del]

text \<open>\<open>static_cast<int>\<close> of a \<open>std::size_t\<close>.\<close>

definition int_of_size :: "nat \<Rightarrow> int" where
  "int_of_size n = (int n + 2 ^ 31) mod 2 ^ 32 - 2 ^ 31"

function tls_send :: "os \<Rightarrow> string \<Rightarrow> nat \<Rightarrow> history \<Rightarrow> unit result \<times> history" where
  "tls_send os data sent h =
     (if sent < length data then
        let call = Ssl_write (drop sent data) (int_of_size (length data - sent));
            n = os_tls os h call; h1 = ETls call n # h
        in if n \<le> 0 then (Inl (Runtime_error ''TLS send failed''), h1)
           else tls_send os data (sent + nat n) h1
      else (Inr (), h))"
  by pat_completeness auto
termination
  by (relation "measure (\<lambda>(os, data, sent, h). length data - sent)") auto

declare tls_send.simps [simp del]

fun sendAll :: "os \<Rightarrow> Connection \<Rightarrow> string \<Rightarrow> (history, unit) prog" where
  "sendAll os (PlainConnection fd) data h = Some (plain_send os fd data 0 h)"
| "sendAll os (TlsConnection fd ctx ssl) data h = Some (tls_send os data 0 h)"

text \<open>
  \<open>recvSome\<close>: \<open>None\<close> for a negative return. The TLS variant turns a failed read into a
  closed connection.
\<close>

definition plain_recv :: "os \<Rightarrow> int \<Rightarrow> nat \<Rightarrow> history \<Rightarrow> string option \<times> history" where
  "plain_recv os fd buf_size h = (let d = os_recv os h fd buf_size in (d, ERecv fd d # h))"

definition tls_recv :: "os \<Rightarrow> int \<Rightarrow> nat \<Rightarrow> history \<Rightarrow> string option \<times> history" where
  "tls_recv os ssl buf_size h =
     (let d = os_ssl_read os h ssl (int_of_size buf_size)
      in (Some (case d of None \<Rightarrow> [] | Some s \<Rightarrow> s), ESslRead d # h))"

fun recvSome :: "os \<Rightarrow> Connection \<Rightarrow> nat \<Rightarrow> history \<Rightarrow> string option \<times> history" where
  "recvSome os (PlainConnection fd) buf_size h = plain_recv os fd buf_size h"
| "recvSome os (TlsConnection fd ctx ssl) buf_size h = tls_recv os ssl buf_size h"

declare plain_recv_def [simp] tls_recv_def [simp]

section \<open>The TLS handshake\<close>

text \<open>\<open>TlsConnection::fail\<close>: the OpenSSL error text, the clean-up, the exception.\<close>

definition tls_fail :: "os \<Rightarrow> int \<Rightarrow> int \<Rightarrow> int \<Rightarrow> string \<Rightarrow> (history, 'a) prog" where
  "tls_fail os fd ctx ssl what h =
     (let err = os_tls os h Err_get_error;
          message = ''KServe TLS: '' @ what @ (if err \<noteq> 0 then '': '' @ os_err_text os err else [])
      in throw (Runtime_error message) (tls_cleanup fd ctx ssl (ETls Err_get_error err # h)))"

definition tls_do :: "os \<Rightarrow> tls_call \<Rightarrow> (history, int) prog" where
  "tls_do os call h = (let r = os_tls os h call in ret r (ETls call r # h))"

definition tls_load_roots :: "os \<Rightarrow> int \<Rightarrow> int \<Rightarrow> (history, unit) prog" where
  "tls_load_roots os fd ctx =
     (case os_env os ''KSERVE_CA_CERT'' of
        Some (c # ca_path) \<Rightarrow>
          bindP (tls_do os (Load_verify_locations (c # ca_path))) (\<lambda>r.
            if r \<noteq> 1 then tls_fail os fd ctx 0 ''failed to load CA file named by KSERVE_CA_CERT'' else ret ())
      | _ \<Rightarrow>
          bindP (tls_do os Set_default_verify_paths) (\<lambda>r.
            if r \<noteq> 1 then tls_fail os fd ctx 0 ''failed to load system CA roots'' else ret ()))"

definition tls_new :: "os \<Rightarrow> int \<Rightarrow> string \<Rightarrow> (history, Connection) prog" where
  "tls_new os fd host =
     bindP (tls_do os Ctx_new) (\<lambda>ctx.
     if ctx = 0 then tls_fail os fd ctx 0 ''SSL_CTX_new failed''
     else
       bindP (tls_do os Set_min_proto_tls12) (\<lambda>_.
       bindP (tls_do os Set_verify_peer) (\<lambda>_.
       bindP (tls_load_roots os fd ctx) (\<lambda>_.
       bindP (tls_do os Ssl_new) (\<lambda>ssl.
       if ssl = 0 then tls_fail os fd ctx ssl ''SSL_new failed''
       else
         bindP (tls_do os (Set_fd fd)) (\<lambda>_.
         bindP (tls_do os (Set_sni (c_str host))) (\<lambda>_.
         bindP (tls_do os Set_hostflags) (\<lambda>_.
         bindP (tls_do os (Set1_host host)) (\<lambda>r.
         if r \<noteq> 1 then tls_fail os fd ctx ssl ''failed to set expected TLS hostname''
         else
           bindP (tls_do os Ssl_connect) (\<lambda>r.
           if r \<noteq> 1 then tls_fail os fd ctx ssl ''TLS handshake failed''
           else ret (TlsConnection fd ctx ssl)))))))))))"

definition connect :: "os \<Rightarrow> Endpoint \<Rightarrow> int \<Rightarrow> (history, Connection) prog" where
  "connect os ep timeout_ms =
     bindP (connectSocket os (ep_host ep) (ep_port ep) timeout_ms) (\<lambda>fd.
       if ep_tls ep then
         if os_tls_built os then tls_new os fd (ep_host ep)
         else (\<lambda>h. throw (Runtime_error (''KServe https:// endpoint requested but the client was built ''
                @ ''without TLS support (rebuild with OpenSSL / -DKSERVE_CLIENT_ENABLE_TLS=ON)'')) (EClose fd # h))
       else ret (PlainConnection fd))"

section \<open>The framed reader\<close>

text \<open>The loop of \<open>readFramed\<close>: what has been read, and whether the peer closed.\<close>

partial_function (option) read_loop ::
    "os \<Rightarrow> Connection \<Rightarrow> string \<Rightarrow> history \<Rightarrow> ((string \<times> bool) result \<times> history) option" where
  "read_loop os c raw h =
     (if messageComplete raw then Some (Inr (raw, False), h)
      else
        (case recvSome os c 4096 h of
           (None, h1) \<Rightarrow> Some (Inl (Runtime_error ''HTTP recv failed''), h1)
         | (Some d, h1) \<Rightarrow>
             if d = [] then Some (Inr (raw, True), h1) else read_loop os c (raw @ d) h1))"

declare read_loop.simps [code]

definition readFramed :: "os \<Rightarrow> Connection \<Rightarrow> (history, string \<times> bool) prog" where
  "readFramed os c =
     bindP (read_loop os c []) (\<lambda>(raw, server_closed).
       if raw = [] then throw (Runtime_error ''HTTP read failed: empty response'')
       else ret (raw, server_closed))"

section \<open>The keep-alive connection\<close>

record HttpConnection =
  hc_transport :: "Connection option"
  hc_host :: string
  hc_port :: int
  hc_tls :: bool

definition new_connection :: HttpConnection where
  "new_connection = \<lparr>hc_transport = None, hc_host = [], hc_port = 0, hc_tls = False\<rparr>"

type_synonym http_state = "HttpConnection \<times> history"

definition drop_connection :: "http_state \<Rightarrow> http_state" where
  "drop_connection s =
     (case s of (conn, h) \<Rightarrow>
        (new_connection, case hc_transport conn of None \<Rightarrow> h | Some c \<Rightarrow> destroy c h))"

text \<open>Runs a program of the transport inside a client state.\<close>

definition on_history :: "(history, 'a) prog \<Rightarrow> (http_state, 'a) prog" where
  "on_history p s =
     (case s of (conn, h) \<Rightarrow> map_option (\<lambda>(r, h1). (r, (conn, h1))) (p h))"

definition ensureConnected :: "os \<Rightarrow> Endpoint \<Rightarrow> int \<Rightarrow> (http_state, Connection) prog" where
  "ensureConnected os ep timeout_ms s =
     (let conn = fst s
      in if hc_transport conn \<noteq> None \<and> hc_host conn = ep_host ep \<and> hc_port conn = ep_port ep \<and>
            hc_tls conn = ep_tls ep
         then ret (the (hc_transport conn)) s
         else
           bindP (on_history (connect os ep timeout_ms)) (\<lambda>c (conn1, h).
             ret c (\<lparr>hc_transport = Some c, hc_host = ep_host ep, hc_port = ep_port ep, hc_tls = ep_tls ep\<rparr>, h))
           (drop_connection s))"

text \<open>\<open>parseHttpResponse\<close> may not return.\<close>

definition parse_prog :: "string \<Rightarrow> ('w, HttpResponse) prog" where
  "parse_prog raw w = map_option (\<lambda>r. (r, w)) (parseHttpResponse raw)"

definition roundTrip :: "os \<Rightarrow> Endpoint \<Rightarrow> string \<Rightarrow> int \<Rightarrow> (http_state, HttpResponse) prog" where
  "roundTrip os ep request timeout_ms =
     on_exception
       (bindP (ensureConnected os ep timeout_ms) (\<lambda>transport.
        bindP (on_history (sendAll os transport request)) (\<lambda>_.
        bindP (on_history (readFramed os transport)) (\<lambda>(raw, server_closed).
        bindP (parse_prog raw) (\<lambda>response s.
          ret response (if server_closed \<or> wantsClose raw then drop_connection s else s))))))
       drop_connection"

section \<open>Retried requests\<close>

definition defaultSleep :: "int \<Rightarrow> http_state \<Rightarrow> http_state" where
  "defaultSleep ms s = (if 0 < ms then (fst s, ESleep ms # snd s) else s)"

definition defaultJitter :: "os \<Rightarrow> http_state \<Rightarrow> double \<times> http_state" where
  "defaultJitter os s = (let u = os_random os (snd s) in (u, (fst s, ERandom u # snd s)))"

definition withRetry ::
    "os \<Rightarrow> RetryPolicy \<Rightarrow> (http_state, HttpResponse) prog \<Rightarrow> (http_state, HttpResponse) prog" where
  "withRetry os policy attempt =
     runWithRetry policy attempt (\<lambda>r. isRetryableHttpStatus (hr_status r)) defaultSleep (defaultJitter os)"

section \<open>Resources\<close>

definition resources :: "Connection \<Rightarrow> resource multiset" where
  "resources c =
     (case c of PlainConnection fd \<Rightarrow> {#Fd fd#} | TlsConnection fd ctx ssl \<Rightarrow> {#Fd fd, Ctx ctx, Ssl ssl#})"

definition live :: "Connection \<Rightarrow> bool" where
  "live c =
     (case c of PlainConnection fd \<Rightarrow> 0 \<le> fd | TlsConnection fd ctx ssl \<Rightarrow> 0 \<le> fd \<and> ctx \<noteq> 0 \<and> ssl \<noteq> 0)"

lemma neutral_tls [simp]:
  "neutral (ETls Set_min_proto_tls12 r)" "neutral (ETls Set_verify_peer r)" "neutral (ETls (Load_verify_locations f) r)"
  "neutral (ETls Set_default_verify_paths r)" "neutral (ETls (Set_fd n) r)" "neutral (ETls (Set_sni s) r)"
  "neutral (ETls Set_hostflags r)" "neutral (ETls (Set1_host s) r)" "neutral (ETls Ssl_connect r)"
  "neutral (ETls Err_get_error r)" "neutral (ETls Ssl_shutdown r)" "neutral (ETls (Ssl_write s n) r)"
  by (simp_all add: neutral_def)

lemma owns_setTimeout [simp]: "owns X (setTimeout fd t h) = owns X h"
  by (simp add: setTimeout_def Let_def)

lemma try_addresses_owns:
  assumes "fd < 0" "owns X h" "try_addresses os t addrs fd h = (fd', h')"
  shows "owns (if 0 \<le> fd' then add_mset (Fd fd') X else X) h'"
  using assms
proof (induction addrs arbitrary: fd h)
  case (Cons ai rest)
  let ?fd = "os_socket os h ai"
  show ?case
  proof (cases "?fd < 0")
    case True
    have "owns X (ESocket ?fd # h)" using Cons.prems(2) True by (simp add: owns_def)
    then show ?thesis using Cons.IH [OF True] Cons.prems(3) True by (simp add: Let_def)
  next
    case False
    define h3 where "h3 = (let h2 = setTimeout ?fd t (ESocket ?fd # h)
      in EConnect ?fd ai (os_connect os h2 ?fd ai) # h2)"
    have "owns (add_mset (Fd ?fd) X) (ESocket ?fd # h)"
      using Cons.prems(2) False by (intro owns_acquire) simp_all
    then have o3: "owns (add_mset (Fd ?fd) X) h3" by (simp add: h3_def Let_def)
    then have o4: "owns X (EClose ?fd # h3)" by (rule owns_release) simp_all
    show ?thesis
    proof (cases "os_connect os (setTimeout ?fd t (ESocket ?fd # h)) ?fd ai")
      case True
      then have "fd' = ?fd" "h' = h3" using Cons.prems(3) False by (auto simp: Let_def h3_def)
      then show ?thesis using False o3 by simp
    next
      case f: False
      then have "try_addresses os t rest (- 1) (EClose ?fd # h3) = (fd', h')"
        using Cons.prems(3) False by (simp add: Let_def h3_def)
      then show ?thesis using Cons.IH [OF _ o4, of "- 1"] by simp
    qed
  qed
qed simp

lemma connectSocket_owns:
  "triple (owns X) (connectSocket os host port t) (\<lambda>fd h. 0 \<le> fd \<and> owns (add_mset (Fd fd) X) h) (\<lambda>e h. catchable e \<and> owns X h)"
proof (rule tripleI)
  fix h fd h' assume o: "owns X h" and r: "connectSocket os host port t h = Some (Inr fd, h')"
  obtain addrs where "os_resolve os h (c_str host) (string_of_int port) = Inr addrs"
    using r by (cases "os_resolve os h (c_str host) (string_of_int port)") (auto simp: connectSocket_def prog_simps)
  moreover obtain fd1 h1 where t: "try_addresses os t addrs (- 1) (EResolve (c_str host) (string_of_int port) # h) = (fd1, h1)"
    by fastforce
  ultimately have "fd1 = fd" "h1 = h'" "0 \<le> fd"
    using r by (auto simp: connectSocket_def prog_simps Let_def split: if_splits)
  then show "0 \<le> fd \<and> owns (add_mset (Fd fd) X) h'" using try_addresses_owns [OF _ _ t] o by simp
next
  fix h e h' assume o: "owns X h" and r: "connectSocket os host port t h = Some (Inl e, h')"
  show "catchable e \<and> owns X h'"
  proof (cases "os_resolve os h (c_str host) (string_of_int port)")
    case (Inl msg)
    then show ?thesis using o r by (auto simp: connectSocket_def prog_simps Let_def)
  next
    case (Inr addrs)
    obtain fd1 h1 where t: "try_addresses os t addrs (- 1) (EResolve (c_str host) (string_of_int port) # h) = (fd1, h1)"
      by fastforce
    then have "fd1 < 0" "h1 = h'" "catchable e"
      using r Inr by (auto simp: connectSocket_def prog_simps Let_def split: if_splits)
    then show ?thesis using try_addresses_owns [OF _ _ t] o by simp
  qed
qed

text \<open>What a partly built TLS connection holds.\<close>

definition tls_parts :: "int \<Rightarrow> int \<Rightarrow> int \<Rightarrow> resource multiset" where
  "tls_parts fd ctx ssl =
     {#Fd fd#} + (if ctx \<noteq> 0 then {#Ctx ctx#} else {#}) + (if ssl \<noteq> 0 then {#Ssl ssl#} else {#})"

lemma destroy_tls_owns:
  assumes "0 \<le> fd" "owns (X + tls_parts fd ctx ssl) h"
  shows "owns X (destroy (TlsConnection fd ctx ssl) h)"
proof -
  let ?C = "if ctx \<noteq> 0 then {#Ctx ctx#} else {#}"
  define h1 where "h1 = (if ssl \<noteq> 0 then ETls (Ssl_free ssl) 0 # ETls Ssl_shutdown 0 # h else h)"
  define h2 where "h2 = (if ctx \<noteq> 0 then ETls (Ctx_free ctx) 0 # h1 else h1)"
  have "owns (X + {#Fd fd#} + ?C) h1"
  proof (cases "ssl = 0")
    case True
    then show ?thesis using assms(2) by (simp add: h1_def tls_parts_def add.assoc)
  next
    case False
    then have "owns (add_mset (Ssl ssl) (X + {#Fd fd#} + ?C)) (ETls Ssl_shutdown 0 # h)"
      using assms(2) by (simp add: tls_parts_def)
    then have "owns (X + {#Fd fd#} + ?C) (ETls (Ssl_free ssl) 0 # ETls Ssl_shutdown 0 # h)"
      by (rule owns_release) simp_all
    then show ?thesis using False by (simp add: h1_def)
  qed
  then have "owns (add_mset (Fd fd) X) h2"
    using owns_release [of "Ctx ctx" "add_mset (Fd fd) X" h1 "ETls (Ctx_free ctx) 0"]
    by (cases "ctx = 0") (simp_all add: h2_def add_mset_commute)
  then have "owns X (EClose fd # h2)" by (rule owns_release) simp_all
  moreover have "destroy (TlsConnection fd ctx ssl) h = EClose fd # h2"
    using assms(1) by (simp add: h1_def h2_def Let_def)
  ultimately show ?thesis by simp
qed

lemma destroy_owns: "live c \<Longrightarrow> owns (X + resources c) h \<Longrightarrow> owns X (destroy c h)"
proof (cases c)
  case (PlainConnection fd)
  moreover assume "live c" "owns (X + resources c) h"
  ultimately show ?thesis by (auto simp: live_def resources_def intro: owns_release)
next
  case (TlsConnection fd ctx ssl)
  moreover assume "live c" "owns (X + resources c) h"
  ultimately show ?thesis
    using destroy_tls_owns [of fd X ctx ssl h] by (simp add: live_def resources_def tls_parts_def add_mset_commute)
qed

text \<open>The TLS handshake keeps everything on success and releases everything on failure.\<close>

lemma tls_do_neutral:
  assumes "\<And>r. neutral (ETls call r)"
  shows "triple (owns X) (tls_do os call) (\<lambda>_. owns X) E"
  using assms by (auto simp: triple_def tls_do_def prog_simps Let_def)

lemma tls_fail_owns:
  assumes "0 \<le> fd"
  shows "triple (owns (X + tls_parts fd ctx ssl)) (tls_fail os fd ctx ssl what) Q (\<lambda>e h. catchable e \<and> owns X h)"
proof (rule tripleI)
  fix h e h' assume o: "owns (X + tls_parts fd ctx ssl) h" and r: "tls_fail os fd ctx ssl what h = Some (Inl e, h')"
  have "h' = destroy (TlsConnection fd ctx ssl) (ETls Err_get_error (os_tls os h Err_get_error) # h)" "catchable e"
    using r by (auto simp: tls_fail_def prog_simps Let_def)
  then show "catchable e \<and> owns X h'" using destroy_tls_owns [OF assms] o by simp
qed (auto simp: tls_fail_def prog_simps Let_def)

lemma tls_check:
  assumes "0 \<le> fd" "\<And>r. neutral (ETls call r)"
    and "\<And>r. triple (owns (X + tls_parts fd ctx ssl)) (f r) Q (\<lambda>e h. catchable e \<and> owns X h)"
  shows "triple (owns (X + tls_parts fd ctx ssl))
    (bindP (tls_do os call) (\<lambda>r. if r \<noteq> 1 then tls_fail os fd ctx ssl what else f r))
    Q (\<lambda>e h. catchable e \<and> owns X h)"
  by (rule triple_bind [OF tls_do_neutral [OF assms(2)]]) (intro triple_if tls_fail_owns assms(1,3))

lemma tls_load_roots_owns:
  assumes "0 \<le> fd"
  shows "triple (owns (X + tls_parts fd ctx 0)) (tls_load_roots os fd ctx)
    (\<lambda>_. owns (X + tls_parts fd ctx 0)) (\<lambda>e h. catchable e \<and> owns X h)"
proof (cases "\<exists>c ca_path. os_env os ''KSERVE_CA_CERT'' = Some (c # ca_path)")
  case True
  then obtain c ca_path where e: "os_env os ''KSERVE_CA_CERT'' = Some (c # ca_path)" by blast
  show ?thesis unfolding tls_load_roots_def e option.case list.case
    by (rule tls_check [OF assms]) (rule neutral_tls, rule triple_ret)
next
  case False
  then have "tls_load_roots os fd ctx = bindP (tls_do os Set_default_verify_paths) (\<lambda>r.
      if r \<noteq> 1 then tls_fail os fd ctx 0 ''failed to load system CA roots'' else ret ())"
    by (auto simp: tls_load_roots_def split: option.split list.split)
  then show ?thesis
    by (simp only:) (rule tls_check [OF assms], rule neutral_tls, rule triple_ret)
qed

lemma tls_new_object:
  assumes "call = Ctx_new \<and> R = (\<lambda>r. if r \<noteq> 0 then {#Ctx r#} else {#}) \<or>
    call = Ssl_new \<and> R = (\<lambda>r. if r \<noteq> 0 then {#Ssl r#} else {#})"
  shows "triple (owns Y) (tls_do os call) (\<lambda>r. owns (Y + R r)) E"
proof (rule tripleI)
  fix h r h' assume o: "owns Y h" and r: "tls_do os call h = Some (Inr r, h')"
  have h': "h' = ETls call r # h" using r by (auto simp: tls_do_def prog_simps Let_def)
  show "owns (Y + R r) h'" using assms o unfolding h' owns_def by auto
qed (auto simp: tls_do_def prog_simps Let_def)

lemma tls_new_owns:
  assumes "0 \<le> fd"
  shows "triple (owns (X + {#Fd fd#})) (tls_new os fd host)
    (\<lambda>c h. live c \<and> owns (X + resources c) h) (\<lambda>e h. catchable e \<and> owns X h)"
proof -
  let ?E = "\<lambda>e h. catchable e \<and> owns X h"
  have seq: "triple (owns Y) (bindP (tls_do os call) (\<lambda>_. p)) Q ?E"
    if "triple (owns Y) p Q ?E" "\<And>r. neutral (ETls call r)" for Y call p and Q :: "Connection \<Rightarrow> history \<Rightarrow> bool"
    by (rule triple_bind [OF tls_do_neutral [OF that(2)] that(1)])
  have ctx: "X + {#Fd fd#} + (if r \<noteq> 0 then {#Ctx r#} else {#}) = X + tls_parts fd r 0" for r
    by (simp add: tls_parts_def)
  have ssl: "X + tls_parts fd ctx 0 + (if r \<noteq> 0 then {#Ssl r#} else {#}) = X + tls_parts fd ctx r" for ctx r
    by (simp add: tls_parts_def add_mset_commute)
  have fin: "owns (X + tls_parts fd ctx ssl) h \<Longrightarrow> ctx \<noteq> 0 \<Longrightarrow> ssl \<noteq> 0 \<Longrightarrow>
      live (TlsConnection fd ctx ssl) \<and> owns (X + resources (TlsConnection fd ctx ssl)) h" for ctx ssl h
    using assms by (simp add: live_def resources_def tls_parts_def add_mset_commute)
  show ?thesis
    unfolding tls_new_def
    apply (rule triple_bind [OF tls_new_object], (rule disjI1, rule conjI, rule refl, rule refl), unfold ctx)
    apply (rule triple_if)
     apply (rule tls_fail_owns [OF assms])
    apply (rule seq, rule seq, rule triple_bind [OF tls_load_roots_owns [OF assms]])
      apply (rule triple_bind [OF tls_new_object], (rule disjI2, rule conjI, rule refl, rule refl), unfold ssl)
      apply (rule triple_if)
       apply (rule tls_fail_owns [OF assms])
      apply ((rule seq)+, (rule tls_check [OF assms], rule neutral_tls)+)
         apply (rule triple_ret, rule fin, assumption+)
        apply (rule neutral_tls)+
    done
qed

lemma connect_owns:
  "triple (owns X) (connect os ep t) (\<lambda>c h. live c \<and> owns (X + resources c) h) (\<lambda>e h. catchable e \<and> owns X h)"
  unfolding connect_def
proof (rule triple_bind [OF connectSocket_owns], rule triple_imp)
  fix fd :: int assume fd: "0 \<le> fd"
  show "triple (owns (add_mset (Fd fd) X))
      (if ep_tls ep then
         if os_tls_built os then tls_new os fd (ep_host ep)
         else (\<lambda>h. throw (Runtime_error (''KServe https:// endpoint requested but the client was built ''
                @ ''without TLS support (rebuild with OpenSSL / -DKSERVE_CLIENT_ENABLE_TLS=ON)'')) (EClose fd # h))
       else ret (PlainConnection fd))
      (\<lambda>c h. live c \<and> owns (X + resources c) h) (\<lambda>e h. catchable e \<and> owns X h)"
  proof (intro triple_if)
    show "triple (owns (add_mset (Fd fd) X)) (tls_new os fd (ep_host ep))
        (\<lambda>c h. live c \<and> owns (X + resources c) h) (\<lambda>e h. catchable e \<and> owns X h)"
      using tls_new_owns [OF fd] by simp
  next
    show "triple (owns (add_mset (Fd fd) X)) (ret (PlainConnection fd))
        (\<lambda>c h. live c \<and> owns (X + resources c) h) (\<lambda>e h. catchable e \<and> owns X h)"
      using fd by (intro triple_ret) (simp add: live_def resources_def)
  qed (auto simp: triple_def prog_simps intro: owns_release)
qed

text \<open>Sending and receiving touch no resource.\<close>

lemma plain_send_owns:
  "owns X (snd (plain_send os fd data sent h)) = owns X h" "fst (plain_send os fd data sent h) = Inl e \<Longrightarrow> catchable e"
proof (induction os fd data sent h rule: plain_send.induct)
  case (1 os fd data sent h)
  {
    case 1
    show ?case using "1.IH"(1) by (subst plain_send.simps) (auto simp: Let_def)
  next
    case 2
    then show ?case using "1.IH"(2) by (subst (asm) plain_send.simps) (auto simp: Let_def split: if_splits)
  }
qed

lemma tls_send_owns:
  "owns X (snd (tls_send os data sent h)) = owns X h" "fst (tls_send os data sent h) = Inl e \<Longrightarrow> catchable e"
proof (induction os data sent h rule: tls_send.induct)
  case (1 os data sent h)
  {
    case 1
    show ?case using "1.IH"(1) by (subst tls_send.simps) (auto simp: Let_def)
  next
    case 2
    then show ?case using "1.IH"(2) by (subst (asm) tls_send.simps) (auto simp: Let_def split: if_splits)
  }
qed

lemma sendAll_owns: "triple (owns X) (sendAll os c data) (\<lambda>_. owns X) (\<lambda>e h. catchable e \<and> owns X h)"
proof (cases c)
  case (PlainConnection fd)
  then show ?thesis
    using plain_send_owns by (intro tripleI) (simp_all, (metis fst_conv snd_conv)+)
next
  case (TlsConnection fd ctx ssl)
  then show ?thesis
    using tls_send_owns by (intro tripleI) (simp_all, (metis fst_conv snd_conv)+)
qed

lemma recvSome_owns: "recvSome os c n h = (d, h') \<Longrightarrow> owns X h' = owns X h"
  by (cases c) (auto simp: Let_def)

lemma read_loop_owns:
  assumes "read_loop os c raw h = Some z" "owns X h"
  shows "owns X (snd z) \<and> (case fst z of Inl e \<Rightarrow> catchable e | Inr _ \<Rightarrow> True)"
  using assms
proof (induction os c raw h z rule: read_loop.raw_induct [rotated, consumes 1, case_names step])
  case (step loop os c raw h z)
  show ?case
  proof (cases "messageComplete raw")
    case True
    then show ?thesis using step.hyps step.prems by auto
  next
    case False
    obtain d h1 where d: "recvSome os c 4096 h = (d, h1)" by fastforce
    then have o: "owns X h1" using recvSome_owns [OF d] step.prems by simp
    show ?thesis
    proof (cases "d = None \<or> d = Some []")
      case True
      then show ?thesis using step.hyps False d o by auto
    next
      case f: False
      then obtain s where s: "d = Some s" "s \<noteq> []" by auto
      then have "loop os c (raw @ s) h1 = Some z" using step.hyps False d by simp
      then show ?thesis using step.IH o by blast
    qed
  qed
qed

lemma readFramed_owns: "triple (owns X) (readFramed os c) (\<lambda>_. owns X) (\<lambda>e h. catchable e \<and> owns X h)"
  unfolding readFramed_def
proof (rule triple_bind)
  show "triple (owns X) (read_loop os c []) (\<lambda>_. owns X) (\<lambda>e h. catchable e \<and> owns X h)"
    by (rule tripleI) (auto dest: read_loop_owns)
qed (auto intro!: triple_if triple_throw triple_ret split: prod.split)

lemma dechunk_catchable:
  assumes "dechunk body pos decoded = Some r" "r = Inl e"
  shows "catchable e"
  using assms
  by (induction body pos decoded r rule: dechunk.raw_induct [rotated, consumes 1])
    (auto split: if_splits option.splits)

lemma parse_catchable:
  assumes "parseHttpResponse raw = Some (Inl e)"
  shows "catchable e"
proof -
  have d: "dechunk b 0 [] = Some z \<Longrightarrow> bindR z (\<lambda>d. Inr (f d)) = Inl e \<Longrightarrow> catchable e"
    for b z and f :: "string \<Rightarrow> HttpResponse"
    using dechunk_catchable [of b 0 "[]" z e] by (auto simp: bindR_eq_Inl)
  show ?thesis
    using assms unfolding parseHttpResponse_def Let_def
    by (auto split: option.splits sum.splits if_splits dest: stoi_catchable intro: d)
qed

section \<open>The state of a client's connection\<close>

text \<open>The client holds exactly what its live transport holds.\<close>

definition accounted :: "http_state \<Rightarrow> bool" where
  "accounted s =
     (case hc_transport (fst s) of
        None \<Rightarrow> owns {#} (snd s)
      | Some c \<Rightarrow> live c \<and> owns (resources c) (snd s))"

definition connected :: "Connection \<Rightarrow> http_state \<Rightarrow> bool" where
  "connected c s = (hc_transport (fst s) = Some c \<and> live c \<and> owns (resources c) (snd s))"

lemma connected_accounted: "connected c s \<Longrightarrow> accounted s"
  by (simp add: connected_def accounted_def)

lemma drop_accounted: "accounted s \<Longrightarrow> accounted (drop_connection s) \<and> hc_transport (fst (drop_connection s)) = None"
  using destroy_owns [of _ "{#}"]
  by (auto simp: accounted_def drop_connection_def new_connection_def split: prod.split option.split)

lemma on_history_connected:
  assumes "\<And>X. triple (owns X) p (\<lambda>_. owns X) (\<lambda>e h. catchable e \<and> owns X h)"
  shows "triple (connected c) (on_history p) (\<lambda>_. connected c) (\<lambda>e s. catchable e \<and> accounted s)"
  by (rule tripleI)
    (auto simp: on_history_def connected_def accounted_def split: prod.splits dest: tripleD [OF assms])

lemma ensureConnected_spec:
  "triple accounted (ensureConnected os ep t) connected (\<lambda>e s. catchable e \<and> accounted s)"
proof (rule tripleI)
  fix s c s' assume a: "accounted s" and r: "ensureConnected os ep t s = Some (Inr c, s')"
  show "connected c s'"
  proof (cases "hc_transport (fst s) \<noteq> None \<and> hc_host (fst s) = ep_host ep \<and> hc_port (fst s) = ep_port ep \<and> hc_tls (fst s) = ep_tls ep")
    case True
    then show ?thesis using a r by (auto simp: ensureConnected_def prog_simps accounted_def connected_def)
  next
    case False
    obtain d h where d: "drop_connection s = (d, h)" by fastforce
    have "owns {#} h" using drop_accounted [OF a] d by (auto simp: accounted_def)
    moreover have "bindP (on_history (connect os ep t)) (\<lambda>c (conn1, h).
             ret c (\<lparr>hc_transport = Some c, hc_host = ep_host ep, hc_port = ep_port ep, hc_tls = ep_tls ep\<rparr>, h)) (d, h)
        = Some (Inr c, s')"
      using r False d by (auto simp: ensureConnected_def Let_def)
    then obtain h1 where "connect os ep t h = Some (Inr c, h1)" "hc_transport (fst s') = Some c" "snd s' = h1"
      by (rule bindP_cases) (auto simp: on_history_def prog_simps split: prod.splits)
    ultimately show ?thesis using tripleD(1) [OF connect_owns, of "{#}" h os ep t c h1] by (simp add: connected_def)
  qed
next
  fix s e s' assume a: "accounted s" and r: "ensureConnected os ep t s = Some (Inl e, s')"
  obtain d h where d: "drop_connection s = (d, h)" by fastforce
  have "owns {#} h" "hc_transport d = None" using drop_accounted [OF a] d by (auto simp: accounted_def)
  moreover have "bindP (on_history (connect os ep t)) (\<lambda>c (conn1, h).
           ret c (\<lparr>hc_transport = Some c, hc_host = ep_host ep, hc_port = ep_port ep, hc_tls = ep_tls ep\<rparr>, h)) (d, h)
      = Some (Inl e, s')"
    using r d by (auto simp: ensureConnected_def Let_def ret_def split: if_splits)
  then obtain h1 where "connect os ep t h = Some (Inl e, h1)" "s' = (d, h1)"
    by (rule bindP_cases) (auto simp: on_history_def prog_simps split: prod.splits)
  ultimately show "catchable e \<and> accounted s'"
    using tripleD(2) [OF connect_owns, of "{#}" h os ep t e h1] by (simp add: accounted_def)
qed

lemma roundTrip_spec:
  "triple accounted (roundTrip os ep request t) (\<lambda>_. accounted)
     (\<lambda>e s. catchable e \<and> accounted s \<and> hc_transport (fst s) = None)"
  unfolding roundTrip_def
proof (rule triple_on_exception)
  have parse: "triple (connected c) (bindP (parse_prog raw) (\<lambda>response s. ret response
      (if closed \<or> wantsClose raw then drop_connection s else s))) (\<lambda>_. accounted) (\<lambda>e s. catchable e \<and> accounted s)"
    for c raw closed
  proof (rule triple_bind)
    show "triple (connected c) (parse_prog raw) (\<lambda>_. connected c) (\<lambda>e s. catchable e \<and> accounted s)"
      by (auto simp: triple_def parse_prog_def connected_accounted parse_catchable split: sum.split)
    show "triple (connected c) (\<lambda>s. ret response (if closed \<or> wantsClose raw then drop_connection s else s))
        (\<lambda>_. accounted) (\<lambda>e s. catchable e \<and> accounted s)" for response
      unfolding triple_def ret_def using connected_accounted drop_accounted
      by (simp del: split_paired_All)
  qed
  show "triple accounted
      (bindP (ensureConnected os ep t) (\<lambda>transport.
        bindP (on_history (sendAll os transport request)) (\<lambda>_.
        bindP (on_history (readFramed os transport)) (\<lambda>(raw, server_closed).
        bindP (parse_prog raw) (\<lambda>response s.
          ret response (if server_closed \<or> wantsClose raw then drop_connection s else s))))))
      (\<lambda>_. accounted) (\<lambda>e s. catchable e \<and> accounted s)"
    by (rule triple_bind [OF ensureConnected_spec], rule triple_bind [OF on_history_connected [OF sendAll_owns]],
        rule triple_bind [OF on_history_connected [OF readFramed_owns]]) (simp add: parse split: prod.split)
qed (simp_all add: drop_accounted)

section \<open>What is sent\<close>

text \<open>The bytes the peer's side has accepted, oldest first.\<close>

fun accepted :: "history \<Rightarrow> string" where
  "accepted [] = []"
| "accepted (ESend fd d n # h) = accepted h @ (if 0 < n then take (nat n) d else [])"
| "accepted (ETls (Ssl_write d k) n # h) = accepted h @ (if 0 < n then take (nat n) d else [])"
| "accepted (_ # h) = accepted h"

text \<open>\<open>send\<close> and \<open>SSL_write\<close> report at most as many bytes as they were offered.\<close>

definition honest_send :: "os \<Rightarrow> bool" where
  "honest_send os =
     ((\<forall>h fd d. os_send os h fd d \<le> int (length d)) \<and>
      (\<forall>h d k. os_tls os h (Ssl_write d k) \<le> int (length d)))"

lemma pieces: "s + n \<le> k \<Longrightarrow> take n (drop s d) @ drop (s + n) (take k d) = drop s (take k d)"
proof -
  assume "s + n \<le> k"
  then have "take n (drop s d) = take n (drop s (take k d))" by (simp add: drop_take min_def)
  moreover have "drop (s + n) (take k d) = drop n (drop s (take k d))" by (simp add: add.commute)
  ultimately show ?thesis by (simp only: append_take_drop_id)
qed

lemma plain_send_accepted:
  "honest_send os \<Longrightarrow> sent \<le> length data \<Longrightarrow>
   \<exists>k \<le> length data. sent \<le> k \<and> accepted (snd (plain_send os fd data sent h)) = accepted h @ drop sent (take k data) \<and>
     (fst (plain_send os fd data sent h) = Inr () \<longleftrightarrow> k = length data)"
proof (induction os fd data sent h rule: plain_send.induct)
  case (1 os fd data sent h)
  let ?n = "os_send os h fd (drop sent data)"
  show ?case
  proof (cases "sent < length data \<and> 0 < ?n")
    case True
    have "?n \<le> int (length (drop sent data))" using 1(2) unfolding honest_send_def by blast
    then have b: "sent + nat ?n \<le> length data" using True by (simp add: of_nat_diff) linarith
    then obtain k where "k \<le> length data" "sent + nat ?n \<le> k"
      "accepted (snd (plain_send os fd data (sent + nat ?n) (ESend fd (drop sent data) ?n # h))) =
         accepted (ESend fd (drop sent data) ?n # h) @ drop (sent + nat ?n) (take k data)"
      "fst (plain_send os fd data (sent + nat ?n) (ESend fd (drop sent data) ?n # h)) = Inr () \<longleftrightarrow> k = length data"
      using 1(1) [OF _ refl refl] True 1(2) by auto
    then show ?thesis using True pieces [of sent "nat ?n" k data]
      by (subst (1 2) plain_send.simps) (auto simp: Let_def intro!: exI [of _ k])
  next
    case False
    then show ?thesis using 1(3) by (subst (1 2) plain_send.simps) (auto simp: Let_def intro!: exI [of _ sent])
  qed
qed

lemma tls_send_accepted:
  "honest_send os \<Longrightarrow> sent \<le> length data \<Longrightarrow>
   \<exists>k \<le> length data. sent \<le> k \<and> accepted (snd (tls_send os data sent h)) = accepted h @ drop sent (take k data) \<and>
     (fst (tls_send os data sent h) = Inr () \<longleftrightarrow> k = length data)"
proof (induction os data sent h rule: tls_send.induct)
  case (1 os data sent h)
  let ?call = "Ssl_write (drop sent data) (int_of_size (length data - sent))"
  let ?n = "os_tls os h ?call"
  show ?case
  proof (cases "sent < length data \<and> 0 < ?n")
    case True
    have "?n \<le> int (length (drop sent data))" using 1(2) unfolding honest_send_def by blast
    then have b: "sent + nat ?n \<le> length data" using True by (simp add: of_nat_diff) linarith
    then obtain k where "k \<le> length data" "sent + nat ?n \<le> k"
      "accepted (snd (tls_send os data (sent + nat ?n) (ETls ?call ?n # h))) =
         accepted (ETls ?call ?n # h) @ drop (sent + nat ?n) (take k data)"
      "fst (tls_send os data (sent + nat ?n) (ETls ?call ?n # h)) = Inr () \<longleftrightarrow> k = length data"
      using 1(1) [OF _ refl refl refl] True 1(2) by auto
    then show ?thesis using True pieces [of sent "nat ?n" k data]
      by (subst (1 2) tls_send.simps) (auto simp: Let_def intro!: exI [of _ k])
  next
    case False
    then show ?thesis using 1(3) by (subst (1 2) tls_send.simps) (auto simp: Let_def intro!: exI [of _ sent])
  qed
qed

lemma sendAll_accepted:
  assumes "honest_send os" "sendAll os c data h = Some (r, h')"
  shows "\<exists>k \<le> length data. accepted h' = accepted h @ take k data \<and> (r = Inr () \<longleftrightarrow> k = length data)"
proof (cases c)
  case (PlainConnection fd)
  then show ?thesis using plain_send_accepted [OF assms(1), of 0 data fd h] assms(2) by auto
next
  case (TlsConnection fd ctx ssl)
  then show ?thesis using tls_send_accepted [OF assms(1), of 0 data h] assms(2) by auto
qed

section \<open>Reading one response\<close>

text \<open>A text is complete exactly at its last byte.\<close>

definition self_framed :: "string \<Rightarrow> bool" where
  "self_framed m = (\<forall>k. messageComplete (take k m) \<longleftrightarrow> length m \<le> k)"

text \<open>The peer's bytes arrive in these pieces, whatever the reads in between look like.\<close>

fun delivers :: "os \<Rightarrow> Connection \<Rightarrow> history \<Rightarrow> string list \<Rightarrow> bool" where
  "delivers os c h [] = True"
| "delivers os c h (d # ds) =
     (case recvSome os c 4096 h of (r, h1) \<Rightarrow> r = Some d \<and> d \<noteq> [] \<and> delivers os c h1 ds)"

fun after_reads :: "os \<Rightarrow> Connection \<Rightarrow> history \<Rightarrow> string list \<Rightarrow> history" where
  "after_reads os c h [] = h"
| "after_reads os c h (d # ds) = after_reads os c (snd (recvSome os c 4096 h)) ds"

lemma read_loop_delivers:
  assumes "self_framed (pre @ concat ds)" "delivers os c h ds"
  shows "read_loop os c pre h = Some (Inr (pre @ concat ds, False), after_reads os c h ds)"
  using assms
proof (induction ds arbitrary: pre h)
  case Nil
  then have "messageComplete (take (length pre) pre) \<longleftrightarrow> length pre \<le> length pre"
    unfolding self_framed_def concat.simps append_Nil2 by blast
  then show ?case by (subst read_loop.simps) simp
next
  case (Cons d ds)
  obtain h1 where r: "recvSome os c 4096 h = (Some d, h1)" "d \<noteq> []" "delivers os c h1 ds"
    using Cons.prems(2) by (auto split: prod.splits)
  have "messageComplete (take (length pre) (pre @ concat (d # ds))) \<longleftrightarrow> length (pre @ concat (d # ds)) \<le> length pre"
    using Cons.prems(1) unfolding self_framed_def by blast
  then have "\<not> messageComplete pre" using r(2) by simp
  then have "read_loop os c pre h = read_loop os c (pre @ d) h1"
    using r by (subst read_loop.simps) simp
  then show ?case using Cons.IH [of "pre @ d" h1] Cons.prems(1) r by simp
qed

lemma readFramed_delivers:
  assumes "self_framed (concat ds)" "concat ds \<noteq> []" "delivers os c h ds"
  shows "readFramed os c h = Some (Inr (concat ds, False), after_reads os c h ds)"
  using read_loop_delivers [of "[]"] assms by (simp add: readFramed_def bindP_step prog_basic)

text \<open>A connection that fits the endpoint is used as it is.\<close>

lemma ensureConnected_kept:
  assumes "hc_transport conn = Some c" "hc_host conn = ep_host ep" "hc_port conn = ep_port ep" "hc_tls conn = ep_tls ep"
  shows "ensureConnected os ep t (conn, h) = Some (Inr c, (conn, h))"
  using assms by (simp add: ensureConnected_def prog_basic)

lemma roundTrip_exchange:
  assumes "ensureConnected os ep t s = Some (Inr c, (conn, h))"
    and "sendAll os c request h = Some (Inr (), h1)" "delivers os c h1 ds" "self_framed (concat ds)" "concat ds \<noteq> []"
    and "parseHttpResponse (concat ds) = Some (Inr resp)"
  shows "roundTrip os ep request t s = Some (Inr resp,
    if wantsClose (concat ds) then drop_connection (conn, after_reads os c h1 ds) else (conn, after_reads os c h1 ds))"
proof -
  have "on_history (sendAll os c request) (conn, h) = Some (Inr (), (conn, h1))"
    using assms(2) by (simp add: on_history_def)
  moreover have "on_history (readFramed os c) (conn, h1) = Some (Inr (concat ds, False), (conn, after_reads os c h1 ds))"
    using readFramed_delivers [OF assms(4,5,3)] by (simp add: on_history_def)
  moreover have "parse_prog (concat ds) (conn, after_reads os c h1 ds) = Some (Inr resp, (conn, after_reads os c h1 ds))"
    using assms(6) by (simp add: parse_prog_def)
  ultimately show ?thesis
    using assms(1) by (simp add: roundTrip_def on_exception_def bindP_step prog_basic)
qed

section \<open>Properties\<close>

text \<open>The retry loop keeps the account, because one round trip, a sleep and a random number do.\<close>

interpretation http_retry: retry_invariant accounted "roundTrip os ep request t" defaultSleep "defaultJitter os"
  for os ep request t
proof
  fix s r s' assume a: "accounted s" "roundTrip os ep request t s = Some (r, s')"
  show "accounted s'"
    using tripleD [OF roundTrip_spec a(1), of os ep request t] a(2) by (cases r) auto
qed (auto simp: accounted_def defaultSleep_def defaultJitter_def Let_def split: option.splits)

text \<open>
  C21: a failed round trip drops the connection, so that the next attempt connects afresh, and what it
  throws is an exception the retry loop can catch.
\<close>

theorem roundTrip_failure_drops:
  assumes "accounted s" "roundTrip os ep request t s = Some (Inl e, s')"
  shows "catchable e \<and> hc_transport (fst s') = None \<and> held (snd s') = {#}"
  using tripleD(2) [OF roundTrip_spec assms] by (auto simp: accounted_def owns_def)

text \<open>
  \<open>sendAll\<close> hands over every byte once and in order. It returns when all have been accepted
  and throws after a proper prefix, whatever amounts \<open>send\<close> or \<open>SSL_write\<close> take.
\<close>

lemma sendAll_exact:
  assumes "honest_send os" "sendAll os c data h = Some (r, h')"
  shows "\<exists>k \<le> length data. accepted h' = accepted h @ take k data \<and> (r = Inr () \<longleftrightarrow> k = length data)"
  using assms by (rule sendAll_accepted)

lemma self_framed_content_length:
  assumes "list_all clean_line before" "list_all clean_line after" "list_all not_content_length before"
    and "CHR 0x0D \<notin> set reason"
    and "\<not> is_chunked (render_head status reason (before @ content_length_line (length body) # after))"
    and "length (render_response status reason (before @ content_length_line (length body) # after) body) < 2 ^ 63"
  shows "self_framed (render_response status reason (before @ content_length_line (length body) # after) body)"
proof -
  let ?start = "''HTTP/1.1 '' @ string_of_nat status @ '' '' @ reason"
  let ?hs = "before @ content_length_line (length body) # after"
  have h: "render_head status reason ?hs = ?start @ header_text ?hs" by (simp add: render_head_def)
  have m: "render_response status reason ?hs body = http_message ?start ?hs body"
    by (simp add: render_response_def render_head_def http_message_def)
  have "CHR 0x0D \<notin> set ?start" using assms(4) digits_no_line_break by simp
  from complete_message [OF assms(1-3) this] show ?thesis
    using assms(5,6) unfolding self_framed_def h m by blast
qed

text \<open>A response that ends before its end: what has arrived counts as the response.\<close>

lemma read_loop_closed:
  assumes "\<And>k. \<not> messageComplete (take k (pre @ concat ds))" "delivers os c h ds"
    and "recvSome os c 4096 (after_reads os c h ds) = (Some [], h2)"
  shows "read_loop os c pre h = Some (Inr (pre @ concat ds, True), h2)"
  using assms
proof (induction ds arbitrary: pre h)
  case Nil
  have "\<not> messageComplete pre" using Nil.prems(1) [of "length pre"] by simp
  then show ?case using Nil.prems(3) by (subst read_loop.simps) simp
next
  case (Cons d ds)
  obtain h1 where r: "recvSome os c 4096 h = (Some d, h1)" "d \<noteq> []" "delivers os c h1 ds"
    using Cons.prems(2) by (auto split: prod.splits)
  have "\<not> messageComplete pre" using Cons.prems(1) [of "length pre"] by simp
  then have "read_loop os c pre h = read_loop os c (pre @ d) h1"
    using r by (subst read_loop.simps) simp
  then show ?case using Cons.IH [of "pre @ d" h1] Cons.prems(1,3) r by simp
qed

lemma roundTrip_closed:
  assumes "ensureConnected os ep t s = Some (Inr c, (conn, h))"
    and "sendAll os c request h = Some (Inr (), h1)" "delivers os c h1 ds"
    and "\<And>k. \<not> messageComplete (take k ([] @ concat ds))" "recvSome os c 4096 (after_reads os c h1 ds) = (Some [], h2)"
    and "concat ds \<noteq> []" "parseHttpResponse (concat ds) = Some (Inr resp)"
  shows "roundTrip os ep request t s = Some (Inr resp, drop_connection (conn, h2))"
proof -
  have "readFramed os c h1 = Some (Inr (concat ds, True), h2)"
    using read_loop_closed [OF assms(4,3,5)] assms(6) by (simp add: readFramed_def bindP_step prog_basic)
  then have "on_history (readFramed os c) (conn, h1) = Some (Inr (concat ds, True), (conn, h2))"
    by (simp add: on_history_def)
  moreover have "on_history (sendAll os c request) (conn, h) = Some (Inr (), (conn, h1))"
    using assms(2) by (simp add: on_history_def)
  moreover have "parse_prog (concat ds) (conn, h2) = Some (Inr resp, (conn, h2))"
    using assms(7) by (simp add: parse_prog_def)
  ultimately show ?thesis using assms(1) by (simp add: roundTrip_def on_exception_def bindP_step prog_basic)
qed

lemma truncated_incomplete:
  assumes "list_all clean_line before" "list_all clean_line after" "list_all not_content_length before"
    and "CHR 0x0D \<notin> set reason" "\<not> is_chunked (render_head status reason (before @ content_length_line n # after))"
    and "length (render_response status reason (before @ content_length_line n # after) body) + n < 2 ^ 63"
    and "length body < n"
  shows "\<not> messageComplete (take k (render_response status reason (before @ content_length_line n # after) body))"
proof -
  define full where "full = body @ replicate (n - length body) CHR ''x''"
  have n: "length full = n" using assms(7) by (simp add: full_def)
  let ?hs = "before @ content_length_line n # after"
  let ?part = "render_response status reason ?hs body" and ?m = "render_response status reason ?hs full"
  have m: "?m = ?part @ replicate (n - length body) CHR ''x''" by (simp add: render_response_def full_def)
  have "self_framed ?m"
    using self_framed_content_length [of before after reason status full] assms m n by simp
  then have "messageComplete (take (min k (length ?part)) ?m) \<longleftrightarrow> length ?m \<le> min k (length ?part)"
    unfolding self_framed_def by blast
  moreover have "length ?part < length ?m" using assms(7) m by simp
  ultimately have "\<not> messageComplete (take (min k (length ?part)) ?m)" by linarith
  moreover have "take (min k (length ?part)) ?m = take k ?part" unfolding m by (simp add: min_def)
  ultimately show ?thesis by simp
qed

text \<open>
  C22: a response cut short is taken for a whole one. If the connection ends, for TLS also by an error
  of \<open>SSL_read\<close>, before the body has the length its Content-Length header announces, the round trip
  does not fail: it returns the status with the bytes that have arrived as the body, and only drops
  the connection.
\<close>

theorem roundTrip_truncated:
  assumes "ensureConnected os ep t s = Some (Inr c, (conn, h))"
    and "sendAll os c request h = Some (Inr (), h1)" "delivers os c h1 ds"
    and "concat ds = render_response status reason (before @ content_length_line n # after) body" "length body < n"
    and "recvSome os c 4096 (after_reads os c h1 ds) = (Some [], h2)"
    and "list_all clean_line before" "list_all clean_line after" "list_all not_content_length before"
    and "CHR 0x0D \<notin> set reason" "status < 2 ^ 31" "length (concat ds) + n < 2 ^ 63"
    and "\<not> is_chunked (render_head status reason (before @ content_length_line n # after))"
  shows "roundTrip os ep request t s =
    Some (Inr \<lparr>hr_status = int status, hr_body = body,
               hr_inference_header_length =
                 header_length_of (render_head status reason (before @ content_length_line n # after))\<rparr>,
          drop_connection (conn, h2))"
proof -
  let ?hs = "before @ content_length_line n # after"
  have "clean_line (content_length_line n)"
    using digits_no_line_break marker_facts(5,6) by (simp add: clean_line_def content_length_line_def)
  then have hs: "list_all clean_line ?hs" using assms(7,8) by simp
  have parse: "parseHttpResponse (concat ds) = Some (Inr \<lparr>hr_status = int status, hr_body = body,
      hr_inference_header_length = header_length_of (render_head status reason ?hs)\<rparr>)"
    unfolding assms(4) parse_render_general [OF hs assms(10,11)] using assms(13) by (simp add: Let_def)
  have "concat ds \<noteq> []" unfolding assms(4) by (simp add: render_response_def render_head_def)
  moreover have "\<not> messageComplete (take k ([] @ concat ds))" for k
    using truncated_incomplete [OF assms(7-10,13) _ assms(5)] assms(4,12) by simp
  ultimately show ?thesis using roundTrip_closed [OF assms(1-3) _ assms(6) _ parse] by blast
qed

section \<open>Witnesses\<close>

definition demo_endpoint :: Endpoint where
  "demo_endpoint = \<lparr>ep_host = ''h'', ep_port = 8080, ep_path_prefix = [], ep_tls = False\<rparr>"

definition demo_segments :: "string list" where
  "demo_segments = [''HTTP/1.1 200 OK'' @ crlf @ ''Content-'', ''Length: 2'' @ crlf @ crlf @ ''{'', ''}'']"

definition demo_os :: os where
  "demo_os = script_os (\<lambda>_. None) 2 demo_segments"

definition demo_policy :: RetryPolicy where
  "demo_policy = \<lparr>rp_max_attempts = 2, rp_base_delay_ms = 1, rp_max_delay_ms = 1, rp_jitter = Fin 0\<rparr>"

lemma initial_accounted: "accounted (new_connection, [])"
  by (simp add: accounted_def new_connection_def owns_def)

theorem roundTrip_failure_drops_witness:
  "\<exists>e s'. roundTrip (script_os (\<lambda>_. None) 0 []) demo_endpoint ''abc'' 1000 (new_connection, []) = Some (Inl e, s') \<and>
     held (snd s') = {#}"
proof -
  have "map_option (\<lambda>(r, _). is_ok r)
      (roundTrip (script_os (\<lambda>_. None) 0 []) demo_endpoint ''abc'' 1000 (new_connection, [])) = Some False"
    by code_simp
  then obtain r s' where
    r: "roundTrip (script_os (\<lambda>_. None) 0 []) demo_endpoint ''abc'' 1000 (new_connection, []) = Some (r, s')" "\<not> is_ok r"
    by auto
  then obtain e where "r = Inl e" by (cases r) auto
  then have "roundTrip (script_os (\<lambda>_. None) 0 []) demo_endpoint ''abc'' 1000 (new_connection, []) = Some (Inl e, s')"
    using r(1) by simp
  with roundTrip_failure_drops [OF initial_accounted this] show ?thesis by blast
qed

lemma sendAll_exact_example:
  "\<exists>h'. sendAll demo_os (PlainConnection 3) ''abc'' [] = Some (Inr (), h') \<and> accepted h' = ''abc''"
proof -
  have h: "honest_send demo_os" by (simp add: honest_send_def demo_os_def script_os_def)
  have "sendAll demo_os (PlainConnection 3) ''abc'' [] = Some (Inr (), [ESend 3 ''c'' 1, ESend 3 ''abc'' 2])"
    by code_simp
  with sendAll_exact [OF h this] show ?thesis by auto
qed

theorem roundTrip_truncated_witness:
  "map_option (\<lambda>(r, _). map_sum id hr_body r)
     (roundTrip (script_os (\<lambda>_. None) 9999 [''HTTP/1.1 200 OK'' @ crlf @ ''Content-Length: 9'' @ crlf @ crlf @ ''ab''])
       demo_endpoint ''abc'' 1000
       (\<lparr>hc_transport = Some (PlainConnection 3), hc_host = ''h'', hc_port = 8080, hc_tls = False\<rparr>, [])) =
   Some (Inr ''ab'')"
proof -
  let ?m = "''HTTP/1.1 200 OK'' @ crlf @ ''Content-Length: 9'' @ crlf @ crlf @ ''ab''"
  let ?os = "script_os (\<lambda>_. None) 9999 [?m]" and ?c = "PlainConnection 3"
  let ?conn = "\<lparr>hc_transport = Some ?c, hc_host = ''h'', hc_port = 8080, hc_tls = False\<rparr>"
  let ?h1 = "[ESend 3 ''abc'' 3]" and ?h2 = "[ERecv 3 (Some []), ERecv 3 (Some ?m), ESend 3 ''abc'' 3]"
  have k: "hc_transport ?conn = Some ?c" "hc_host ?conn = ep_host demo_endpoint" "hc_port ?conn = ep_port demo_endpoint"
    "hc_tls ?conn = ep_tls demo_endpoint"
    by (simp_all add: demo_endpoint_def)
  have "sendAll ?os ?c ''abc'' [] = Some (Inr (), ?h1)" "delivers ?os ?c ?h1 [?m]"
    "concat [?m] = render_response 200 ''OK'' ([] @ content_length_line 9 # []) ''ab''" "length ''ab'' < (9 :: nat)"
    "recvSome ?os ?c 4096 (after_reads ?os ?c ?h1 [?m]) = (Some [], ?h2)"
    "list_all clean_line []" "list_all clean_line []" "list_all not_content_length []"
    "CHR 0x0D \<notin> set ''OK''" "(200 :: nat) < 2 ^ 31" "length (concat [?m]) + 9 < 2 ^ 63"
    "\<not> is_chunked (render_head 200 ''OK'' ([] @ content_length_line 9 # []))"
    by code_simp+
  from roundTrip_truncated [OF ensureConnected_kept [OF k] this, of 1000] show ?thesis by simp
qed

end
