(* ===== verification/Client_Types.thy ===== *)
theory Client_Types
  imports Prelude
begin

text \<open>
  The neutral data types of \<open>include/KserveTypes.hpp\<close>. Tensor payloads are raw bytes;
  an \<open>int64_t\<close> dimension is a 64-bit word. The pointer \<open>InferInput::data\<close> is an
  option: \<open>None\<close> is \<open>nullptr\<close>.
\<close>

record TensorSpec =
  ts_name :: string
  ts_datatype :: string
  ts_shape :: "64 word list"

record ModelMetadata =
  mm_inputs :: "TensorSpec list"
  mm_outputs :: "TensorSpec list"
  mm_platform :: string

record InferInput =
  ii_name :: string
  ii_datatype :: string
  ii_shape :: "64 word list"
  ii_data :: "byte list option"

record RepositoryModel =
  rm_name :: string
  rm_version :: string
  rm_state :: string
  rm_reason :: string

record InferOutput =
  io_name :: string
  io_datatype :: string
  io_shape :: "64 word list"
  io_data :: "byte list"

end
