(* ===== verification/Client_Interface.thy ===== *)
theory Client_Interface
  imports Client_Types Os_World
begin

text \<open>
  The abstract class \<open>IClient\<close> of \<open>include/KserveTypes.hpp\<close>: a record of programs over
  the state of a client and its world, the default bodies of the optional repository operations, and
  the sequences of calls an application can make. The locale \<open>iclient_contract\<close> is what both
  transports are held to: an invariant that every operation keeps, whether it returns or throws.
\<close>

record 'w IClient =
  ic_modelMetadata :: "('w, ModelMetadata) prog"
  ic_infer :: "InferInput list \<Rightarrow> ('w, InferOutput list) prog"
  ic_serverLive :: "('w, bool) prog"
  ic_serverReady :: "('w, bool) prog"
  ic_modelReady :: "('w, bool) prog"
  ic_repositoryIndex :: "('w, RepositoryModel list) prog"
  ic_loadModel :: "string \<Rightarrow> ('w, unit) prog"
  ic_unloadModel :: "string \<Rightarrow> ('w, unit) prog"

definition default_repositoryIndex :: "('w, RepositoryModel list) prog" where
  "default_repositoryIndex = throw (Runtime_error ''model repository index not supported by this client'')"

definition default_loadModel :: "string \<Rightarrow> ('w, unit) prog" where
  "default_loadModel model_name = throw (Runtime_error ''model load not supported by this client'')"

definition default_unloadModel :: "string \<Rightarrow> ('w, unit) prog" where
  "default_unloadModel model_name = throw (Runtime_error ''model unload not supported by this client'')"

text \<open>One call, by its effect on the state.\<close>

inductive client_step :: "'w IClient \<Rightarrow> 'w \<Rightarrow> 'w \<Rightarrow> bool" for ic where
  metadata: "ic_modelMetadata ic w = Some (r, w') \<Longrightarrow> client_step ic w w'"
| infer: "ic_infer ic inputs w = Some (r, w') \<Longrightarrow> client_step ic w w'"
| live: "ic_serverLive ic w = Some (r, w') \<Longrightarrow> client_step ic w w'"
| ready: "ic_serverReady ic w = Some (r, w') \<Longrightarrow> client_step ic w w'"
| model_ready: "ic_modelReady ic w = Some (r, w') \<Longrightarrow> client_step ic w w'"
| index: "ic_repositoryIndex ic w = Some (r, w') \<Longrightarrow> client_step ic w w'"
| load: "ic_loadModel ic name w = Some (r, w') \<Longrightarrow> client_step ic w w'"
| unload: "ic_unloadModel ic name w = Some (r, w') \<Longrightarrow> client_step ic w w'"

inductive_cases client_stepE: "client_step ic w w'"

inductive client_run :: "'w IClient \<Rightarrow> 'w \<Rightarrow> 'w \<Rightarrow> bool" for ic w where
  start: "client_run ic w w"
| call: "client_run ic w w1 \<Longrightarrow> client_step ic w1 w2 \<Longrightarrow> client_run ic w w2"

text \<open>A program keeps an invariant whether it returns or throws.\<close>

definition keeps :: "('w \<Rightarrow> bool) \<Rightarrow> ('w, 'a) prog \<Rightarrow> bool" where
  "keeps Inv p = triple Inv p (\<lambda>_. Inv) (\<lambda>_. Inv)"

named_theorems keeps_intros \<open>composition rules for programs that keep an invariant\<close>

lemma keepsD: "keeps Inv p \<Longrightarrow> Inv w \<Longrightarrow> p w = Some (r, w') \<Longrightarrow> Inv w'"
  unfolding keeps_def triple_def by (cases r) fastforce+

lemma keepsI: "(\<And>w r w'. Inv w \<Longrightarrow> p w = Some (r, w') \<Longrightarrow> Inv w') \<Longrightarrow> keeps Inv p"
  unfolding keeps_def triple_def by (auto split: sum.split)

lemma keeps_bind [keeps_intros]: "keeps Inv p \<Longrightarrow> (\<And>x. keeps Inv (f x)) \<Longrightarrow> keeps Inv (bindP p f)"
  unfolding keeps_def by (rule triple_bind)

lemma keeps_basic [keeps_intros]:
  "keeps Inv (ret x)" "keeps Inv (throw e)" "keeps Inv (of_result r)"
  by (auto intro!: keepsI simp: prog_basic)

lemma keeps_if [keeps_intros]: "(b \<Longrightarrow> keeps Inv p) \<Longrightarrow> (\<not> b \<Longrightarrow> keeps Inv q) \<Longrightarrow> keeps Inv (if b then p else q)"
  by simp

lemma keeps_let [keeps_intros]: "keeps Inv (f x) \<Longrightarrow> keeps Inv (Let x f)"
  by simp

lemma keeps_prod [keeps_intros]: "(\<And>a b. keeps Inv (f a b)) \<Longrightarrow> keeps Inv (case p of (a, b) \<Rightarrow> f a b)"
  by (cases p) simp

lemma keeps_on_exception:
  assumes "keeps Inv p" "\<And>w. Inv w \<Longrightarrow> Inv (h w)"
  shows "keeps Inv (on_exception p h)"
proof (rule keepsI)
  fix w r w' assume w: "Inv w" and r: "on_exception p h w = Some (r, w')"
  then obtain r1 w1 where p: "p w = Some (r1, w1)" by (cases "p w") (auto simp: on_exception_def)
  have "Inv w1" using keepsD [OF assms(1) w p] .
  moreover have "w' = w1 \<or> w' = h w1" using r p by (auto simp: on_exception_def split: sum.splits if_splits)
  ultimately show "Inv w'" using assms(2) by blast
qed

locale iclient_contract =
  fixes ic :: "'w IClient" and Inv :: "'w \<Rightarrow> bool"
  assumes metadata_keeps: "keeps Inv (ic_modelMetadata ic)"
    and infer_keeps: "keeps Inv (ic_infer ic inputs)"
    and probes_keep: "keeps Inv (ic_serverLive ic)" "keeps Inv (ic_serverReady ic)" "keeps Inv (ic_modelReady ic)"
    and repository_keeps: "keeps Inv (ic_repositoryIndex ic)" "keeps Inv (ic_loadModel ic name)"
      "keeps Inv (ic_unloadModel ic name)"
begin

lemma step_keeps: "client_step ic w w' \<Longrightarrow> Inv w \<Longrightarrow> Inv w'"
  using keepsD [OF metadata_keeps] keepsD [OF infer_keeps] keepsD [OF probes_keep(1)] keepsD [OF probes_keep(2)]
    keepsD [OF probes_keep(3)] keepsD [OF repository_keeps(1)] keepsD [OF repository_keeps(2)]
    keepsD [OF repository_keeps(3)]
  by (elim client_stepE) blast+

lemma run_keeps: "client_run ic w w' \<Longrightarrow> Inv w \<Longrightarrow> Inv w'"
  by (induction rule: client_run.induct) (auto dest: step_keeps)

end

text \<open>
  What both transports promise about a response that carries given tensors: reading it gives exactly
  these tensors. A response then carries at most one list of tensors.
\<close>

locale response_reader =
  fixes read :: "'r \<Rightarrow> InferOutput list result"
    and carries :: "InferOutput list \<Rightarrow> 'r \<Rightarrow> bool"
  assumes reads_carried: "carries outs r \<Longrightarrow> read r = Inr outs"
begin

lemma carried_unique: "carries outs r \<Longrightarrow> carries outs' r \<Longrightarrow> outs = outs'"
  using reads_carried [of outs r] reads_carried [of outs' r] by simp

end

end
