(* ===== verification/Half_Float.thy ===== *)
theory Half_Float
  imports Prelude "HOL-Library.While_Combinator"
begin

text \<open>
  The two conversions between IEEE-754 half and single precision of \<open>src/KserveProtocol.cpp\<close>
  (\<open>halfToFloat\<close>, \<open>floatToHalf\<close>), which the JSON path uses for the FP16 datatype. A
  \<open>float\<close> is the 32-bit pattern that \<open>std::memcpy\<close> sees.
\<close>

section \<open>The code\<close>

type_synonym half_bits = "16 word"
type_synonym float_bits = "32 word"

text \<open>\<open>while ((m & 0x0400u) == 0) { m <<= 1; ++e; }\<close>\<close>

definition normalise :: "32 word \<Rightarrow> 32 word \<times> 32 word" where
  "normalise mant =
     while (\<lambda>(m, e). m AND 0x0400 = 0) (\<lambda>(m, e). (push_bit 1 m, e + 1)) (mant, 0)"

definition halfToFloat :: "half_bits \<Rightarrow> float_bits" where
  "halfToFloat h =
     (let sign = push_bit 16 (ucast h AND 0x8000);
          exp = drop_bit 10 (ucast h AND 0x7C00);
          mant = ucast h AND 0x03FF
      in if exp = 0 then
           if mant = 0 then sign
           else case normalise mant of
             (m, e) \<Rightarrow> sign OR push_bit 23 (127 - 15 - e + 1) OR push_bit 13 (m AND 0x03FF)
         else if exp = 0x1F then sign OR 0x7F800000 OR push_bit 13 mant
         else sign OR push_bit 23 (exp + (127 - 15)) OR push_bit 13 mant)"

definition floatToHalf :: "float_bits \<Rightarrow> half_bits" where
  "floatToHalf x =
     (let sign = ucast (drop_bit 16 x AND 0x8000) :: 16 word;
          exp = uint (drop_bit 23 x AND 0xFF) - 127 + 15;
          mant = x AND 0x7FFFFF
      in if 0x1F \<le> exp then sign OR 0x7C00 OR (if mant \<noteq> 0 then 0x0200 else 0)
         else if exp \<le> 0 then
           if exp < -10 then sign
           else ucast (ucast sign OR drop_bit (nat (14 - exp)) (mant OR 0x800000))
         else ucast (ucast sign OR push_bit 10 (word_of_int exp) OR drop_bit 13 mant))"

section \<open>Fields of a pattern\<close>

definition half_neg :: "half_bits \<Rightarrow> nat" where
  "half_neg h = unat h div 2 ^ 15"

definition half_exp :: "half_bits \<Rightarrow> nat" where
  "half_exp h = unat h div 2 ^ 10 mod 2 ^ 5"

definition half_frac :: "half_bits \<Rightarrow> nat" where
  "half_frac h = unat h mod 2 ^ 10"

definition float_neg :: "float_bits \<Rightarrow> nat" where
  "float_neg x = unat x div 2 ^ 31"

definition float_exp :: "float_bits \<Rightarrow> nat" where
  "float_exp x = unat x div 2 ^ 23 mod 2 ^ 8"

definition float_frac :: "float_bits \<Rightarrow> nat" where
  "float_frac x = unat x mod 2 ^ 23"

text \<open>
  Magnitudes of finite patterns, in units of the smallest subnormal: \<open>2^-24\<close> for a half,
  \<open>2^-149\<close> for a float. One half unit is \<open>2^125\<close> float units.
\<close>

definition half_mag :: "half_bits \<Rightarrow> nat" where
  "half_mag h = (if half_exp h = 0 then half_frac h
                 else (2 ^ 10 + half_frac h) * 2 ^ (half_exp h - 1))"

definition float_mag :: "float_bits \<Rightarrow> nat" where
  "float_mag x = (if float_exp x = 0 then float_frac x
                  else (2 ^ 23 + float_frac x) * 2 ^ (float_exp x - 1))"

text \<open>The distance to the next larger half, in the same units.\<close>

definition half_ulp :: "half_bits \<Rightarrow> nat" where
  "half_ulp h = 2 ^ (half_exp h - 1)"

definition half_is_nan :: "half_bits \<Rightarrow> bool" where
  "half_is_nan h = (half_exp h = 31 \<and> half_frac h \<noteq> 0)"

definition float_is_finite :: "float_bits \<Rightarrow> bool" where
  "float_is_finite x = (float_exp x < 255)"

lemma fields_split: "(n :: nat) = n div (A * B) * (A * B) + n div A mod B * A + n mod A"
proof -
  have "n = (n div A div B * B + n div A mod B) * A + n mod A" by simp
  then show ?thesis by (metis add_mult_distrib div_mult2_eq mult.assoc mult.commute)
qed

lemma fields_join:
  assumes "f < A" "e < (B :: nat)"
  shows "(s * (A * B) + e * A + f) div (A * B) = s" "(s * (A * B) + e * A + f) div A mod B = e"
    "(s * (A * B) + e * A + f) mod A = f"
proof -
  let ?n = "s * (A * B) + e * A + f"
  have n: "?n = (s * B + e) * A + f" by (simp add: algebra_simps)
  have d: "?n div A = s * B + e" and m: "?n mod A = f" unfolding n using assms(1) by simp_all
  show "?n div A mod B = e" unfolding d using assms(2) by simp
  show "?n mod A = f" by (rule m)
  have "?n div (A * B) = ?n div A div B" by (simp add: div_mult2_eq)
  then show "?n div (A * B) = s" unfolding d using assms(2) by simp
qed

lemma half_fields: "unat h = half_neg h * 2 ^ 15 + half_exp h * 2 ^ 10 + half_frac h"
  using fields_split [of "unat h" "2 ^ 10" "2 ^ 5"] by (simp add: half_neg_def half_exp_def half_frac_def)

lemma float_fields: "unat x = float_neg x * 2 ^ 31 + float_exp x * 2 ^ 23 + float_frac x"
  using fields_split [of "unat x" "2 ^ 23" "2 ^ 8"] by (simp add: float_neg_def float_exp_def float_frac_def)

lemma half_field_bounds: "half_neg h < 2" "half_exp h < 32" "half_frac h < 1024"
  using unsigned_less [of h, where 'a = nat]
  by (simp_all add: half_neg_def half_exp_def half_frac_def less_mult_imp_div_less)

lemma float_field_bounds: "float_neg x < 2" "float_exp x < 256" "float_frac x < 2 ^ 23"
  using unsigned_less [of x, where 'a = nat]
  by (simp_all add: float_neg_def float_exp_def float_frac_def less_mult_imp_div_less)

lemma half_of_fields:
  assumes "unat h = s * 2 ^ 15 + e * 2 ^ 10 + f" "e < 32" "f < 1024"
  shows "half_neg h = s" "half_exp h = e" "half_frac h = f"
  using fields_join [of f "2 ^ 10" e "2 ^ 5" s] assms
  by (simp_all add: half_neg_def half_exp_def half_frac_def)

lemma float_of_fields:
  assumes "unat x = s * 2 ^ 31 + e * 2 ^ 23 + f" "e < 256" "f < 2 ^ 23"
  shows "float_neg x = s" "float_exp x = e" "float_frac x = f"
  using fields_join [of f "2 ^ 23" e "2 ^ 8" s] assms
  by (simp_all add: float_neg_def float_exp_def float_frac_def)

section \<open>Bit operations as arithmetic\<close>

lemma nat_or_add: "b < 2 ^ n \<Longrightarrow> (2 ^ n * a :: nat) OR b = 2 ^ n * a + b"
  apply (subst disjunctive_add [symmetric])
   apply (metis bit_take_bit_iff take_bit_nat_eq_self push_bit_eq_mult bit_push_bit_iff_nat mult.commute not_le)
  apply simp
  done

lemma nat_and_field: "(a :: nat) AND push_bit n (mask k) = 2 ^ n * (a div 2 ^ n mod 2 ^ k)"
proof -
  have "a AND push_bit n (mask k) = push_bit n (take_bit k (drop_bit n a))"
    by (rule bit_eqI) (auto simp: bit_and_iff bit_push_bit_iff_nat bit_mask_iff bit_take_bit_iff bit_drop_bit_eq)
  then show ?thesis by (simp add: push_bit_eq_mult take_bit_eq_mod drop_bit_eq_div mult.commute)
qed

lemma unat_ucast_half: "unat (ucast (h :: 16 word) :: 32 word) = unat h"
  using unsigned_less [of h, where 'a = nat] by (simp add: unsigned_ucast_eq take_bit_nat_eq_self)

lemma field_masks:
  "(0x8000 :: nat) = push_bit 15 (mask 1)" "(0x7C00 :: nat) = push_bit 10 (mask 5)"
  "(0x03FF :: nat) = push_bit 0 (mask 10)" "(0xFF :: nat) = push_bit 0 (mask 8)"
  "(0x7FFFFF :: nat) = push_bit 0 (mask 23)"
  by (simp_all add: push_bit_eq_mult mask_eq_exp_minus_1)

lemma unat_and_numeral:
  "unat (w AND 0x8000 :: 32 word) = 2 ^ 15 * (unat w div 2 ^ 15 mod 2)"
  "unat (w AND 0x7C00 :: 32 word) = 2 ^ 10 * (unat w div 2 ^ 10 mod 2 ^ 5)"
  "unat (w AND 0x0400 :: 32 word) = 2 ^ 10 * (unat w div 2 ^ 10 mod 2)"
  "unat (w AND 0x03FF :: 32 word) = unat w mod 2 ^ 10"
  "unat (w AND 0xFF :: 32 word) = unat w mod 2 ^ 8"
  "unat (w AND 0x7FFFFF :: 32 word) = unat w mod 2 ^ 23"
proof -
  show "unat (w AND 0x8000 :: 32 word) = 2 ^ 15 * (unat w div 2 ^ 15 mod 2)"
    using nat_and_field [of "unat w" 15 1] by (simp add: unsigned_and_eq push_bit_eq_mult mask_eq_exp_minus_1)
  show "unat (w AND 0x7C00 :: 32 word) = 2 ^ 10 * (unat w div 2 ^ 10 mod 2 ^ 5)"
    using nat_and_field [of "unat w" 10 5] by (simp add: unsigned_and_eq push_bit_eq_mult mask_eq_exp_minus_1)
  show "unat (w AND 0x0400 :: 32 word) = 2 ^ 10 * (unat w div 2 ^ 10 mod 2)"
    using nat_and_field [of "unat w" 10 1] by (simp add: unsigned_and_eq push_bit_eq_mult mask_eq_exp_minus_1)
  show "unat (w AND 0x03FF :: 32 word) = unat w mod 2 ^ 10"
    using nat_and_field [of "unat w" 0 10] by (simp add: unsigned_and_eq push_bit_eq_mult mask_eq_exp_minus_1)
  show "unat (w AND 0xFF :: 32 word) = unat w mod 2 ^ 8"
    using nat_and_field [of "unat w" 0 8] by (simp add: unsigned_and_eq push_bit_eq_mult mask_eq_exp_minus_1)
  show "unat (w AND 0x7FFFFF :: 32 word) = unat w mod 2 ^ 23"
    using nat_and_field [of "unat w" 0 23] by (simp add: unsigned_and_eq push_bit_eq_mult mask_eq_exp_minus_1)
qed

lemma unat_drop: "unat (drop_bit n (w :: 32 word)) = unat w div 2 ^ n"
  unfolding unat_drop_bit_eq by (rule drop_bit_eq_div)

lemma unat_push: "unat w * 2 ^ n < 2 ^ 32 \<Longrightarrow> unat (push_bit n (w :: 32 word)) = unat w * 2 ^ n"
  unfolding unsigned_push_bit_eq by (simp add: push_bit_eq_mult take_bit_nat_eq_self)

lemma unat_or_disjoint:
  "unat a = 2 ^ n * k \<Longrightarrow> unat b < 2 ^ n \<Longrightarrow> unat (a OR b :: 'a::len word) = unat a + unat b"
  by (simp add: unsigned_or_eq nat_or_add)

lemma unat_pack:
  fixes S E M :: "32 word"
  assumes "unat S = s * 2 ^ 31" "unat E = e * 2 ^ 23" "unat M = m" "e < 256" "m < 2 ^ 23"
  shows "unat (S OR E OR M) = s * 2 ^ 31 + e * 2 ^ 23 + m"
proof -
  have "unat (E OR M) = e * 2 ^ 23 + m"
    using unat_or_disjoint [of E 23 e M] assms by (simp add: mult.commute)
  moreover have "e * 2 ^ 23 + m < 2 ^ 31" using assms(4,5) by simp
  ultimately show ?thesis
    using unat_or_disjoint [of S 31 s "E OR M"] assms(1) by (simp add: mult.commute)
qed

section \<open>The loop that normalises a subnormal\<close>

lemma normalise_guard: "unat (m :: 32 word) < 2048 \<Longrightarrow> m AND 0x0400 = 0 \<longleftrightarrow> unat m < 1024"
proof -
  assume b: "unat m < 2048"
  have "m AND 0x0400 = 0 \<longleftrightarrow> unat (m AND 0x0400) = 0" by (simp add: unat_eq_0)
  also have "\<dots> \<longleftrightarrow> unat m div 1024 mod 2 = 0" by (simp add: unat_and_numeral)
  also have "\<dots> \<longleftrightarrow> unat m < 1024" using b by (auto simp: div_less)
  finally show ?thesis .
qed

definition normalise_inv :: "32 word \<Rightarrow> 32 word \<times> 32 word \<Rightarrow> bool" where
  "normalise_inv m0 s =
     (unat (fst s) = unat m0 * 2 ^ unat (snd s) \<and> unat (fst s) < 2048 \<and> unat (snd s) \<le> 10)"

lemma normalise_step:
  assumes "0 < unat m0" "normalise_inv m0 (m, e)" "m AND 0x0400 = 0"
  shows "normalise_inv m0 (push_bit 1 m, e + 1)" "unat m < unat (push_bit 1 m)"
proof -
  have m: "unat m < 1024" "unat m = unat m0 * 2 ^ unat e"
    using assms(2,3) normalise_guard [of m] by (auto simp: normalise_inv_def)
  have "2 ^ unat e \<le> unat m" using assms(1) m(2) by simp
  then have "(2 :: nat) ^ unat e < 2 ^ 10" using m(1) by simp
  then have e: "unat e < 10" by (rule power_less_imp_less_exp [rotated]) simp
  have p: "unat (push_bit 1 m) = unat m * 2" using m(1) unat_push [of m 1] by simp
  have "unat (e + 1) = unat e + 1" using e by (simp add: unat_word_ariths)
  then show "normalise_inv m0 (push_bit 1 m, e + 1)" using m e p by (simp add: normalise_inv_def)
  have "0 < unat m" using assms(1) m(2) by simp
  then show "unat m < unat (push_bit 1 m)" using p by simp
qed

lemma normalise_result:
  assumes "0 < unat m" "unat m < 1024"
  obtains m' e where "normalise m = (m', e)" "unat m' = unat m * 2 ^ unat e" "1024 \<le> unat m'"
    "unat m' < 2048" "unat e \<le> 10"
proof -
  have "normalise_inv m (normalise m) \<and> \<not> (fst (normalise m) AND 0x0400 = 0)"
    unfolding normalise_def
  proof (rule while_rule [where P = "normalise_inv m" and r = "measure (\<lambda>s. 2048 - unat (fst s))"])
    show "normalise_inv m (m, 0)" using assms(2) by (simp add: normalise_inv_def)
  next
    fix s assume "normalise_inv m s" "case s of (m, e) \<Rightarrow> m AND 0x0400 = 0"
    then show "normalise_inv m (case s of (m, e) \<Rightarrow> (push_bit 1 m, e + 1))"
      using normalise_step(1) [OF assms(1)] by (cases s) auto
  next
    fix s assume i: "normalise_inv m s" and g: "case s of (m, e) \<Rightarrow> m AND 0x0400 = 0"
    obtain a e where s: "s = (a, e)" by (cases s)
    have "unat a < unat (push_bit 1 a)" "unat a < 2048"
      using normalise_step(2) [OF assms(1), of a e] i g s by (auto simp: normalise_inv_def)
    then show "((case s of (m, e) \<Rightarrow> (push_bit 1 m, e + 1)), s) \<in> measure (\<lambda>s. 2048 - unat (fst s))"
      by (simp add: s diff_less_mono2)
  qed (auto split: prod.splits)
  moreover obtain m' e where r: "normalise m = (m', e)" by (cases "normalise m")
  ultimately have "normalise_inv m (m', e)" "\<not> unat m' < 1024"
    using normalise_guard [of m'] by (auto simp: normalise_inv_def)
  then show ?thesis using that r by (auto simp: normalise_inv_def)
qed

section \<open>Widening\<close>

text \<open>The three parts \<open>halfToFloat\<close> takes out of its argument, kept folded.\<close>

definition half_sign_part :: "half_bits \<Rightarrow> 32 word" where
  "half_sign_part h = push_bit 16 (ucast h AND 0x8000)"

definition half_exp_part :: "half_bits \<Rightarrow> 32 word" where
  "half_exp_part h = drop_bit 10 (ucast h AND 0x7C00)"

definition half_frac_part :: "half_bits \<Rightarrow> 32 word" where
  "half_frac_part h = ucast h AND 0x03FF"

lemma halfToFloat_parts:
  "halfToFloat h =
     (if half_exp_part h = 0 then
        if half_frac_part h = 0 then half_sign_part h
        else case normalise (half_frac_part h) of
          (m, e) \<Rightarrow> half_sign_part h OR push_bit 23 (112 - e + 1) OR push_bit 13 (m AND 0x03FF)
      else if half_exp_part h = 0x1F then
        half_sign_part h OR 0x7F800000 OR push_bit 13 (half_frac_part h)
      else half_sign_part h OR push_bit 23 (half_exp_part h + 112) OR push_bit 13 (half_frac_part h))"
proof -
  have "127 - 15 = (112 :: 32 word)" by simp
  then show ?thesis
    unfolding halfToFloat_def Let_def half_sign_part_def half_exp_part_def half_frac_part_def by simp
qed

lemma half_parts:
  "unat (half_sign_part h) = half_neg h * 2 ^ 31" "unat (half_exp_part h) = half_exp h"
  "unat (half_frac_part h) = half_frac h"
proof -
  have "unat (ucast h AND 0x8000 :: 32 word) = 2 ^ 15 * half_neg h"
    using half_field_bounds(1) [of h] by (simp add: unat_and_numeral unat_ucast_half half_neg_def)
  then show "unat (half_sign_part h) = half_neg h * 2 ^ 31"
    using half_field_bounds(1) [of h] unfolding half_sign_part_def by (subst unat_push) simp_all
  have "unat (ucast h AND 0x7C00 :: 32 word) = 2 ^ 10 * half_exp h"
    by (simp add: unat_and_numeral unat_ucast_half half_exp_def)
  then show "unat (half_exp_part h) = half_exp h"
    unfolding half_exp_part_def unat_drop by simp
  show "unat (half_frac_part h) = half_frac h"
    by (simp add: half_frac_part_def unat_and_numeral unat_ucast_half half_frac_def)
qed

lemma half_parts_eq:
  "half_exp_part h = 0 \<longleftrightarrow> half_exp h = 0" "half_exp_part h = 0x1F \<longleftrightarrow> half_exp h = 31"
  "half_frac_part h = 0 \<longleftrightarrow> half_frac h = 0"
proof -
  have "half_exp_part h = 0x1F \<longleftrightarrow> unat (half_exp_part h) = unat (0x1F :: 32 word)"
    by (rule word_unat_eq_iff)
  then show "half_exp_part h = 0x1F \<longleftrightarrow> half_exp h = 31" by (simp add: half_parts)
qed (use half_parts(2,3) [of h] in \<open>simp_all flip: unat_eq_0\<close>)

text \<open>The fields of a widened half, by class of the half.\<close>

lemma half_frac_pushed: "unat (push_bit 13 (half_frac_part h)) = half_frac h * 2 ^ 13"
  using half_field_bounds(3) [of h] by (subst unat_push) (simp_all add: half_parts)

lemma halfToFloat_zero:
  assumes "half_exp h = 0" "half_frac h = 0"
  shows "unat (halfToFloat h) = half_neg h * 2 ^ 31"
  using assms by (simp add: halfToFloat_parts half_parts half_parts_eq)

lemma halfToFloat_subnormal:
  assumes "half_exp h = 0" "half_frac h \<noteq> 0"
  obtains k where "k \<le> 10" "1024 \<le> half_frac h * 2 ^ k" "half_frac h * 2 ^ k < 2048"
    "unat (halfToFloat h) = half_neg h * 2 ^ 31 + (113 - k) * 2 ^ 23 + (half_frac h * 2 ^ k - 1024) * 2 ^ 13"
proof -
  obtain m' e where n: "normalise (half_frac_part h) = (m', e)" "unat m' = half_frac h * 2 ^ unat e"
    "1024 \<le> unat m'" "unat m' < 2048" "unat e \<le> 10"
    using normalise_result [of "half_frac_part h"] assms(2) half_field_bounds(3) [of h]
    by (auto simp: half_parts)
  have "unat (113 - e) = 113 - unat e"
    using n(5) by (subst unat_sub) (simp_all add: word_le_nat_alt)
  moreover have "112 - e + 1 = 113 - e" by simp
  ultimately have pe: "unat (push_bit 23 (112 - e + 1)) = (113 - unat e) * 2 ^ 23"
    by (subst unat_push) simp_all
  have "unat (m' AND 0x03FF) = unat m' - 1024"
    using n(3,4) by (simp add: unat_and_numeral mod_if)
  then have pm: "unat (push_bit 13 (m' AND 0x03FF)) = (unat m' - 1024) * 2 ^ 13"
    using n(4) by (subst unat_push) simp_all
  have "unat (halfToFloat h) = half_neg h * 2 ^ 31 + (113 - unat e) * 2 ^ 23 + (unat m' - 1024) * 2 ^ 13"
    using unat_pack [OF half_parts(1) pe pm] n(4) assms by (simp add: halfToFloat_parts half_parts_eq n(1))
  then show ?thesis using that [of "unat e"] n by simp
qed

lemma halfToFloat_special:
  assumes "half_exp h = 31"
  shows "unat (halfToFloat h) = half_neg h * 2 ^ 31 + 255 * 2 ^ 23 + half_frac h * 2 ^ 13"
proof -
  have "unat (0x7F800000 :: 32 word) = 255 * 2 ^ 23" by simp
  from unat_pack [OF half_parts(1) this half_frac_pushed] show ?thesis
    using assms half_field_bounds(3) [of h] by (simp add: halfToFloat_parts half_parts_eq)
qed

lemma halfToFloat_normal:
  assumes "half_exp h \<noteq> 0" "half_exp h \<noteq> 31"
  shows "unat (halfToFloat h) = half_neg h * 2 ^ 31 + (half_exp h + 112) * 2 ^ 23 + half_frac h * 2 ^ 13"
proof -
  have "unat (half_exp_part h + 112) = half_exp h + 112"
    using half_field_bounds(2) [of h] by (simp add: unat_word_ariths half_parts)
  then have "unat (push_bit 23 (half_exp_part h + 112)) = (half_exp h + 112) * 2 ^ 23"
    using half_field_bounds(2) [of h] by (subst unat_push) simp_all
  from unat_pack [OF half_parts(1) this half_frac_pushed] show ?thesis
    using assms half_field_bounds(2,3) [of h] by (simp add: halfToFloat_parts half_parts_eq)
qed

section \<open>Narrowing\<close>

definition float_sign_part :: "float_bits \<Rightarrow> 16 word" where
  "float_sign_part x = ucast (drop_bit 16 x AND 0x8000)"

definition float_frac_part :: "float_bits \<Rightarrow> 32 word" where
  "float_frac_part x = x AND 0x7FFFFF"

lemma float_parts:
  "unat (float_sign_part x) = float_neg x * 2 ^ 15" "uint (drop_bit 23 x AND 0xFF) = int (float_exp x)"
  "unat (float_frac_part x) = float_frac x"
proof -
  have "unat x div 2 ^ 16 div 2 ^ 15 = float_neg x"
    unfolding float_neg_def by (simp flip: div_mult2_eq)
  then have "unat (drop_bit 16 x AND 0x8000) = 2 ^ 15 * float_neg x"
    using float_field_bounds(1) [of x] unfolding unat_and_numeral unat_drop by simp
  then show "unat (float_sign_part x) = float_neg x * 2 ^ 15"
    using float_field_bounds(1) [of x]
    unfolding float_sign_part_def unsigned_ucast_eq by (simp add: take_bit_nat_eq_self)
  have "unat (drop_bit 23 x AND 0xFF) = float_exp x"
    unfolding unat_and_numeral unat_drop float_exp_def by simp
  then show "uint (drop_bit 23 x AND 0xFF) = int (float_exp x)" by (metis of_nat_unat)
  show "unat (float_frac_part x) = float_frac x"
    by (simp add: float_frac_part_def unat_and_numeral float_frac_def)
qed

lemma floatToHalf_parts:
  "floatToHalf x =
     (let e = int (float_exp x) - 112
      in if 31 \<le> e then float_sign_part x OR 0x7C00 OR (if float_frac_part x \<noteq> 0 then 0x0200 else 0)
         else if e \<le> 0 then
           if e < -10 then float_sign_part x
           else ucast (ucast (float_sign_part x) OR drop_bit (nat (14 - e)) (float_frac_part x OR 0x800000))
         else ucast (ucast (float_sign_part x) OR push_bit 10 (word_of_int e) OR drop_bit 13 (float_frac_part x)))"
  unfolding floatToHalf_def Let_def float_parts(2) float_sign_part_def [symmetric] float_frac_part_def [symmetric]
  by simp

lemma unat_narrow: "unat w < 2 ^ 16 \<Longrightarrow> unat (ucast (w :: 32 word) :: 16 word) = unat w"
  by (simp add: unsigned_ucast_eq take_bit_nat_eq_self)

lemma unat_sign_or:
  "unat m < 2 ^ 15 \<Longrightarrow>
     unat (ucast (ucast (float_sign_part x) OR m :: 32 word) :: 16 word) = float_neg x * 2 ^ 15 + unat m"
proof -
  assume m: "unat m < 2 ^ 15"
  have "unat (ucast (float_sign_part x) OR m :: 32 word) = float_neg x * 2 ^ 15 + unat m"
    using unat_or_disjoint [of "ucast (float_sign_part x)" 15 "float_neg x" m] m
    by (simp add: unat_ucast_half float_parts mult.commute)
  then show ?thesis using m float_field_bounds(1) [of x] by (subst unat_narrow) simp_all
qed

lemma unat_of_nat_small: "n < 2 ^ 32 \<Longrightarrow> unat (word_of_nat n :: 32 word) = n"
  by (simp add: unat_of_nat)

lemma floatToHalf_special:
  assumes "143 \<le> float_exp x"
  shows "unat (floatToHalf x) = float_neg x * 2 ^ 15 + 31 * 2 ^ 10 + (if float_frac x = 0 then 0 else 512)"
proof -
  let ?p = "if float_frac_part x \<noteq> 0 then 0x0200 else 0 :: 16 word"
  have z: "float_frac_part x = 0 \<longleftrightarrow> float_frac x = 0"
    using float_parts(3) [of x] by (simp flip: unat_eq_0)
  have "unat (0x7C00 OR ?p) = 31 * 2 ^ 10 + (if float_frac x = 0 then 0 else 512)"
    using unat_or_disjoint [of "0x7C00 :: 16 word" 10 31 ?p] z by simp
  then have "unat (float_sign_part x OR 0x7C00 OR ?p) =
      float_neg x * 2 ^ 15 + (31 * 2 ^ 10 + (if float_frac x = 0 then 0 else 512))"
    using unat_or_disjoint [of "float_sign_part x" 15 "float_neg x" "0x7C00 OR ?p"] float_parts(1) [of x]
    by (simp add: mult.commute)
  then show ?thesis using assms by (simp add: floatToHalf_parts Let_def)
qed

lemma floatToHalf_tiny:
  assumes "float_exp x < 102"
  shows "unat (floatToHalf x) = float_neg x * 2 ^ 15"
  using assms by (simp add: floatToHalf_parts Let_def float_parts)

lemma floatToHalf_subnormal:
  assumes "102 \<le> float_exp x" "float_exp x \<le> 112"
  shows "unat (floatToHalf x) = float_neg x * 2 ^ 15 + (float_frac x + 2 ^ 23) div 2 ^ (126 - float_exp x)"
    "(float_frac x + 2 ^ 23) div 2 ^ (126 - float_exp x) < 1024"
proof -
  let ?n = "126 - float_exp x"
  have f: "float_frac x < 2 ^ 23" by (rule float_field_bounds)
  have "unat (0x800000 OR float_frac_part x) = float_frac x + 2 ^ 23"
    using unat_or_disjoint [of "0x800000 :: 32 word" 23 1 "float_frac_part x"] f by (simp add: float_parts)
  then have o: "unat (float_frac_part x OR 0x800000) = float_frac x + 2 ^ 23" by (simp add: or.commute)
  have "(float_frac x + 2 ^ 23) div 2 ^ ?n \<le> (float_frac x + 2 ^ 23) div 2 ^ 14"
    using power_increasing [of 14 ?n "2 :: nat"] assms(2) by (intro div_le_mono2) simp_all
  also have "\<dots> < 1024" using f by (simp add: less_mult_imp_div_less)
  finally show b: "(float_frac x + 2 ^ 23) div 2 ^ ?n < 1024" .
  have "nat (14 - (int (float_exp x) - 112)) = ?n" using assms by linarith
  then have "floatToHalf x = ucast (ucast (float_sign_part x) OR drop_bit ?n (float_frac_part x OR 0x800000))"
    using assms by (simp add: floatToHalf_parts Let_def)
  then show "unat (floatToHalf x) = float_neg x * 2 ^ 15 + (float_frac x + 2 ^ 23) div 2 ^ ?n"
    using unat_sign_or [of "drop_bit ?n (float_frac_part x OR 0x800000)" x] b unfolding unat_drop o by simp
qed

lemma floatToHalf_normal:
  assumes "113 \<le> float_exp x" "float_exp x \<le> 142"
  shows "unat (floatToHalf x) = float_neg x * 2 ^ 15 + (float_exp x - 112) * 2 ^ 10 + float_frac x div 2 ^ 13"
proof -
  let ?e = "int (float_exp x) - 112"
  have f: "float_frac x < 2 ^ 23" by (rule float_field_bounds)
  have "?e = int (float_exp x - 112)" using assms by simp
  then have "(word_of_int ?e :: 32 word) = word_of_nat (float_exp x - 112)"
    by (simp only: of_int_of_nat_eq)
  then have "unat (word_of_int ?e :: 32 word) = float_exp x - 112"
    using unat_of_nat_small [of "float_exp x - 112"] assms(2) by (simp only:) simp
  then have p: "unat (push_bit 10 (word_of_int ?e :: 32 word)) = (float_exp x - 112) * 2 ^ 10"
    using assms(2) by (subst unat_push) simp_all
  have d: "unat (drop_bit 13 (float_frac_part x)) = float_frac x div 2 ^ 13"
    unfolding unat_drop float_parts ..
  have "float_frac x div 2 ^ 13 < 2 ^ 10" using f by (simp add: less_mult_imp_div_less)
  then have "unat (push_bit 10 (word_of_int ?e) OR drop_bit 13 (float_frac_part x) :: 32 word) =
      (float_exp x - 112) * 2 ^ 10 + float_frac x div 2 ^ 13"
    using unat_or_disjoint [of "push_bit 10 (word_of_int ?e :: 32 word)" 10 "float_exp x - 112"] p d
    by (simp add: mult.commute)
  moreover have "(float_exp x - 112) * 2 ^ 10 + float_frac x div 2 ^ 13 < 2 ^ 15"
    using assms(2) \<open>float_frac x div 2 ^ 13 < 2 ^ 10\<close> by simp
  ultimately show ?thesis
    using unat_sign_or [of "push_bit 10 (word_of_int ?e) OR drop_bit 13 (float_frac_part x)" x] assms
    by (simp add: floatToHalf_parts Let_def)
qed

section \<open>Properties\<close>

lemma half_eqI:
  assumes "unat a = unat (b :: half_bits)"
  shows "a = b"
  using assms by (simp add: word_unat_eq_iff)

text \<open>Fields of the widened half, from the lemmas above.\<close>

lemma halfToFloat_fields:
  "half_exp h = 0 \<Longrightarrow> half_frac h = 0 \<Longrightarrow>
     float_neg (halfToFloat h) = half_neg h \<and> float_exp (halfToFloat h) = 0 \<and> float_frac (halfToFloat h) = 0"
  "half_exp h \<noteq> 0 \<Longrightarrow> half_exp h \<noteq> 31 \<Longrightarrow>
     float_neg (halfToFloat h) = half_neg h \<and> float_exp (halfToFloat h) = half_exp h + 112 \<and>
     float_frac (halfToFloat h) = half_frac h * 2 ^ 13"
  "half_exp h = 31 \<Longrightarrow>
     float_neg (halfToFloat h) = half_neg h \<and> float_exp (halfToFloat h) = 255 \<and>
     float_frac (halfToFloat h) = half_frac h * 2 ^ 13"
  using float_of_fields [of "halfToFloat h" "half_neg h" 0 0]
    float_of_fields [of "halfToFloat h" "half_neg h" "half_exp h + 112" "half_frac h * 2 ^ 13"]
    float_of_fields [of "halfToFloat h" "half_neg h" 255 "half_frac h * 2 ^ 13"]
    halfToFloat_zero [of h] halfToFloat_normal [of h] halfToFloat_special [of h] half_field_bounds [of h]
  by simp_all

lemma halfToFloat_subnormal_fields:
  assumes "half_exp h = 0" "half_frac h \<noteq> 0"
  obtains k where "k \<le> 10" "1024 \<le> half_frac h * 2 ^ k" "half_frac h * 2 ^ k < 2048"
    "float_neg (halfToFloat h) = half_neg h" "float_exp (halfToFloat h) = 113 - k"
    "float_frac (halfToFloat h) = (half_frac h * 2 ^ k - 1024) * 2 ^ 13"
proof -
  obtain k where k: "k \<le> 10" "1024 \<le> half_frac h * 2 ^ k" "half_frac h * 2 ^ k < 2048"
    "unat (halfToFloat h) = half_neg h * 2 ^ 31 + (113 - k) * 2 ^ 23 + (half_frac h * 2 ^ k - 1024) * 2 ^ 13"
    using halfToFloat_subnormal [OF assms] .
  have "(half_frac h * 2 ^ k - 1024) * 2 ^ 13 < 2 ^ 23" using k(3) by simp
  then show ?thesis using that k float_of_fields [OF k(4)] by simp
qed

lemma widen_exact:
  assumes "half_exp h < 31"
  shows "float_neg (halfToFloat h) = half_neg h \<and> float_is_finite (halfToFloat h) \<and>
    float_mag (halfToFloat h) = half_mag h * 2 ^ 125"
proof (cases "half_exp h = 0")
  case False
  then have "half_exp h \<noteq> 31" using assms by simp
  note f = halfToFloat_fields(2) [OF False this]
  have "half_exp h + 112 - 1 = half_exp h - 1 + 112" using False by linarith
  then have "2 ^ (half_exp h + 112 - 1) = (2 :: nat) ^ (half_exp h - 1) * 2 ^ 112"
    by (simp only: power_add)
  then show ?thesis
    using f False assms by (simp add: float_mag_def half_mag_def float_is_finite_def algebra_simps)
next
  case exp0: True
  show ?thesis
  proof (cases "half_frac h = 0")
    case True
    then show ?thesis
      using halfToFloat_fields(1) [OF exp0] exp0 by (simp add: float_mag_def half_mag_def float_is_finite_def)
  next
    case False
    obtain k where k: "k \<le> 10" "1024 \<le> half_frac h * 2 ^ k" "half_frac h * 2 ^ k < 2048"
      "float_neg (halfToFloat h) = half_neg h" "float_exp (halfToFloat h) = 113 - k"
      "float_frac (halfToFloat h) = (half_frac h * 2 ^ k - 1024) * 2 ^ 13"
      using halfToFloat_subnormal_fields [OF exp0 False] .
    have "2 ^ 23 + float_frac (halfToFloat h) = half_frac h * 2 ^ k * 2 ^ 13"
      using k(2) by (simp add: k(6))
    moreover have "(2 :: nat) ^ k * 2 ^ 13 * 2 ^ (113 - k - 1) = 2 ^ 125"
      using k(1) by (simp flip: power_add)
    ultimately have "float_mag (halfToFloat h) = half_frac h * 2 ^ 125"
      using k(1) by (simp add: float_mag_def k(5) mult.assoc del: power_Suc)
    then show ?thesis using k exp0 by (simp add: half_mag_def float_is_finite_def)
  qed
qed

text \<open>
  C18: widening is exact. For every finite half the float has the same sign and the same magnitude,
  subnormal halves included; and the loop that normalises those ends.
\<close>

theorem halfToFloat_exact:
  assumes "half_exp h < 31"
  shows "float_neg (halfToFloat h) = half_neg h \<and> float_is_finite (halfToFloat h) \<and>
    float_mag (halfToFloat h) = half_mag h * 2 ^ 125"
  using assms by (rule widen_exact)

theorem halfToFloat_exact_witness:
  "float_mag (halfToFloat 0x8001) = 2 ^ 125 \<and> float_neg (halfToFloat 0x8001) = 1"
proof -
  have h: "half_exp 0x8001 < 31" "half_mag 0x8001 = 1" "half_neg 0x8001 = 1"
    by (simp_all add: half_exp_def half_mag_def half_frac_def half_neg_def)
  show ?thesis using halfToFloat_exact [OF h(1)] by (simp add: h)
qed

lemma narrow_widen:
  "unat (floatToHalf (halfToFloat h)) = (if half_is_nan h then half_neg h * 2 ^ 15 + 0x7E00 else unat h)"
proof (cases "half_exp h = 0")
  case exp0: True
  show ?thesis
  proof (cases "half_frac h = 0")
    case True
    then show ?thesis
      using halfToFloat_fields(1) [OF exp0] floatToHalf_tiny [of "halfToFloat h"] half_fields [of h] exp0
      by (simp add: half_is_nan_def)
  next
    case False
    obtain k where k: "k \<le> 10" "1024 \<le> half_frac h * 2 ^ k" "half_frac h * 2 ^ k < 2048"
      "float_neg (halfToFloat h) = half_neg h" "float_exp (halfToFloat h) = 113 - k"
      "float_frac (halfToFloat h) = (half_frac h * 2 ^ k - 1024) * 2 ^ 13"
      using halfToFloat_subnormal_fields [OF exp0 False] .
    have k0: "k \<noteq> 0" using k(2) half_field_bounds(3) [of h] by (cases k) auto
    have "(float_frac (halfToFloat h) + 2 ^ 23) div 2 ^ (126 - (113 - k)) = half_frac h * (2 ^ k * 2 ^ 13) div 2 ^ (k + 13)"
      using k(1,2) by (simp add: k(6) algebra_simps)
    also have "\<dots> = half_frac h" by (simp add: power_add)
    finally show ?thesis
      using floatToHalf_subnormal(1) [of "halfToFloat h"] k k0 half_fields [of h] exp0
      by (simp add: half_is_nan_def)
  qed
next
  case False
  show ?thesis
  proof (cases "half_exp h = 31")
    case True
    then show ?thesis
      using halfToFloat_fields(3) [OF True] floatToHalf_special [of "halfToFloat h"] half_fields [of h]
      by (simp add: half_is_nan_def)
  next
    case f31: False
    then have "half_exp h + 112 \<le> 142" "113 \<le> half_exp h + 112"
      using False half_field_bounds(2) [of h] by linarith+
    then show ?thesis
      using halfToFloat_fields(2) [OF False f31] floatToHalf_normal [of "halfToFloat h"] half_fields [of h] f31
      by (simp add: half_is_nan_def)
  qed
qed

lemma narrow_widen_id: "\<not> half_is_nan h \<Longrightarrow> floatToHalf (halfToFloat h) = h"
  by (rule half_eqI) (simp add: narrow_widen)

text \<open>
  A half survives the trip through \<open>float\<close> unchanged; of a NaN, the sign survives and the
  payload becomes the single quiet bit.
\<close>

lemma floatToHalf_halfToFloat:
  "unat (floatToHalf (halfToFloat h)) = (if half_is_nan h then half_neg h * 2 ^ 15 + 0x7E00 else unat h)"
  by (rule narrow_widen)

text \<open>The fields of a narrowed float.\<close>

lemma floatToHalf_fields:
  "float_exp x < 102 \<Longrightarrow>
     half_neg (floatToHalf x) = float_neg x \<and> half_exp (floatToHalf x) = 0 \<and> half_frac (floatToHalf x) = 0"
  "102 \<le> float_exp x \<Longrightarrow> float_exp x \<le> 112 \<Longrightarrow>
     half_neg (floatToHalf x) = float_neg x \<and> half_exp (floatToHalf x) = 0 \<and>
     half_frac (floatToHalf x) = (float_frac x + 2 ^ 23) div 2 ^ (126 - float_exp x)"
  "113 \<le> float_exp x \<Longrightarrow> float_exp x \<le> 142 \<Longrightarrow>
     half_neg (floatToHalf x) = float_neg x \<and> half_exp (floatToHalf x) = float_exp x - 112 \<and>
     half_frac (floatToHalf x) = float_frac x div 2 ^ 13"
  "143 \<le> float_exp x \<Longrightarrow>
     half_neg (floatToHalf x) = float_neg x \<and> half_exp (floatToHalf x) = 31 \<and>
     half_frac (floatToHalf x) = (if float_frac x = 0 then 0 else 512)"
  using half_of_fields [of "floatToHalf x" "float_neg x" 0 0]
    half_of_fields [of "floatToHalf x" "float_neg x" 0 "(float_frac x + 2 ^ 23) div 2 ^ (126 - float_exp x)"]
    half_of_fields [of "floatToHalf x" "float_neg x" "float_exp x - 112" "float_frac x div 2 ^ 13"]
    half_of_fields [of "floatToHalf x" "float_neg x" 31 "if float_frac x = 0 then 0 else 512"]
    floatToHalf_tiny [of x] floatToHalf_subnormal [of x] floatToHalf_normal [of x] floatToHalf_special [of x]
    float_field_bounds(3) [of x]
  by (simp_all add: less_mult_imp_div_less)

lemma div_bracket: "(m :: nat) div d * (d * u) \<le> m * u" "0 < d \<Longrightarrow> 0 < u \<Longrightarrow> m * u < (m div d + 1) * (d * u)"
proof -
  show "m div d * (d * u) \<le> m * u" by (simp flip: mult.assoc)
  assume "0 < d" "0 < u"
  then have "m < (m div d + 1) * d" using dividend_less_div_times [of d m] by (simp add: algebra_simps)
  then show "m * u < (m div d + 1) * (d * u)" using \<open>0 < u\<close> by (simp flip: mult.assoc)
qed

text \<open>
  C19: narrowing rounds toward zero. Below the overflow threshold the half keeps the sign, is finite,
  and its magnitude is the largest half magnitude that does not exceed the float's.
\<close>

theorem floatToHalf_truncates:
  assumes "float_exp x < 143"
  shows "half_neg (floatToHalf x) = float_neg x \<and> half_exp (floatToHalf x) < 31 \<and>
    half_mag (floatToHalf x) * 2 ^ 125 \<le> float_mag x \<and>
    float_mag x < (half_mag (floatToHalf x) + half_ulp (floatToHalf x)) * 2 ^ 125"
proof -
  have f: "float_frac x < 2 ^ 23" by (rule float_field_bounds)
  consider "float_exp x < 102" | "102 \<le> float_exp x" "float_exp x \<le> 112"
    | "113 \<le> float_exp x" "float_exp x \<le> 142" using assms by linarith
  then show ?thesis
  proof cases
    case 1
    have "(2 :: nat) ^ (float_exp x - 1) \<le> 2 ^ 100" using 1 by (intro power_increasing) simp_all
    then have "(2 ^ 23 + float_frac x) * 2 ^ (float_exp x - 1) < 2 ^ 24 * 2 ^ 100"
      using f by (intro mult_less_le_imp_less) simp_all
    then show ?thesis using floatToHalf_fields(1) [OF 1] f
      by (simp add: half_mag_def half_ulp_def float_mag_def)
  next
    case 2
    let ?n = "126 - float_exp x" let ?e = "float_exp x - 1"
    have "?n + ?e = 125" using 2 by linarith
    then have p: "(2 :: nat) ^ ?n * 2 ^ ?e = 2 ^ 125" by (simp only: power_add [symmetric])
    have "float_mag x = (float_frac x + 2 ^ 23) * 2 ^ ?e" using 2 by (simp add: float_mag_def)
    then show ?thesis
      using div_bracket [where m = "float_frac x + 2 ^ 23" and d = "2 ^ ?n" and u = "2 ^ ?e"] floatToHalf_fields(2) [OF 2]
      unfolding p by (simp add: half_mag_def half_ulp_def)
  next
    case 3
    let ?e = "float_exp x - 113"
    have "float_exp x - 1 = ?e + 112" using 3 by linarith
    then have m: "float_mag x = (2 ^ 23 + float_frac x) * (2 ^ ?e * 2 ^ 112)"
      using 3 by (simp only: float_mag_def power_add) simp
    have h: "half_mag (floatToHalf x) = ((2 ^ 23 + float_frac x) div 2 ^ 13) * 2 ^ ?e"
      "half_ulp (floatToHalf x) = 2 ^ ?e"
      using floatToHalf_fields(3) [OF 3] 3 by (simp_all add: half_mag_def half_ulp_def)
    have p: "(2 :: nat) ^ 125 = 2 ^ 13 * 2 ^ 112" by simp
    show ?thesis
      using div_bracket [where m = "2 ^ 23 + float_frac x" and d = "2 ^ 13" and u = "2 ^ ?e * 2 ^ 112"] floatToHalf_fields(3) [OF 3] 3
      unfolding m h p by (simp add: algebra_simps)
  qed
qed

theorem floatToHalf_truncates_witness:
  "half_mag (floatToHalf 0x3DCCCCCD) * 2 ^ 125 \<le> float_mag 0x3DCCCCCD"
proof -
  have "float_exp 0x3DCCCCCD < 143" by (simp add: float_exp_def)
  then show ?thesis using floatToHalf_truncates by blast
qed

text \<open>
  C36: above the threshold the result is not rounded toward zero. A float of exponent \<open>2^16\<close> or
  more becomes an infinity when its fraction is zero and a NaN otherwise, although it may be finite.
\<close>

theorem floatToHalf_overflow:
  assumes "143 \<le> float_exp x"
  shows "half_exp (floatToHalf x) = 31 \<and> half_neg (floatToHalf x) = float_neg x \<and>
    (half_is_nan (floatToHalf x) \<longleftrightarrow> float_frac x \<noteq> 0)"
  using floatToHalf_fields(4) [OF assms] by (simp add: half_is_nan_def)

text \<open>\<open>100000.0f\<close> is finite and becomes a NaN.\<close>

theorem floatToHalf_overflow_witness:
  "float_is_finite 0x47C35000 \<and> half_is_nan (floatToHalf 0x47C35000)"
proof -
  have x: "143 \<le> float_exp 0x47C35000" "float_frac 0x47C35000 \<noteq> 0" "float_is_finite 0x47C35000"
    by (simp_all add: float_exp_def float_frac_def float_is_finite_def)
  show ?thesis using floatToHalf_overflow [OF x(1)] x by blast
qed

end
