(* ===== verification/Json_Api.thy ===== *)
theory Json_Api
  imports Half_Float
begin

text \<open>
  The part of nlohmann/json the client calls, as a record of operations. The library is not part of
  the repository, so the operations are parameters of every definition that uses them; what the
  client relies on of their documented behaviour is the predicate \<open>json_laws\<close>, and a small
  concrete document type shows that the laws can hold.
\<close>

section \<open>The operations\<close>

text \<open>
  Numbers are typed by the C++ type of the conversion: \<open>js_of_int32\<close> is \<open>json(int)\<close>,
  \<open>js_int32\<close> is \<open>get<int>()\<close>, and so on; \<open>float\<close> and \<open>double\<close> are bit
  patterns. \<open>js_elems\<close> is what a range-for visits. \<open>js_at\<close> is the \<open>const\<close>
  \<open>operator[]\<close>, \<open>js_value\<close> is \<open>value(key, default)\<close> with a string default,
  \<open>js_set\<close> is \<open>j[key] = v\<close>.
\<close>

record 'j json_api =
  js_null :: 'j
  js_of_string :: "string \<Rightarrow> 'j"
  js_of_bool :: "bool \<Rightarrow> 'j"
  js_of_int32 :: "32 word \<Rightarrow> 'j"
  js_of_uint32 :: "32 word \<Rightarrow> 'j"
  js_of_int64 :: "64 word \<Rightarrow> 'j"
  js_of_uint64 :: "64 word \<Rightarrow> 'j"
  js_of_float :: "32 word \<Rightarrow> 'j"
  js_of_double :: "64 word \<Rightarrow> 'j"
  js_of_array :: "'j list \<Rightarrow> 'j"
  js_set :: "'j \<Rightarrow> string \<Rightarrow> 'j \<Rightarrow> 'j"
  js_is_array :: "'j \<Rightarrow> bool"
  js_is_object :: "'j \<Rightarrow> bool"
  js_elems :: "'j \<Rightarrow> 'j list"
  js_contains :: "'j \<Rightarrow> string \<Rightarrow> bool"
  js_at :: "'j \<Rightarrow> string \<Rightarrow> 'j result"
  js_value :: "'j \<Rightarrow> string \<Rightarrow> string \<Rightarrow> string result"
  js_string :: "'j \<Rightarrow> string result"
  js_int32 :: "'j \<Rightarrow> (32 word) result"
  js_uint32 :: "'j \<Rightarrow> (32 word) result"
  js_int64 :: "'j \<Rightarrow> (64 word) result"
  js_uint64 :: "'j \<Rightarrow> (64 word) result"
  js_float :: "'j \<Rightarrow> (32 word) result"
  js_double :: "'j \<Rightarrow> (64 word) result"
  js_parse :: "string \<Rightarrow> 'j result"
  js_dump :: "'j \<Rightarrow> string result"

text \<open>An object built by assignments to a fresh document, first assignment first.\<close>

definition js_object :: "'j json_api \<Rightarrow> (string \<times> 'j) list \<Rightarrow> 'j" where
  "js_object J kvs = fold (\<lambda>(k, v) j. js_set J j k v) kvs (js_null J)"

section \<open>Documented behaviour\<close>

definition float_is_nan :: "float_bits \<Rightarrow> bool" where
  "float_is_nan x = (float_exp x = 255 \<and> float_frac x \<noteq> 0)"

text \<open>Reading back a stored number; a NaN may come back with another payload.\<close>

definition json_number_laws :: "'j json_api \<Rightarrow> bool" where
  "json_number_laws J =
     ((\<forall>w. js_int32 J (js_of_int32 J w) = Inr w) \<and> (\<forall>w. js_uint32 J (js_of_uint32 J w) = Inr w) \<and>
      (\<forall>w. js_int64 J (js_of_int64 J w) = Inr w) \<and> (\<forall>w. js_uint64 J (js_of_uint64 J w) = Inr w) \<and>
      (\<forall>w. sint w \<ge> 0 \<longrightarrow> js_int64 J (js_of_uint64 J w) = Inr w) \<and>
      (\<forall>w. \<not> float_is_nan w \<longrightarrow> js_float J (js_of_float J w) = Inr w) \<and>
      (\<forall>w. js_double J (js_of_double J w) = Inr w))"

text \<open>
  Arrays and objects. Using \<open>operator[]\<close> of a \<open>const\<close> object with a key it does not
  have is documented as undefined behaviour.
\<close>

definition json_container_laws :: "'j json_api \<Rightarrow> bool" where
  "json_container_laws J =
     ((\<forall>xs. js_is_array J (js_of_array J xs) \<and> js_elems J (js_of_array J xs) = xs) \<and>
      (\<forall>s. js_string J (js_of_string J s) = Inr s) \<and>
      (\<forall>kvs. kvs \<noteq> [] \<longrightarrow> js_is_object J (js_object J kvs)) \<and>
      (\<forall>kvs k. js_contains J (js_object J kvs) k \<longleftrightarrow> k \<in> fst ` set kvs) \<and>
      (\<forall>kvs k v. distinct (map fst kvs) \<longrightarrow> (k, v) \<in> set kvs \<longrightarrow> js_at J (js_object J kvs) k = Inr v) \<and>
      (\<forall>j k. js_is_object J j \<longrightarrow> \<not> js_contains J j k \<longrightarrow> (\<exists>m. js_at J j k = Inl (Undefined_behaviour m))) \<and>
      (\<forall>j k d. js_is_object J j \<longrightarrow> \<not> js_contains J j k \<longrightarrow> js_value J j k d = Inr d) \<and>
      (\<forall>j k v d. js_contains J j k \<longrightarrow> js_at J j k = Inr v \<longrightarrow> js_value J j k d = js_string J v))"

definition json_laws :: "'j json_api \<Rightarrow> bool" where
  "json_laws J = (json_number_laws J \<and> json_container_laws J)"

named_theorems json_simps \<open>the laws as rewrite rules under \<open>json_laws J\<close>\<close>

lemma json_laws_numbers [json_simps]:
  assumes "json_laws J"
  shows "js_int32 J (js_of_int32 J w) = Inr w" "js_uint32 J (js_of_uint32 J w) = Inr w"
    "js_int64 J (js_of_int64 J v) = Inr v" "js_uint64 J (js_of_uint64 J v) = Inr v"
    "\<not> float_is_nan w \<Longrightarrow> js_float J (js_of_float J w) = Inr w"
    "js_double J (js_of_double J v) = Inr v"
    "0 \<le> sint v \<Longrightarrow> js_int64 J (js_of_uint64 J v) = Inr v"
  using assms by (simp_all add: json_laws_def json_number_laws_def)

lemma json_laws_arrays [json_simps]:
  assumes "json_laws J"
  shows "js_is_array J (js_of_array J xs)" "js_elems J (js_of_array J xs) = xs"
    "js_string J (js_of_string J s) = Inr s"
  using assms by (simp_all add: json_laws_def json_container_laws_def)

lemma json_laws_objects:
  assumes "json_laws J"
  shows "kvs \<noteq> [] \<Longrightarrow> js_is_object J (js_object J kvs)"
    "js_contains J (js_object J kvs) k \<longleftrightarrow> k \<in> fst ` set kvs"
    "distinct (map fst kvs) \<Longrightarrow> (k, v) \<in> set kvs \<Longrightarrow> js_at J (js_object J kvs) k = Inr v"
  using assms by (simp_all add: json_laws_def json_container_laws_def)

lemma json_laws_missing:
  assumes "json_laws J" "js_is_object J j" "\<not> js_contains J j k"
  shows "\<exists>m. js_at J j k = Inl (Undefined_behaviour m)" "js_value J j k d = Inr d"
  using assms by (simp_all add: json_laws_def json_container_laws_def)

lemma json_laws_value:
  assumes "json_laws J" "js_contains J j k" "js_at J j k = Inr v"
  shows "js_value J j k d = js_string J v"
  using assms by (simp add: json_laws_def json_container_laws_def)

text \<open>A value that is a string, looked up in an object.\<close>

lemma json_value_object:
  assumes "json_laws J" "distinct (map fst kvs)" "(k, js_of_string J s) \<in> set kvs"
  shows "js_value J (js_object J kvs) k d = Inr s"
  using json_laws_value [OF assms(1) _ json_laws_objects(3) [OF assms]] json_laws_objects(2) [OF assms(1), of kvs k]
    assms(3) json_laws_arrays(3) [OF assms(1)]
  by (metis fst_conv image_eqI)

section \<open>A document type with these laws\<close>

datatype json =
    JNull
  | JString string
  | JBool bool
  | JInt "64 word"
  | JUint "64 word"
  | JFloat "32 word"
  | JDouble "64 word"
  | JArray "json list"
  | JObject "(string \<times> json) list"

fun doc_fields :: "json \<Rightarrow> (string \<times> json) list" where
  "doc_fields (JObject kvs) = kvs"
| "doc_fields _ = []"

fun doc_set :: "json \<Rightarrow> string \<Rightarrow> json \<Rightarrow> json" where
  "doc_set (JObject kvs) k v = JObject ((k, v) # kvs)"
| "doc_set j k v = JObject [(k, v)]"

fun doc_elems :: "json \<Rightarrow> json list" where
  "doc_elems JNull = []"
| "doc_elems (JArray xs) = xs"
| "doc_elems (JObject kvs) = map snd kvs"
| "doc_elems j = [j]"

fun doc_is_array :: "json \<Rightarrow> bool" where
  "doc_is_array (JArray _) = True"
| "doc_is_array _ = False"

fun doc_is_object :: "json \<Rightarrow> bool" where
  "doc_is_object (JObject _) = True"
| "doc_is_object _ = False"

definition doc_contains :: "json \<Rightarrow> string \<Rightarrow> bool" where
  "doc_contains j k = (map_of (doc_fields j) k \<noteq> None)"

definition doc_at :: "json \<Rightarrow> string \<Rightarrow> json result" where
  "doc_at j k =
     (if doc_is_object j then
        case map_of (doc_fields j) k of
          None \<Rightarrow> Inl (Undefined_behaviour ''operator[]'') | Some v \<Rightarrow> Inr v
      else Inl (Library_error ''type_error.305''))"

fun doc_string :: "json \<Rightarrow> string result" where
  "doc_string (JString s) = Inr s"
| "doc_string _ = Inl (Library_error ''type_error.302'')"

definition doc_value :: "json \<Rightarrow> string \<Rightarrow> string \<Rightarrow> string result" where
  "doc_value j k d =
     (if doc_is_object j then
        case map_of (doc_fields j) k of None \<Rightarrow> Inr d | Some v \<Rightarrow> doc_string v
      else Inl (Library_error ''type_error.306''))"

fun doc_integer :: "json \<Rightarrow> (64 word) result" where
  "doc_integer (JInt w) = Inr w"
| "doc_integer (JUint w) = Inr w"
| "doc_integer (JBool b) = Inr (if b then 1 else 0)"
| "doc_integer _ = Inl (Library_error ''type_error.302'')"

fun doc_float :: "json \<Rightarrow> (32 word) result" where
  "doc_float (JFloat w) = Inr w"
| "doc_float _ = Inl (Library_error ''type_error.302'')"

fun doc_double :: "json \<Rightarrow> (64 word) result" where
  "doc_double (JDouble w) = Inr w"
| "doc_double _ = Inl (Library_error ''type_error.302'')"

text \<open>The texts the library reads and writes are given by a table.\<close>

definition doc_api :: "(string \<times> json) list \<Rightarrow> string \<Rightarrow> json json_api" where
  "doc_api texts dumped =
     \<lparr>js_null = JNull, js_of_string = JString, js_of_bool = JBool,
      js_of_int32 = (\<lambda>w. JInt (scast w)), js_of_uint32 = (\<lambda>w. JUint (ucast w)),
      js_of_int64 = JInt, js_of_uint64 = JUint, js_of_float = JFloat, js_of_double = JDouble,
      js_of_array = JArray, js_set = doc_set,
      js_is_array = doc_is_array, js_is_object = doc_is_object, js_elems = doc_elems,
      js_contains = doc_contains, js_at = doc_at, js_value = doc_value, js_string = doc_string,
      js_int32 = (\<lambda>j. map_sum id ucast (doc_integer j)), js_uint32 = (\<lambda>j. map_sum id ucast (doc_integer j)),
      js_int64 = doc_integer, js_uint64 = doc_integer, js_float = doc_float, js_double = doc_double,
      js_parse = (\<lambda>s. case map_of texts s of
                        None \<Rightarrow> Inl (Library_error ''parse_error.101'') | Some j \<Rightarrow> Inr j),
      js_dump = (\<lambda>j. Inr dumped)\<rparr>"

lemma doc_object:
  "js_object (doc_api t d) kvs = (if kvs = [] then JNull else JObject (rev kvs))"
proof (induction kvs rule: rev_induct)
  case (snoc kv kvs)
  then show ?case by (cases kv) (auto simp: js_object_def doc_api_def)
qed (simp add: js_object_def doc_api_def)

lemma ucast_scast_word: "ucast (scast (w :: 32 word) :: 64 word) = w"
  by (rule bit_word_eqI) (auto simp: bit_ucast_iff bit_signed_iff not_less)

lemma ucast_ucast_word: "ucast (ucast (w :: 32 word) :: 64 word) = w"
  by (rule bit_word_eqI) (auto simp: bit_ucast_iff)

lemma doc_laws: "json_laws (doc_api t d)"
  unfolding json_laws_def json_number_laws_def json_container_laws_def
proof (intro conjI allI impI)
  fix kvs :: "(string \<times> json) list" and k v
  assume "distinct (map fst kvs)" "(k, v) \<in> set kvs"
  then have "map_of (rev kvs) k = Some v" "kvs \<noteq> []"
    using map_of_is_SomeI [of "rev kvs" k v] by (auto simp: rev_map [symmetric])
  then show "js_at (doc_api t d) (js_object (doc_api t d) kvs) k = Inr v"
    by (simp add: doc_object doc_at_def) (simp add: doc_api_def doc_at_def)
next
  fix kvs :: "(string \<times> json) list" and k
  show "js_contains (doc_api t d) (js_object (doc_api t d) kvs) k \<longleftrightarrow> k \<in> fst ` set kvs"
    unfolding doc_object by (simp add: doc_api_def doc_contains_def map_of_eq_None_iff)
next
  fix kvs :: "(string \<times> json) list"
  assume "kvs \<noteq> []"
  then show "js_is_object (doc_api t d) (js_object (doc_api t d) kvs)"
    unfolding doc_object by (simp add: doc_api_def)
next
  fix j k v e
  assume "js_contains (doc_api t d) j k" "js_at (doc_api t d) j k = Inr v"
  then show "js_value (doc_api t d) j k e = js_string (doc_api t d) v"
    by (auto simp: doc_api_def doc_at_def doc_value_def doc_contains_def split: if_splits option.splits)
qed (auto simp: doc_api_def doc_at_def doc_value_def doc_contains_def ucast_scast_word ucast_ucast_word
      split: option.splits)

end
