(* ===== verification/Tensor_Codec.thy ===== *)
theory Tensor_Codec
  imports Json_Api
begin

text \<open>
  Tensor payloads between raw little-endian bytes and JSON number arrays
  (\<open>readArray\<close>, \<open>writeArray\<close>, \<open>datatypeByteWidth\<close>,
  \<open>encodeTensorData\<close>, \<open>decodeTensorData\<close> of \<open>src/KserveProtocol.cpp\<close>). The
  locale \<open>byte_codec\<close> is the contract of the \<open>std::memcpy\<close> between a buffer and a
  value of fixed width; the four integer widths of the code provide it.
\<close>

section \<open>Fixed-width values in a byte buffer\<close>

locale byte_codec =
  fixes width :: nat
    and load :: "byte list \<Rightarrow> 'a"
    and store :: "'a \<Rightarrow> byte list"
  assumes width_pos: "0 < width"
    and store_length: "length (store v) = width"
    and load_store: "load (store v) = v"
    and store_load: "length bs = width \<Longrightarrow> store (load bs) = bs"
begin

lemma store_blocks:
  assumes "width dvd length bs"
  shows "concat (map (\<lambda>i. store (load (block width bs i))) [0..<length bs div width]) = bs"
proof -
  have "map (\<lambda>i. store (load (block width bs i))) [0..<length bs div width] =
      map (block width bs) [0..<length bs div width]"
    by (rule map_cong) (simp_all add: store_load block_length)
  then show ?thesis using concat_all_blocks [OF assms] by (simp only:)
qed

lemma stores_length: "length (concat (map store vs)) = width * length vs"
  by (induction vs) (simp_all add: store_length)

lemma load_blocks: "map (\<lambda>i. load (block width (concat (map store vs)) i)) [0..<length vs] = vs"
proof (induction vs)
  case (Cons v vs)
  have "block width (store v @ concat (map store vs)) (Suc i) = block width (concat (map store vs)) i" for i
    by (simp add: block_def store_length add.commute)
  moreover have "block width (store v @ concat (map store vs)) 0 = store v"
    by (simp add: block_def store_length)
  ultimately show ?case
    using Cons by (simp add: upt_conv_Cons load_store map_Suc_upt [symmetric] comp_def del: upt_Suc)
qed simp

end

interpretation bytes1: byte_codec 1 "le_word :: byte list \<Rightarrow> 8 word" "le_bytes 1"
  by unfold_locales (simp, simp, rule le_word_le_bytes, simp, rule le_bytes_le_word, simp_all)

interpretation bytes2: byte_codec 2 "le_word :: byte list \<Rightarrow> 16 word" "le_bytes 2"
  by unfold_locales (simp, simp, rule le_word_le_bytes, simp, rule le_bytes_le_word, simp_all)

interpretation bytes4: byte_codec 4 "le_word :: byte list \<Rightarrow> 32 word" "le_bytes 4"
  by unfold_locales (simp, simp, rule le_word_le_bytes, simp, rule le_bytes_le_word, simp_all)

interpretation bytes8: byte_codec 8 "le_word :: byte list \<Rightarrow> 64 word" "le_bytes 8"
  by unfold_locales (simp, simp, rule le_word_le_bytes, simp, rule le_bytes_le_word, simp_all)

section \<open>The code\<close>

text \<open>
  The C++ type argument \<open>T\<close> is the word type of the projection; \<open>sizeof(T)\<close> is its
  length in bytes.
\<close>

definition readArray :: "'j json_api \<Rightarrow> ('a::len word \<Rightarrow> 'j) \<Rightarrow> byte list \<Rightarrow> 'j result" where
  "readArray J proj bytes =
     (let width = LENGTH('a) div 8
      in if length bytes mod width \<noteq> 0 then
           Inl (Runtime_error ''KServe input byte count is not a multiple of the datatype width'')
         else
           let count = length bytes div width
           in Inr (js_of_array J (map (\<lambda>i. proj (le_word (block width bytes i))) [0..<count])))"

definition writeArray :: "'j json_api \<Rightarrow> ('j \<Rightarrow> 'a::len word result) \<Rightarrow> 'j \<Rightarrow> byte list result" where
  "writeArray J proj data =
     bindR (mapR proj (js_elems J data)) (\<lambda>values.
       Inr (concat (map (le_bytes (LENGTH('a) div 8)) values)))"

definition datatypeByteWidth :: "string \<Rightarrow> nat" where
  "datatypeByteWidth datatype =
     (if datatype = ''BOOL'' \<or> datatype = ''INT8'' \<or> datatype = ''UINT8'' then 1
      else if datatype = ''FP16'' \<or> datatype = ''BF16'' \<or> datatype = ''INT16'' \<or> datatype = ''UINT16'' then 2
      else if datatype = ''FP32'' \<or> datatype = ''INT32'' \<or> datatype = ''UINT32'' then 4
      else if datatype = ''FP64'' \<or> datatype = ''INT64'' \<or> datatype = ''UINT64'' then 8
      else 0)"

definition encodeTensorData :: "'j json_api \<Rightarrow> byte list \<Rightarrow> string \<Rightarrow> 'j result" where
  "encodeTensorData J bytes datatype =
     (if datatype = ''FP32'' then readArray J (\<lambda>v :: 32 word. js_of_float J v) bytes
      else if datatype = ''FP64'' then readArray J (\<lambda>v :: 64 word. js_of_double J v) bytes
      else if datatype = ''FP16'' then readArray J (\<lambda>v :: 16 word. js_of_float J (halfToFloat v)) bytes
      else if datatype = ''INT8'' then readArray J (\<lambda>v :: 8 word. js_of_int32 J (scast v)) bytes
      else if datatype = ''INT16'' then readArray J (\<lambda>v :: 16 word. js_of_int32 J (scast v)) bytes
      else if datatype = ''INT32'' then readArray J (\<lambda>v :: 32 word. js_of_int32 J v) bytes
      else if datatype = ''INT64'' then readArray J (\<lambda>v :: 64 word. js_of_int64 J v) bytes
      else if datatype = ''UINT8'' \<or> datatype = ''BOOL'' then
        readArray J (\<lambda>v :: 8 word. js_of_uint32 J (ucast v)) bytes
      else if datatype = ''UINT16'' then readArray J (\<lambda>v :: 16 word. js_of_uint32 J (ucast v)) bytes
      else if datatype = ''UINT32'' then readArray J (\<lambda>v :: 32 word. js_of_uint32 J v) bytes
      else if datatype = ''UINT64'' then readArray J (\<lambda>v :: 64 word. js_of_uint64 J v) bytes
      else Inl (Runtime_error (''unsupported KServe input datatype: '' @ datatype)))"

definition decodeTensorData :: "'j json_api \<Rightarrow> 'j \<Rightarrow> string \<Rightarrow> byte list result" where
  "decodeTensorData J data datatype =
     (if \<not> js_is_array J data then Inl (Runtime_error ''KServe output data is not a JSON array'')
      else if datatype = ''FP32'' then writeArray J (js_float J) data
      else if datatype = ''FP64'' then writeArray J (js_double J) data
      else if datatype = ''FP16'' then
        writeArray J (\<lambda>e. bindR (js_float J e) (\<lambda>v. Inr (floatToHalf v))) data
      else if datatype = ''INT8'' then
        writeArray J (\<lambda>e. bindR (js_int32 J e) (\<lambda>v. Inr (ucast v :: 8 word))) data
      else if datatype = ''INT16'' then
        writeArray J (\<lambda>e. bindR (js_int32 J e) (\<lambda>v. Inr (ucast v :: 16 word))) data
      else if datatype = ''INT32'' then writeArray J (js_int32 J) data
      else if datatype = ''INT64'' then writeArray J (js_int64 J) data
      else if datatype = ''UINT8'' \<or> datatype = ''BOOL'' then
        writeArray J (\<lambda>e. bindR (js_uint32 J e) (\<lambda>v. Inr (ucast v :: 8 word))) data
      else if datatype = ''UINT16'' then
        writeArray J (\<lambda>e. bindR (js_uint32 J e) (\<lambda>v. Inr (ucast v :: 16 word))) data
      else if datatype = ''UINT32'' then writeArray J (js_uint32 J) data
      else if datatype = ''UINT64'' then writeArray J (js_uint64 J) data
      else Inl (Runtime_error (''unsupported KServe output datatype: '' @ datatype)))"

section \<open>Arrays\<close>

lemma readArray_ok_iff: "is_ok (readArray J (proj :: 'a::len word \<Rightarrow> 'j) bytes) \<longleftrightarrow> LENGTH('a) div 8 dvd length bytes"
  by (simp add: readArray_def Let_def dvd_eq_mod_eq_0)

lemma writeArray_length:
  assumes "writeArray J (proj :: 'j \<Rightarrow> 'a::len word result) data = Inr bytes"
  shows "length bytes = LENGTH('a) div 8 * length (js_elems J data)"
proof -
  obtain vs where vs: "mapR proj (js_elems J data) = Inr vs"
    "bytes = concat (map (le_bytes (LENGTH('a) div 8)) vs)"
    using assms by (auto simp: writeArray_def bindR_eq_Inr)
  have "length bytes = LENGTH('a) div 8 * length vs"
    unfolding vs(2) by (induction vs) simp_all
  then show ?thesis using mapR_length [OF vs(1)] by simp
qed

text \<open>
  Reading an array and writing it back, for any projection that can be undone, and the pair of
  functions that dispatch to it.
\<close>

lemma writeArray_readArray:
  fixes put :: "'a::len word \<Rightarrow> 'j" and get :: "'j \<Rightarrow> 'a word result"
  assumes "json_laws J" and codec: "byte_codec w (le_word :: byte list \<Rightarrow> 'a word) (le_bytes w)"
    and w: "LENGTH('a) div 8 = w" "w dvd length bytes"
    and inv: "\<And>i. i < length bytes div w \<Longrightarrow> get (put (le_word (block w bytes i))) = Inr (le_word (block w bytes i))"
  shows "\<exists>j. readArray J put bytes = Inr j \<and> js_is_array J j \<and> writeArray J get j = Inr bytes"
proof -
  let ?vs = "map (\<lambda>i. le_word (block w bytes i) :: 'a word) [0..<length bytes div w]"
  have r: "readArray J put bytes = Inr (js_of_array J (map put ?vs))"
    using w by (simp add: readArray_def Let_def comp_def dvd_eq_mod_eq_0)
  have "mapR get (map put ?vs) = Inr ?vs"
    unfolding mapR_map by (rule mapR_all_Inr) (use inv in auto)
  then have "writeArray J get (js_of_array J (map put ?vs)) = Inr (concat (map (le_bytes w) ?vs))"
    by (simp only: writeArray_def json_laws_arrays [OF assms(1)] bindR_simps w)
  also have "concat (map (le_bytes w) ?vs) = bytes"
    using byte_codec.store_blocks [OF codec w(2)] by (simp add: comp_def)
  finally show ?thesis by (simp add: r json_laws_arrays [OF assms(1)])
qed

lemma ucast_scast_up:
  "ucast (scast (v :: 8 word) :: 32 word) = v" "ucast (scast (u :: 16 word) :: 32 word) = u"
  "ucast (ucast (v :: 8 word) :: 32 word) = v" "ucast (ucast (u :: 16 word) :: 32 word) = u"
  by (rule bit_word_eqI, auto simp: bit_ucast_iff bit_signed_iff not_less)+

lemma float_not_nan_widen: "\<not> half_is_nan h \<Longrightarrow> \<not> float_is_nan (halfToFloat h)"
proof -
  assume "\<not> half_is_nan h"
  then consider "half_exp h < 31" | "half_exp h = 31" "half_frac h = 0"
    using half_field_bounds(2) [of h] by (fastforce simp: half_is_nan_def)
  then show ?thesis
  proof cases
    case 1
    then show ?thesis using widen_exact [of h] by (simp add: float_is_nan_def float_is_finite_def)
  next
    case 2
    then show ?thesis using halfToFloat_fields(3) [of h] by (simp add: float_is_nan_def)
  qed
qed

section \<open>Properties\<close>

text \<open>Values the JSON number types carry without loss: everything but the NaNs of FP16 and FP32.\<close>

definition carries_no_nan :: "string \<Rightarrow> byte list \<Rightarrow> bool" where
  "carries_no_nan datatype bytes =
     ((datatype = ''FP32'' \<longrightarrow> (\<forall>i \<in> {..<length bytes div 4}. \<not> float_is_nan (le_word (block 4 bytes i)))) \<and>
      (datatype = ''FP16'' \<longrightarrow> (\<forall>i \<in> {..<length bytes div 2}. \<not> half_is_nan (le_word (block 2 bytes i)))))"

definition json_datatype :: "string \<Rightarrow> bool" where
  "json_datatype datatype = (datatypeByteWidth datatype \<noteq> 0 \<and> datatype \<noteq> ''BF16'')"

lemma json_datatype_iff:
  "json_datatype dt \<longleftrightarrow>
     dt \<in> {''FP32'', ''FP64'', ''FP16'', ''INT8'', ''INT16'', ''INT32'', ''INT64'', ''UINT8'', ''BOOL'',
           ''UINT16'', ''UINT32'', ''UINT64''}"
  by (auto simp: json_datatype_def datatypeByteWidth_def)

lemma json_datatype_cases:
  assumes "json_datatype dt"
    and "P ''FP32''" "P ''FP64''" "P ''FP16''" "P ''INT8''" "P ''INT16''" "P ''INT32''" "P ''INT64''"
    "P ''UINT8''" "P ''BOOL''" "P ''UINT16''" "P ''UINT32''" "P ''UINT64''"
  shows "P dt"
  using assms(1) unfolding json_datatype_iff insert_iff empty_iff by (elim disjE FalseE) (simp_all only: assms)

lemma codec_laws:
  "byte_codec 1 (le_word :: byte list \<Rightarrow> 8 word) (le_bytes 1)"
  "byte_codec 2 (le_word :: byte list \<Rightarrow> 16 word) (le_bytes 2)"
  "byte_codec 4 (le_word :: byte list \<Rightarrow> 32 word) (le_bytes 4)"
  "byte_codec 8 (le_word :: byte list \<Rightarrow> 64 word) (le_bytes 8)"
  by (rule bytes1.byte_codec_axioms bytes2.byte_codec_axioms bytes4.byte_codec_axioms bytes8.byte_codec_axioms)+

lemma encode_cases:
  "encodeTensorData J bytes ''FP32'' = readArray J (js_of_float J) bytes"
  "encodeTensorData J bytes ''FP64'' = readArray J (js_of_double J) bytes"
  "encodeTensorData J bytes ''FP16'' = readArray J (\<lambda>v. js_of_float J (halfToFloat v)) bytes"
  "encodeTensorData J bytes ''INT8'' = readArray J (\<lambda>v :: 8 word. js_of_int32 J (scast v)) bytes"
  "encodeTensorData J bytes ''INT16'' = readArray J (\<lambda>v :: 16 word. js_of_int32 J (scast v)) bytes"
  "encodeTensorData J bytes ''INT32'' = readArray J (js_of_int32 J) bytes"
  "encodeTensorData J bytes ''INT64'' = readArray J (js_of_int64 J) bytes"
  "encodeTensorData J bytes ''UINT8'' = readArray J (\<lambda>v :: 8 word. js_of_uint32 J (ucast v)) bytes"
  "encodeTensorData J bytes ''BOOL'' = readArray J (\<lambda>v :: 8 word. js_of_uint32 J (ucast v)) bytes"
  "encodeTensorData J bytes ''UINT16'' = readArray J (\<lambda>v :: 16 word. js_of_uint32 J (ucast v)) bytes"
  "encodeTensorData J bytes ''UINT32'' = readArray J (js_of_uint32 J) bytes"
  "encodeTensorData J bytes ''UINT64'' = readArray J (js_of_uint64 J) bytes"
  by (simp_all add: encodeTensorData_def)

lemma decode_cases:
  assumes "js_is_array J data"
  shows
  "decodeTensorData J data ''FP32'' = writeArray J (js_float J) data"
  "decodeTensorData J data ''FP64'' = writeArray J (js_double J) data"
  "decodeTensorData J data ''FP16'' = writeArray J (\<lambda>e. bindR (js_float J e) (\<lambda>v. Inr (floatToHalf v))) data"
  "decodeTensorData J data ''INT8'' = writeArray J (\<lambda>e. bindR (js_int32 J e) (\<lambda>v. Inr (ucast v :: 8 word))) data"
  "decodeTensorData J data ''INT16'' = writeArray J (\<lambda>e. bindR (js_int32 J e) (\<lambda>v. Inr (ucast v :: 16 word))) data"
  "decodeTensorData J data ''INT32'' = writeArray J (js_int32 J) data"
  "decodeTensorData J data ''INT64'' = writeArray J (js_int64 J) data"
  "decodeTensorData J data ''UINT8'' = writeArray J (\<lambda>e. bindR (js_uint32 J e) (\<lambda>v. Inr (ucast v :: 8 word))) data"
  "decodeTensorData J data ''BOOL'' = writeArray J (\<lambda>e. bindR (js_uint32 J e) (\<lambda>v. Inr (ucast v :: 8 word))) data"
  "decodeTensorData J data ''UINT16'' = writeArray J (\<lambda>e. bindR (js_uint32 J e) (\<lambda>v. Inr (ucast v :: 16 word))) data"
  "decodeTensorData J data ''UINT32'' = writeArray J (js_uint32 J) data"
  "decodeTensorData J data ''UINT64'' = writeArray J (js_uint64 J) data"
  using assms by (simp_all add: decodeTensorData_def)

lemma width_cases:
  "datatypeByteWidth ''FP32'' = 4"
  "datatypeByteWidth ''FP64'' = 8"
  "datatypeByteWidth ''FP16'' = 2"
  "datatypeByteWidth ''INT8'' = 1"
  "datatypeByteWidth ''INT16'' = 2"
  "datatypeByteWidth ''INT32'' = 4"
  "datatypeByteWidth ''INT64'' = 8"
  "datatypeByteWidth ''UINT8'' = 1"
  "datatypeByteWidth ''BOOL'' = 1"
  "datatypeByteWidth ''UINT16'' = 2"
  "datatypeByteWidth ''UINT32'' = 4"
  "datatypeByteWidth ''UINT64'' = 8"
  by (simp_all add: datatypeByteWidth_def)

lemma len_simps: "LENGTH(8) div 8 = 1" "LENGTH(16) div 8 = 2" "LENGTH(32) div 8 = 4" "LENGTH(64) div 8 = 8"
  by simp_all

text \<open>The hypotheses of one round trip, for each projection.\<close>

lemma projection_inverts:
  assumes "json_laws J"
  shows "bindR (js_int32 J (js_of_int32 J (scast (a :: 8 word)))) (\<lambda>v. Inr (ucast v :: 8 word)) = Inr a"
    "bindR (js_int32 J (js_of_int32 J (scast (b :: 16 word)))) (\<lambda>v. Inr (ucast v :: 16 word)) = Inr b"
    "bindR (js_uint32 J (js_of_uint32 J (ucast a))) (\<lambda>v. Inr (ucast v :: 8 word)) = Inr a"
    "bindR (js_uint32 J (js_of_uint32 J (ucast b))) (\<lambda>v. Inr (ucast v :: 16 word)) = Inr b"
    "\<not> half_is_nan b \<Longrightarrow> bindR (js_float J (js_of_float J (halfToFloat b))) (\<lambda>v. Inr (floatToHalf v)) = Inr b"
  by (simp_all only: json_laws_numbers [OF assms] bindR_simps ucast_scast_up)
    (simp_all only: json_laws_numbers [OF assms] float_not_nan_widen bindR_simps narrow_widen_id not_False_eq_True simp_thms)

lemma dispatch_roundtrip:
  fixes put :: "'a::len word \<Rightarrow> 'j" and get :: "'j \<Rightarrow> 'a word result"
  assumes "json_laws J" "datatypeByteWidth dt dvd length bytes"
    and "byte_codec w (le_word :: byte list \<Rightarrow> 'a word) (le_bytes w)"
    and "encodeTensorData J bytes dt = readArray J put bytes"
    and "\<And>j. js_is_array J j \<Longrightarrow> decodeTensorData J j dt = writeArray J get j"
    and "datatypeByteWidth dt = w" "LENGTH('a) div 8 = w"
    and "\<And>i. i < length bytes div w \<Longrightarrow> get (put (le_word (block w bytes i))) = Inr (le_word (block w bytes i))"
  shows "bindR (encodeTensorData J bytes dt) (\<lambda>j. decodeTensorData J j dt) = Inr bytes"
  using writeArray_readArray [OF assms(1,3,7) _ assms(8)] assms(2,4,5,6) by auto

lemmas dispatch_at = dispatch_roundtrip [OF _ _ codec_laws(1) _ _ _ len_simps(1)]
  dispatch_roundtrip [OF _ _ codec_laws(2) _ _ _ len_simps(2)]
  dispatch_roundtrip [OF _ _ codec_laws(3) _ _ _ len_simps(3)]
  dispatch_roundtrip [OF _ _ codec_laws(4) _ _ _ len_simps(4)]

lemma codec_inverts:
  assumes "json_laws J" "json_datatype dt" "datatypeByteWidth dt dvd length bytes" "carries_no_nan dt bytes"
  shows "bindR (encodeTensorData J bytes dt) (\<lambda>j. decodeTensorData J j dt) = Inr bytes"
proof -
  note js = json_laws_numbers [OF assms(1)] and inv = projection_inverts [OF assms(1)]
  note dispatch =
    dispatch_at(3) [OF assms(1) _ encode_cases(1) decode_cases(1) width_cases(1) js(5)]
    dispatch_at(4) [OF assms(1) _ encode_cases(2) decode_cases(2) width_cases(2) js(6)]
    dispatch_at(2) [OF assms(1) _ encode_cases(3) decode_cases(3) width_cases(3) inv(5)]
    dispatch_at(1) [OF assms(1) _ encode_cases(4) decode_cases(4) width_cases(4) inv(1)]
    dispatch_at(2) [OF assms(1) _ encode_cases(5) decode_cases(5) width_cases(5) inv(2)]
    dispatch_at(3) [OF assms(1) _ encode_cases(6) decode_cases(6) width_cases(6) js(1)]
    dispatch_at(4) [OF assms(1) _ encode_cases(7) decode_cases(7) width_cases(7) js(3)]
    dispatch_at(1) [OF assms(1) _ encode_cases(8) decode_cases(8) width_cases(8) inv(3)]
    dispatch_at(1) [OF assms(1) _ encode_cases(9) decode_cases(9) width_cases(9) inv(3)]
    dispatch_at(2) [OF assms(1) _ encode_cases(10) decode_cases(10) width_cases(10) inv(4)]
    dispatch_at(3) [OF assms(1) _ encode_cases(11) decode_cases(11) width_cases(11) js(2)]
    dispatch_at(4) [OF assms(1) _ encode_cases(12) decode_cases(12) width_cases(12) js(4)]
  have "datatypeByteWidth dt dvd length bytes \<longrightarrow> carries_no_nan dt bytes \<longrightarrow>
      bindR (encodeTensorData J bytes dt) (\<lambda>j. decodeTensorData J j dt) = Inr bytes"
    by (rule json_datatype_cases [OF assms(2)]; intro impI; rule dispatch; (assumption | simp add: carries_no_nan_def))
  then show ?thesis using assms(3,4) by blast
qed

text \<open>
  C12: the JSON codec loses nothing. Every payload whose length is a multiple of the width of its
  (JSON-capable) datatype is encoded, and decoding the JSON array gives back the same bytes, NaNs of
  the two narrow float types apart.
\<close>

theorem tensor_roundtrip:
  assumes "json_laws J" "json_datatype dt" "datatypeByteWidth dt dvd length bytes" "carries_no_nan dt bytes"
  shows "bindR (encodeTensorData J bytes dt) (\<lambda>j. decodeTensorData J j dt) = Inr bytes"
  using assms by (rule codec_inverts)

text \<open>Two floats, \<open>1.0f\<close> and \<open>-2.5f\<close>, through a concrete library.\<close>

theorem tensor_roundtrip_witness:
  "bindR (encodeTensorData (doc_api [] []) [0, 0, 128, 63, 0, 0, 32, 192] ''FP32'')
     (\<lambda>j. decodeTensorData (doc_api [] []) j ''FP32'') = Inr [0, 0, 128, 63, 0, 0, 32, 192]"
proof (rule tensor_roundtrip [OF doc_laws])
  show "json_datatype ''FP32''" by code_simp
  show "datatypeByteWidth ''FP32'' dvd length [0, 0, 128, 63, 0, 0, 32, 192 :: byte]" by code_simp
  have "i < 2 \<Longrightarrow> \<not> float_is_nan (le_word (block 4 [0, 0, 128, 63, 0, 0, 32, 192] i))" for i :: nat
    by (auto simp: less_2_cases_iff block_def float_is_nan_def float_exp_def)
  then show "carries_no_nan ''FP32'' [0, 0, 128, 63, 0, 0, 32, 192]" by (simp add: carries_no_nan_def)
qed

lemma readArray_error:
  "readArray J (put :: 'a::len word \<Rightarrow> 'j) bytes = Inl e \<longleftrightarrow> \<not> LENGTH('a) div 8 dvd length bytes \<and>
     e = Runtime_error ''KServe input byte count is not a multiple of the datatype width''"
  by (auto simp: readArray_def Let_def dvd_eq_mod_eq_0)

lemma not_json_datatype:
  assumes "\<not> json_datatype dt"
  shows "encodeTensorData J bytes dt = Inl (Runtime_error (''unsupported KServe input datatype: '' @ dt))"
    "js_is_array J data \<Longrightarrow>
       decodeTensorData J data dt = Inl (Runtime_error (''unsupported KServe output datatype: '' @ dt))"
  using assms unfolding json_datatype_iff by (simp_all add: encodeTensorData_def decodeTensorData_def)

lemma encode_error_json:
  "json_datatype dt \<Longrightarrow> encodeTensorData J bytes dt = Inl e \<longleftrightarrow> \<not> datatypeByteWidth dt dvd length bytes \<and>
     e = Runtime_error ''KServe input byte count is not a multiple of the datatype width''"
  by (erule json_datatype_cases) (simp_all only: encode_cases width_cases readArray_error len_simps)

text \<open>
  C40: encoding fails in exactly two ways. An unsupported datatype, which includes BYTES and also BF16
  although \<open>datatypeByteWidth\<close> knows its width, and a payload that is not a whole number of
  elements; every other payload is encoded.
\<close>

theorem encodeTensorData_error:
  "encodeTensorData J bytes dt = Inl e \<longleftrightarrow>
     (if datatypeByteWidth dt = 0 \<or> dt = ''BF16'' then
        e = Runtime_error (''unsupported KServe input datatype: '' @ dt)
      else datatypeByteWidth dt dvd length bytes = False \<and>
        e = Runtime_error ''KServe input byte count is not a multiple of the datatype width'')"
proof (cases "json_datatype dt")
  case True
  then show ?thesis unfolding encode_error_json [OF True] by (simp add: json_datatype_def)
next
  case False
  then show ?thesis unfolding not_json_datatype(1) [OF False] by (auto simp: json_datatype_def)
qed

lemma decode_length_json:
  "json_datatype dt \<Longrightarrow> js_is_array J data \<Longrightarrow> decodeTensorData J data dt = Inr bytes \<longrightarrow>
     length bytes = datatypeByteWidth dt * length (js_elems J data)"
  by (erule json_datatype_cases)
    (simp_all only: decode_cases width_cases, (rule impI, drule writeArray_length, simp only: len_simps)+)

text \<open>
  Decoding a data array yields exactly the width of the datatype for each of its elements, and
  nothing but an array of a supported datatype decodes.
\<close>

lemma decodeTensorData_length:
  assumes "decodeTensorData J data dt = Inr bytes"
  shows "js_is_array J data \<and> datatypeByteWidth dt \<noteq> 0 \<and> dt \<noteq> ''BF16'' \<and>
    length bytes = datatypeByteWidth dt * length (js_elems J data)"
proof -
  have a: "js_is_array J data" using assms by (auto simp: decodeTensorData_def split: if_splits)
  moreover have d: "json_datatype dt" using assms not_json_datatype(2) [OF _ a] by fastforce
  ultimately show ?thesis using decode_length_json [OF d a] assms d by (simp add: json_datatype_def)
qed

end
