(* ===== verification/Binary_Tensor.thy ===== *)
theory Binary_Tensor
  imports Client_Types Tensor_Codec Cpp_String
begin

text \<open>
  The binary tensor extension, the endpoint paths and the repository index of
  \<open>src/KserveProtocol.cpp\<close>. A binary body is a JSON header followed by the payloads of all
  tensors in order; a node carries only the byte count of its payload.
\<close>

section \<open>The code\<close>

definition serverLivePath :: string where
  "serverLivePath = ''/v2/health/live''"

definition serverReadyPath :: string where
  "serverReadyPath = ''/v2/health/ready''"

definition modelReadyPath :: "string \<Rightarrow> string \<Rightarrow> string" where
  "modelReadyPath model_name model_version =
     (if model_version = [] then ''/v2/models/'' @ model_name @ ''/ready''
      else ''/v2/models/'' @ model_name @ ''/versions/'' @ model_version @ ''/ready'')"

definition repositoryIndexPath :: string where
  "repositoryIndexPath = ''/v2/repository/index''"

definition repositoryModelLoadPath :: "string \<Rightarrow> string" where
  "repositoryModelLoadPath model_name = ''/v2/repository/models/'' @ model_name @ ''/load''"

definition repositoryModelUnloadPath :: "string \<Rightarrow> string" where
  "repositoryModelUnloadPath model_name = ''/v2/repository/models/'' @ model_name @ ''/unload''"

definition index_entry :: "'j json_api \<Rightarrow> 'j \<Rightarrow> RepositoryModel result" where
  "index_entry J entry =
     bindR (js_value J entry ''name'' []) (\<lambda>n.
     bindR (js_value J entry ''version'' []) (\<lambda>v.
     bindR (js_value J entry ''state'' []) (\<lambda>s.
     bindR (js_value J entry ''reason'' []) (\<lambda>r.
       Inr \<lparr>rm_name = n, rm_version = v, rm_state = s, rm_reason = r\<rparr>))))"

definition parseRepositoryIndex :: "'j json_api \<Rightarrow> 'j \<Rightarrow> RepositoryModel list result" where
  "parseRepositoryIndex J body =
     (if \<not> js_is_array J body then Inl (Runtime_error ''KServe repository index is not a JSON array'')
      else mapR (index_entry J) (js_elems J body))"

definition json_shape :: "'j json_api \<Rightarrow> 64 word list \<Rightarrow> 'j" where
  "json_shape J shape = js_of_array J (map (js_of_int64 J) shape)"

definition appendBinaryInput ::
    "'j json_api \<Rightarrow> string \<Rightarrow> string \<Rightarrow> 64 word list \<Rightarrow> byte list \<Rightarrow> byte list \<Rightarrow> 'j \<times> byte list" where
  "appendBinaryInput J name datatype shape bytes blob =
     (js_object J
        [(''name'', js_of_string J name),
         (''datatype'', js_of_string J datatype),
         (''shape'', json_shape J shape),
         (''parameters'', js_object J [(''binary_data_size'', js_of_uint64 J (word_of_nat (length bytes)))])],
      blob @ bytes)"

definition requestBinaryOutput :: "'j json_api \<Rightarrow> string \<Rightarrow> 'j" where
  "requestBinaryOutput J name =
     js_object J
       [(''name'', js_of_string J name),
        (''parameters'', js_object J [(''binary_data'', js_of_bool J True)])]"

definition binaryDataSize :: "'j json_api \<Rightarrow> 'j \<Rightarrow> int result" where
  "binaryDataSize J node =
     (if \<not> js_contains J node ''parameters'' then Inr (- 1)
      else bindR (js_at J node ''parameters'') (\<lambda>params.
        if \<not> js_contains J params ''binary_data_size'' then Inr (- 1)
        else bindR (js_at J params ''binary_data_size'') (\<lambda>v.
          bindR (js_int64 J v) (\<lambda>n. Inr (sint n)))))"

definition splitBinaryBody :: "'j json_api \<Rightarrow> string \<Rightarrow> nat \<Rightarrow> ('j \<times> byte list) result" where
  "splitBinaryBody J body header_len =
     (if length body < header_len then
        Inl (Runtime_error ''invalid binary response: header length exceeds body'')
      else bindR (js_parse J (take header_len body)) (\<lambda>header.
        Inr (header, map byte_of_char (drop header_len body))))"

definition sliceBlob :: "byte list \<Rightarrow> nat \<Rightarrow> nat \<Rightarrow> byte list result" where
  "sliceBlob blob offset sz =
     (if length blob < offset \<or> length blob - offset < sz then
        Inl (Runtime_error ''invalid binary response: tensor slice runs past the blob'')
      else Inr (take sz (drop offset blob)))"

section \<open>Slices\<close>

lemma sliceBlob_Inr: "sliceBlob blob i n = Inr d \<longleftrightarrow> i + n \<le> length blob \<and> d = take n (drop i blob)"
  by (auto simp: sliceBlob_def)

lemma sliceBlob_error: "sliceBlob blob i n = Inl e \<longleftrightarrow> length blob < i + n \<and>
    e = Runtime_error ''invalid binary response: tensor slice runs past the blob''"
  by (auto simp: sliceBlob_def)

lemma sliceBlob_append: "sliceBlob (a @ d @ b) (length a) (length d) = Inr d"
  by (simp add: sliceBlob_Inr)

lemma sint_of_small_nat: "n < 2 ^ 63 \<Longrightarrow> sint (word_of_nat n :: 64 word) = int n"
  by (simp add: signed_of_nat signed_take_bit_int_eq_self)

lemma binaryDataSize_node:
  assumes "json_laws J" "length bytes < 2 ^ 63"
  shows "binaryDataSize J (fst (appendBinaryInput J name dt shape bytes blob)) = Inr (int (length bytes))"
proof -
  let ?p = "[(''binary_data_size'', js_of_uint64 J (word_of_nat (length bytes)))]"
  let ?kvs = "[(''name'', js_of_string J name), (''datatype'', js_of_string J dt),
    (''shape'', json_shape J shape), (''parameters'', js_object J ?p)]"
  have s: "sint (word_of_nat (length bytes) :: 64 word) = int (length bytes)"
    using assms(2) by (rule sint_of_small_nat)
  have "js_at J (js_object J ?kvs) ''parameters'' = Inr (js_object J ?p)"
    by (rule json_laws_objects(3) [OF assms(1)]) simp_all
  moreover have "js_at J (js_object J ?p) ''binary_data_size'' = Inr (js_of_uint64 J (word_of_nat (length bytes)))"
    by (rule json_laws_objects(3) [OF assms(1)]) simp_all
  ultimately show ?thesis
    using json_laws_objects(2) [OF assms(1), of ?kvs] json_laws_objects(2) [OF assms(1), of ?p]
      json_laws_numbers(7) [OF assms(1), of "word_of_nat (length bytes)"]
    by (simp add: appendBinaryInput_def binaryDataSize_def s)
qed

text \<open>
  A slice never reads outside the blob. It succeeds exactly when offset and size together lie
  inside, also where their sum would wrap a \<open>std::size_t\<close>, and then is that part of the blob.
\<close>

lemma sliceBlob_in_bounds:
  "sliceBlob blob offset n =
     (if offset + n \<le> length blob then Inr (map (\<lambda>i. blob ! (offset + i)) [0..<n])
      else Inl (Runtime_error ''invalid binary response: tensor slice runs past the blob''))"
  by (auto simp: sliceBlob_def list_eq_iff_nth_eq)

text \<open>The index of a repository: one entry per element, absent fields empty.\<close>

lemma index_entry_object:
  assumes "json_laws J" "kvs \<noteq> []" "distinct (map fst kvs)" "list_all (\<lambda>(k, v). \<exists>s. v = js_of_string J s) kvs"
  shows "js_value J (js_object J kvs) k [] =
    Inr (case map_of kvs k of None \<Rightarrow> [] | Some v \<Rightarrow> (case js_string J v of Inr s \<Rightarrow> s | Inl _ \<Rightarrow> []))"
proof (cases "map_of kvs k")
  case None
  then have "\<not> js_contains J (js_object J kvs) k"
    by (simp add: json_laws_objects(2) [OF assms(1)] map_of_eq_None_iff)
  then show ?thesis
    using json_laws_missing(2) [OF assms(1) json_laws_objects(1) [OF assms(1,2)]] None by simp
next
  case (Some v)
  then have m: "(k, v) \<in> set kvs" by (rule map_of_SomeD)
  then obtain s where "v = js_of_string J s" using assms(4) by (auto simp: list_all_iff)
  then show ?thesis
    using json_value_object [OF assms(1,3)] m Some by (simp add: json_laws_arrays [OF assms(1)])
qed

text \<open>What the server sends for a model: every field optional.\<close>

definition model_fields :: "'j json_api \<Rightarrow> RepositoryModel \<Rightarrow> (string \<times> 'j) list" where
  "model_fields J m =
     map (\<lambda>(k, s). (k, js_of_string J s))
       (filter (\<lambda>(k, s). s \<noteq> [])
          [(''name'', rm_name m), (''version'', rm_version m), (''state'', rm_state m), (''reason'', rm_reason m)])"

text \<open>
  A repository index with one object per model, the empty fields of each left out, parses to
  exactly these models in order.
\<close>

lemma parseRepositoryIndex_models:
  assumes "json_laws J" "list_all (\<lambda>m. rm_name m \<noteq> []) ms"
  shows "parseRepositoryIndex J (js_of_array J (map (\<lambda>m. js_object J (model_fields J m)) ms)) = Inr ms"
proof -
  define field where "field s = (if s = [] then None else Some (js_of_string J s))" for s
  have get: "(case field s of None \<Rightarrow> [] | Some v \<Rightarrow> (case js_string J v of Inr t \<Rightarrow> t | Inl _ \<Rightarrow> [])) = s" for s
    by (simp add: field_def json_laws_arrays [OF assms(1)])
  have "index_entry J (js_object J (model_fields J m)) = Inr m" if "rm_name m \<noteq> []" for m
  proof -
    have f: "model_fields J m \<noteq> []" "distinct (map fst (model_fields J m))"
      "list_all (\<lambda>(k, v). \<exists>s. v = js_of_string J s) (model_fields J m)"
      using that by (auto simp: model_fields_def)
    have "map_of (model_fields J m) ''name'' = Some (js_of_string J (rm_name m))"
      using that by (simp add: model_fields_def)
    moreover have "map_of (model_fields J m) ''version'' = field (rm_version m)"
      by (simp add: model_fields_def field_def)
    moreover have "map_of (model_fields J m) ''state'' = field (rm_state m)"
      by (simp add: model_fields_def field_def)
    moreover have "map_of (model_fields J m) ''reason'' = field (rm_reason m)"
      by (simp add: model_fields_def field_def)
    ultimately show ?thesis
      unfolding index_entry_def index_entry_object [OF assms(1) f]
      by (simp add: get json_laws_arrays [OF assms(1)])
  qed
  then have "mapR (index_entry J) (map (\<lambda>m. js_object J (model_fields J m)) ms) = Inr ms"
    using assms(2) mapR_all_Inr [of ms "\<lambda>m. index_entry J (js_object J (model_fields J m))" id]
    unfolding mapR_map by (auto simp: list_all_iff)
  then show ?thesis by (simp add: parseRepositoryIndex_def json_laws_arrays [OF assms(1)])
qed

end
