(* ===== verification/Http_Client.thy ===== *)
theory Http_Client
  imports Http_Transport Client_Interface Binary_Tensor
begin

text \<open>
  The HTTP client (\<open>class HttpClient\<close> of \<open>src/KserveHttpClient.cpp\<close>). Its state is the
  members of the class beside the keep-alive connection; a program of the client runs over these
  members, the connection and the history. \<open>J\<close> is the JSON library.
\<close>

section \<open>The code\<close>

record HttpClient =
  cl_endpoint :: string
  cl_model_name :: string
  cl_model_version :: string
  cl_timeout_ms :: int
  cl_auth_token :: string
  cl_retry_policy :: RetryPolicy
  cl_output_names :: "string list"

type_synonym client_state = "HttpClient \<times> http_state"

definition envToken :: "os \<Rightarrow> string result" where
  "envToken os =
     readSecretFromEnvOrFile (os_env os) (os_files os) ''KSERVE_BEARER_TOKEN'' ''KSERVE_BEARER_TOKEN_FILE''"

definition new_HttpClient ::
    "os \<Rightarrow> string \<Rightarrow> string \<Rightarrow> string \<Rightarrow> int \<Rightarrow> (HttpClient \<times> HttpConnection) result" where
  "new_HttpClient os endpoint model_name model_version timeout_ms =
     bindR (envToken os) (\<lambda>auth_token.
     bindR (retryPolicyFromEnv (os_env os)) (\<lambda>retry_policy.
       Inr (\<lparr>cl_endpoint = endpoint, cl_model_name = model_name, cl_model_version = model_version,
              cl_timeout_ms = timeout_ms, cl_auth_token = auth_token, cl_retry_policy = retry_policy,
              cl_output_names = []\<rparr>, new_connection)))"

definition inferPath :: "string \<Rightarrow> string \<Rightarrow> string" where
  "inferPath model_name model_version =
     (if model_version = [] then ''/v2/models/'' @ model_name @ ''/infer''
      else ''/v2/models/'' @ model_name @ ''/versions/'' @ model_version @ ''/infer'')"

definition binaryEnabled :: "os \<Rightarrow> bool" where
  "binaryEnabled os =
     (case os_env os ''KSERVE_BINARY'' of
        None \<Rightarrow> False
      | Some raw \<Rightarrow>
          let value = to_lower raw
          in value = ''1'' \<or> value = ''true'' \<or> value = ''on'' \<or> value = ''yes'')"

definition readShape :: "'j json_api \<Rightarrow> 'j \<Rightarrow> (64 word list) result" where
  "readShape J node =
     (if js_contains J node ''shape'' then
        bindR (js_at J node ''shape'') (\<lambda>dims. mapR (js_int64 J) (js_elems J dims))
      else Inr [])"

text \<open>A program of the connection, run inside the client.\<close>

definition on_conn :: "(http_state, 'a) prog \<Rightarrow> (client_state, 'a) prog" where
  "on_conn p s = (case s of (cl, h) \<Rightarrow> map_option (\<lambda>(r, h1). (r, (cl, h1))) (p h))"

definition get_client :: "(client_state, HttpClient) prog" where
  "get_client s = ret (fst s) s"

definition set_output_names :: "(string list \<Rightarrow> string list) \<Rightarrow> (client_state, unit) prog" where
  "set_output_names f s = ret () (fst s\<lparr>cl_output_names := f (cl_output_names (fst s))\<rparr>, snd s)"

text \<open>One retried round trip with the client's policy and timeout.\<close>

definition exchange :: "os \<Rightarrow> Endpoint \<Rightarrow> string \<Rightarrow> (client_state, HttpResponse) prog" where
  "exchange os ep request =
     bindP get_client (\<lambda>cl.
       on_conn (withRetry os (cl_retry_policy cl) (roundTrip os ep request (cl_timeout_ms cl))))"

definition string_at :: "'j json_api \<Rightarrow> 'j \<Rightarrow> string \<Rightarrow> string result" where
  "string_at J node key = bindR (js_at J node key) (js_string J)"

definition read_spec :: "'j json_api \<Rightarrow> 'j \<Rightarrow> TensorSpec result" where
  "read_spec J node =
     bindR (string_at J node ''name'') (\<lambda>name.
     bindR (js_value J node ''datatype'' ''FP32'') (\<lambda>datatype.
     bindR (readShape J node) (\<lambda>shape.
       Inr \<lparr>ts_name = name, ts_datatype = datatype, ts_shape = shape\<rparr>)))"

text \<open>The loop over the outputs, which also pushes their names onto \<open>output_names_\<close>.\<close>

fun read_outputs :: "'j json_api \<Rightarrow> 'j list \<Rightarrow> (client_state, TensorSpec list) prog" where
  "read_outputs J [] = ret []"
| "read_outputs J (node # nodes) =
     bindP (of_result (read_spec J node)) (\<lambda>spec.
     bindP (of_result (string_at J node ''name'')) (\<lambda>name.
     bindP (set_output_names (\<lambda>ns. ns @ [name])) (\<lambda>_.
     bindP (read_outputs J nodes) (\<lambda>specs. ret (spec # specs)))))"

definition http_modelMetadata :: "os \<Rightarrow> 'j json_api \<Rightarrow> (client_state, ModelMetadata) prog" where
  "http_modelMetadata os J =
     bindP get_client (\<lambda>cl.
     bindP (of_result (parseEndpoint (cl_endpoint cl) 8080)) (\<lambda>ep.
     let path = ep_path_prefix ep @ ''/v2/models/'' @ cl_model_name cl;
         request = buildRequest ''GET'' ep path (cl_auth_token cl) [] [] []
     in bindP (exchange os ep request) (\<lambda>http_response.
        if hr_status http_response \<noteq> 200 then
          throw (Runtime_error (''KServe metadata fetch failed: HTTP '' @ string_of_int (hr_status http_response)))
        else
          bindP (of_result (js_parse J (hr_body http_response))) (\<lambda>json.
          if \<not> js_contains J json ''inputs'' \<or> \<not> js_contains J json ''outputs'' then
            throw (Runtime_error ''KServe metadata response missing inputs/outputs'')
          else
            bindP (of_result (js_value J json ''platform'' [])) (\<lambda>platform.
            bindP (of_result (js_at J json ''inputs'')) (\<lambda>inputs.
            bindP (of_result (mapR (read_spec J) (js_elems J inputs))) (\<lambda>input_specs.
            bindP (set_output_names (\<lambda>_. [])) (\<lambda>_.
            bindP (of_result (js_at J json ''outputs'')) (\<lambda>outputs.
            bindP (read_outputs J (js_elems J outputs)) (\<lambda>output_specs.
              ret \<lparr>mm_inputs = input_specs, mm_outputs = output_specs, mm_platform = platform\<rparr>)))))))))) "

definition http_probe :: "os \<Rightarrow> string \<Rightarrow> (client_state, bool) prog" where
  "http_probe os path =
     bindP get_client (\<lambda>cl.
     bindP (of_result (parseEndpoint (cl_endpoint cl) 8080)) (\<lambda>ep.
     let request = buildRequest ''GET'' ep (ep_path_prefix ep @ path) (cl_auth_token cl) [] [] []
     in bindP (exchange os ep request) (\<lambda>r. ret (hr_status r = 200))))"

definition http_serverLive :: "os \<Rightarrow> (client_state, bool) prog" where
  "http_serverLive os = http_probe os serverLivePath"

definition http_serverReady :: "os \<Rightarrow> (client_state, bool) prog" where
  "http_serverReady os = http_probe os serverReadyPath"

definition http_modelReady :: "os \<Rightarrow> (client_state, bool) prog" where
  "http_modelReady os =
     bindP get_client (\<lambda>cl. http_probe os (modelReadyPath (cl_model_name cl) (cl_model_version cl)))"

definition postRepository :: "os \<Rightarrow> string \<Rightarrow> string \<Rightarrow> (client_state, HttpResponse) prog" where
  "postRepository os path body =
     bindP get_client (\<lambda>cl.
     bindP (of_result (parseEndpoint (cl_endpoint cl) 8080)) (\<lambda>ep.
     let request = buildRequest ''POST'' ep (ep_path_prefix ep @ path) (cl_auth_token cl) ''application/json'' [] body
     in bindP (exchange os ep request) (\<lambda>http_response.
        if hr_status http_response \<noteq> 200 then
          throw (Runtime_error (''KServe repository request failed: HTTP '' @
            string_of_int (hr_status http_response) @ '' '' @ hr_body http_response))
        else ret http_response)))"

definition http_repositoryIndex :: "os \<Rightarrow> 'j json_api \<Rightarrow> (client_state, RepositoryModel list) prog" where
  "http_repositoryIndex os J =
     bindP (postRepository os repositoryIndexPath ''{}'') (\<lambda>http_response.
       of_result (bindR (js_parse J (hr_body http_response)) (parseRepositoryIndex J)))"

definition http_loadModel :: "os \<Rightarrow> string \<Rightarrow> (client_state, unit) prog" where
  "http_loadModel os model_name =
     bindP (postRepository os (repositoryModelLoadPath model_name) ''{}'') (\<lambda>_. ret ())"

definition http_unloadModel :: "os \<Rightarrow> string \<Rightarrow> (client_state, unit) prog" where
  "http_unloadModel os model_name =
     bindP (postRepository os (repositoryModelUnloadPath model_name) ''{}'') (\<lambda>_. ret ())"

section \<open>Inference\<close>

definition quote :: char where
  "quote = CHR 0x27"

text \<open>The loop over the inputs: the JSON nodes, and in binary mode the blob.\<close>

fun encode_inputs :: "'j json_api \<Rightarrow> bool \<Rightarrow> InferInput list \<Rightarrow> byte list \<Rightarrow> ('j list \<times> byte list) result" where
  "encode_inputs J binary [] blob = Inr ([], blob)"
| "encode_inputs J binary (input # inputs) blob =
     (case ii_data input of
        None \<Rightarrow> Inl (Runtime_error (''KServe input '' @ [quote] @ ii_name input @ [quote] @ '' has no data''))
      | Some bytes \<Rightarrow>
          bindR
            (if binary then
               Inr (appendBinaryInput J (ii_name input) (ii_datatype input) (ii_shape input) bytes blob)
             else
               bindR (encodeTensorData J bytes (ii_datatype input)) (\<lambda>data.
                 Inr (js_object J
                   [(''name'', js_of_string J (ii_name input)),
                    (''datatype'', js_of_string J (ii_datatype input)),
                    (''shape'', json_shape J (ii_shape input)),
                    (''data'', data)], blob)))
            (\<lambda>(node, blob1).
              bindR (encode_inputs J binary inputs blob1) (\<lambda>(nodes, blob2). Inr (node # nodes, blob2))))"

definition infer_request :: "'j json_api \<Rightarrow> bool \<Rightarrow> string list \<Rightarrow> 'j list \<Rightarrow> 'j" where
  "infer_request J binary output_names nodes =
     js_object J
       ([(''id'', js_of_string J ''kserve-client''), (''inputs'', js_of_array J nodes)] @
        (if binary \<and> output_names \<noteq> [] then
           [(''outputs'', js_of_array J (map (requestBinaryOutput J) output_names))] else []))"

text \<open>Content type, extra headers and body of the request.\<close>

definition infer_payload :: "bool \<Rightarrow> string \<Rightarrow> byte list \<Rightarrow> string \<times> string \<times> string" where
  "infer_payload binary dumped blob =
     (if binary then
        (''application/octet-stream'',
         ''Inference-Header-Content-Length: '' @ string_of_nat (length dumped) @ crlf,
         dumped @ map char_of_byte blob)
      else (''application/json'', [], dumped))"

definition inline_data :: "'j json_api \<Rightarrow> 'j \<Rightarrow> string \<Rightarrow> (byte list) result" where
  "inline_data J output datatype =
     (if js_contains J output ''data'' then
        bindR (js_at J output ''data'') (\<lambda>data.
          if js_is_array J data then decodeTensorData J data datatype else Inr [])
      else Inr [])"

definition read_output_head :: "'j json_api \<Rightarrow> 'j \<Rightarrow> (string \<times> string \<times> 64 word list) result" where
  "read_output_head J output =
     bindR (js_value J output ''name'' []) (\<lambda>name.
     bindR (js_value J output ''datatype'' ''FP32'') (\<lambda>datatype.
     bindR (readShape J output) (\<lambda>shape. Inr (name, datatype, shape))))"

definition make_output :: "string \<times> string \<times> 64 word list \<Rightarrow> byte list \<Rightarrow> InferOutput" where
  "make_output head data =
     (case head of (name, datatype, shape) \<Rightarrow>
        \<lparr>io_name = name, io_datatype = datatype, io_shape = shape, io_data = data\<rparr>)"

text \<open>The loop over the outputs of a binary response.\<close>

fun binary_outputs :: "'j json_api \<Rightarrow> byte list \<Rightarrow> nat \<Rightarrow> 'j list \<Rightarrow> InferOutput list result" where
  "binary_outputs J blob offset [] = Inr []"
| "binary_outputs J blob offset (output # outputs) =
     bindR (read_output_head J output) (\<lambda>head.
     bindR (binaryDataSize J output) (\<lambda>sz.
       if 0 \<le> sz then
         bindR (sliceBlob blob offset (size_of_long sz)) (\<lambda>data.
         bindR (binary_outputs J blob (add64 offset (size_of_long sz)) outputs) (\<lambda>rest.
           Inr (make_output head data # rest)))
       else
         bindR (inline_data J output (fst (snd head))) (\<lambda>data.
         bindR (binary_outputs J blob offset outputs) (\<lambda>rest.
           Inr (make_output head data # rest)))))"

definition json_output :: "'j json_api \<Rightarrow> 'j \<Rightarrow> InferOutput result" where
  "json_output J output =
     bindR (read_output_head J output) (\<lambda>head.
     bindR (inline_data J output (fst (snd head))) (\<lambda>data. Inr (make_output head data)))"

text \<open>\<open>outputs\<close> of a response document, which has to be an array.\<close>

definition outputs_of :: "'j json_api \<Rightarrow> 'j \<Rightarrow> 'j list result" where
  "outputs_of J doc =
     (if \<not> js_contains J doc ''outputs'' then Inl (Runtime_error ''KServe response missing outputs'')
      else
        bindR (js_at J doc ''outputs'') (\<lambda>outputs.
          if \<not> js_is_array J outputs then Inl (Runtime_error ''KServe response missing outputs'')
          else Inr (js_elems J outputs)))"

definition infer_response :: "'j json_api \<Rightarrow> HttpResponse \<Rightarrow> InferOutput list result" where
  "infer_response J http_response =
     (if hr_status http_response \<noteq> 200 then
        Inl (Runtime_error (''KServe inference failed: HTTP '' @ string_of_int (hr_status http_response) @ '' '' @
          hr_body http_response))
      else if 0 \<le> hr_inference_header_length http_response then
        bindR (splitBinaryBody J (hr_body http_response) (size_of_long (hr_inference_header_length http_response)))
          (\<lambda>(header, out_blob).
            bindR (outputs_of J header) (\<lambda>outputs. binary_outputs J out_blob 0 outputs))
      else
        bindR (js_parse J (hr_body http_response)) (\<lambda>json_response.
          bindR (outputs_of J json_response) (\<lambda>outputs. mapR (json_output J) outputs)))"

definition http_infer :: "os \<Rightarrow> 'j json_api \<Rightarrow> InferInput list \<Rightarrow> (client_state, InferOutput list) prog" where
  "http_infer os J inputs =
     bindP get_client (\<lambda>cl.
     bindP (of_result (parseEndpoint (cl_endpoint cl) 8080)) (\<lambda>ep.
     let path = ep_path_prefix ep @ inferPath (cl_model_name cl) (cl_model_version cl);
         binary = binaryEnabled os
     in bindP (of_result (encode_inputs J binary inputs [])) (\<lambda>(nodes, blob).
        bindP (of_result (js_dump J (infer_request J binary (cl_output_names cl) nodes))) (\<lambda>dumped.
        case infer_payload binary dumped blob of (content_type, extra_headers, body) \<Rightarrow>
          let http_request = buildRequest ''POST'' ep path (cl_auth_token cl) content_type extra_headers body
          in bindP (exchange os ep http_request) (\<lambda>http_response.
             of_result (infer_response J http_response))))))"

definition http_iclient :: "os \<Rightarrow> 'j json_api \<Rightarrow> client_state IClient" where
  "http_iclient os J =
     \<lparr>ic_modelMetadata = http_modelMetadata os J, ic_infer = http_infer os J,
      ic_serverLive = http_serverLive os, ic_serverReady = http_serverReady os, ic_modelReady = http_modelReady os,
      ic_repositoryIndex = http_repositoryIndex os J, ic_loadModel = http_loadModel os,
      ic_unloadModel = http_unloadModel os\<rparr>"

lemma exchange_client: "exchange os ep request (cl, w) = Some (r, s') \<Longrightarrow> fst s' = cl"
  by (auto simp: exchange_def bindP_def get_client_def prog_basic on_conn_def)

section \<open>What every call keeps\<close>

text \<open>The requests a client issues, and a client that differs in the remembered output names only.\<close>

definition issued :: "HttpClient \<Rightarrow> Endpoint \<Rightarrow> string \<Rightarrow> bool" where
  "issued cl ep request =
     (\<exists>verb path content_type extra_headers body. verb \<in> {''GET'', ''POST''} \<and>
        request = buildRequest verb ep (ep_path_prefix ep @ path) (cl_auth_token cl) content_type extra_headers body)"

definition same_client :: "HttpClient \<Rightarrow> HttpClient \<Rightarrow> bool" where
  "same_client cl0 cl = (\<exists>names. cl = cl0\<lparr>cl_output_names := names\<rparr>)"

lemma same_client_fields [simp]:
  assumes "same_client cl0 cl"
  shows "cl_endpoint cl = cl_endpoint cl0" "cl_auth_token cl = cl_auth_token cl0"
    "cl_retry_policy cl = cl_retry_policy cl0" "cl_timeout_ms cl = cl_timeout_ms cl0"
  using assms by (auto simp: same_client_def)

lemma same_client_refl: "same_client cl0 cl0"
  unfolding same_client_def by (rule exI [of _ "cl_output_names cl0"]) simp

lemma same_client_names: "same_client cl0 cl \<Longrightarrow> same_client cl0 (cl\<lparr>cl_output_names := names\<rparr>)"
  unfolding same_client_def by (elim exE, rule exI [of _ names]) simp

definition serving :: "HttpClient \<Rightarrow> (http_state \<Rightarrow> bool) \<Rightarrow> client_state \<Rightarrow> bool" where
  "serving cl0 K s = (same_client cl0 (fst s) \<and> K (snd s))"

text \<open>
  The contract between the transport and the operations: a property of the connection that a retried
  exchange of a request the client issues keeps. Then every operation keeps it.
\<close>

locale exchange_invariant =
  fixes os :: os and cl0 :: HttpClient and K :: "http_state \<Rightarrow> bool"
  assumes exchange_keeps: "parseEndpoint (cl_endpoint cl0) 8080 = Inr ep \<Longrightarrow> issued cl0 ep request \<Longrightarrow> K s \<Longrightarrow>
    withRetry os (cl_retry_policy cl0) (roundTrip os ep request (cl_timeout_ms cl0)) s = Some (r, s') \<Longrightarrow> K s'"
begin

lemma exchange_serving:
  assumes "parseEndpoint (cl_endpoint cl0) 8080 = Inr ep" "issued cl0 ep request"
  shows "keeps (serving cl0 K) (exchange os ep request)"
  using exchange_keeps [OF assms]
  by (intro keepsI) (auto simp: exchange_def serving_def get_client_def on_conn_def bindP_def prog_basic)

lemma parts_serving: "keeps (serving cl0 K) get_client" "keeps (serving cl0 K) (set_output_names f)"
  unfolding keeps_def triple_def get_client_def set_output_names_def serving_def
  by (simp_all add: prog_basic same_client_names del: split_paired_All split_paired_Ex)

lemma read_outputs_serving: "keeps (serving cl0 K) (read_outputs J nodes)"
  by (induction nodes) (auto intro!: keeps_intros parts_serving)

lemma endpoint_serving:
  assumes "\<And>cl ep. same_client cl0 cl \<Longrightarrow> parseEndpoint (cl_endpoint cl0) 8080 = Inr ep \<Longrightarrow> keeps (serving cl0 K) (p cl ep)"
  shows "keeps (serving cl0 K)
    (bindP get_client (\<lambda>cl. bindP (of_result (parseEndpoint (cl_endpoint cl) 8080)) (\<lambda>ep. p cl ep)))"
proof (rule keepsI)
  fix w r w'
  assume w: "serving cl0 K w"
    and r: "bindP get_client (\<lambda>cl. bindP (of_result (parseEndpoint (cl_endpoint cl) 8080)) (\<lambda>ep. p cl ep)) w = Some (r, w')"
  have c: "same_client cl0 (fst w)" using w by (simp add: serving_def)
  show "serving cl0 K w'"
  proof (cases "parseEndpoint (cl_endpoint cl0) 8080")
    case (Inl e)
    then show ?thesis using r w c by (simp add: bindP_def get_client_def prog_basic)
  next
    case (Inr ep)
    then have "p (fst w) ep w = Some (r, w')" using r c by (simp add: bindP_def get_client_def prog_basic)
    then show ?thesis using keepsD [OF assms [OF c Inr] w] by blast
  qed
qed

lemma issued_serving:
  assumes "same_client cl0 cl" "parseEndpoint (cl_endpoint cl0) 8080 = Inr ep" "verb \<in> {''GET'', ''POST''}"
  shows "keeps (serving cl0 K)
    (exchange os ep (buildRequest verb ep (ep_path_prefix ep @ path) (cl_auth_token cl) content_type extra_headers body))"
proof (rule exchange_serving [OF assms(2)])
  show "issued cl0 ep (buildRequest verb ep (ep_path_prefix ep @ path) (cl_auth_token cl) content_type extra_headers body)"
    unfolding issued_def same_client_fields(2) [OF assms(1)] using assms(3) by blast
qed

lemmas serving_intros = keeps_intros parts_serving read_outputs_serving issued_serving

lemma operations_serving:
  "keeps (serving cl0 K) (http_probe os path)" "keeps (serving cl0 K) (postRepository os path body)"
  "keeps (serving cl0 K) (http_modelMetadata os J)" "keeps (serving cl0 K) (http_infer os J inputs)"
  unfolding http_probe_def postRepository_def http_modelMetadata_def http_infer_def Let_def
  by (rule endpoint_serving, intro serving_intros, assumption, assumption, simp)+

end

sublocale exchange_invariant \<subseteq> iclient_contract "http_iclient os J" "serving cl0 K" for J
  by unfold_locales
    (simp_all add: http_iclient_def http_serverLive_def http_serverReady_def http_modelReady_def
      http_repositoryIndex_def http_loadModel_def http_unloadModel_def
      keeps_intros parts_serving operations_serving)

text \<open>The account of descriptors and TLS objects is such a property.\<close>

interpretation http_contract: exchange_invariant os cl0 accounted for os cl0
  by unfold_locales (use http_retry.run_keeps in \<open>unfold withRetry_def, blast\<close>)

text \<open>
  C5: a client never leaks, over its whole life. After any sequence of calls of any of the
  operations, each returning or throwing, the descriptors and TLS objects still open are exactly those
  of the one connection the client holds, none was released twice, and destroying the client releases
  them all.
\<close>

theorem http_client_resources:
  assumes "client_run (http_iclient os J) (cl, (new_connection, [])) (cl', s')"
  shows "held (snd s') = (case hc_transport (fst s') of None \<Rightarrow> {#} | Some c \<Rightarrow> resources c) \<and>
    disciplined (snd s') \<and> held (snd (drop_connection s')) = {#} \<and> disciplined (snd (drop_connection s'))"
proof -
  have "serving cl accounted (cl, (new_connection, []))"
    by (simp add: serving_def same_client_refl initial_accounted)
  then have a: "accounted s'" using http_contract.run_keeps [OF assms, of cl] by (simp add: serving_def)
  then have "accounted (drop_connection s')" "hc_transport (fst (drop_connection s')) = None"
    using drop_accounted by blast+
  then show ?thesis using a by (auto simp: accounted_def owns_def split: option.splits)
qed

section \<open>Witness\<close>

definition demo_client :: HttpClient where
  "demo_client =
     \<lparr>cl_endpoint = ''h:8080'', cl_model_name = ''m'', cl_model_version = [], cl_timeout_ms = 1000,
      cl_auth_token = [], cl_retry_policy = demo_policy, cl_output_names = []\<rparr>"

definition demo_server :: os where
  "demo_server = script_os (\<lambda>_. None) 9999
     [''HTTP/1.1 200 OK'' @ crlf @ ''Inference-Header-Content-Length: 2'' @ crlf @ ''Content-Length: 5'' @ crlf @ crlf @ ''{}1'', ''23'']"

definition plain_json :: "json json_api" where
  "plain_json = doc_api [] ''{}''"

theorem http_client_resources_witness:
  "\<exists>s'. client_run (http_iclient demo_server plain_json) (demo_client, (new_connection, [])) (demo_client, s') \<and>
     held (snd s') \<noteq> {#} \<and> held (snd (drop_connection s')) = {#}"
proof -
  let ?w = "(demo_client, (new_connection, []))"
  have "map_option (\<lambda>(r, s'). (is_ok r, fst s' = demo_client, held (snd (snd s')) \<noteq> {#})) (http_serverLive demo_server ?w) = Some (True, True, True)"
    by code_simp
  then obtain r s' where s': "http_serverLive demo_server ?w = Some (r, (demo_client, s'))" "held (snd s') \<noteq> {#}"
    by (auto split: prod.splits)
  then have "client_run (http_iclient demo_server plain_json) ?w (demo_client, s')"
    by (intro client_run.call [OF client_run.start] client_step.live) (simp add: http_iclient_def)
  with http_client_resources [OF this] s'(2) show ?thesis by blast
qed

end
