(* ===== verification/Tls_Safety.thy ===== *)
theory Tls_Safety
  imports Http_Client
begin

text \<open>
  What an \<open>https\<close> endpoint buys. The specification is a predicate on the history of system calls
  alone, written without the code in mind: nothing is sent or received on a plain socket, and data
  passes through TLS only in a session whose handshake has succeeded against a verified peer. The
  client of \<open>Http_Client\<close> keeps it, through reconnections, retries and failures.
\<close>

section \<open>The specification\<close>

definition calls :: "tls_call \<Rightarrow> history \<Rightarrow> bool" where
  "calls call h = list_ex (\<lambda>e. case e of ETls c _ \<Rightarrow> c = call | _ \<Rightarrow> False) h"

text \<open>A store of roots that was loaded, by name or by default.\<close>

definition roots_loaded :: "history \<Rightarrow> bool" where
  "roots_loaded h =
     list_ex (\<lambda>e. case e of ETls (Load_verify_locations _) r \<Rightarrow> r = 1
                        | ETls Set_default_verify_paths r \<Rightarrow> r = 1 | _ \<Rightarrow> False) h"

text \<open>The calls since the last \<open>SSL_CTX_new\<close>: those that configured the current context.\<close>

definition opens_context :: "event \<Rightarrow> bool" where
  "opens_context e = (case e of ETls Ctx_new _ \<Rightarrow> True | _ \<Rightarrow> False)"

definition context_calls :: "history \<Rightarrow> history" where
  "context_calls h = takeWhile (\<lambda>e. \<not> opens_context e) h"

definition verifies_peer :: "string \<Rightarrow> history \<Rightarrow> bool" where
  "verifies_peer host h =
     (calls Set_min_proto_tls12 h \<and> calls Set_verify_peer h \<and> roots_loaded h \<and> calls Set_hostflags h \<and>
      calls (Set_sni (c_str host)) h \<and> ETls (Set1_host host) 1 \<in> set h)"

text \<open>
  A session is established while the last handshake has succeeded, under a context that verifies the
  peer, and nothing of it has been released since.
\<close>

fun established :: "string \<Rightarrow> history \<Rightarrow> bool" where
  "established host [] = False"
| "established host (e # h) =
     (case e of
        ETls call r \<Rightarrow>
          (case call of
             Ssl_connect \<Rightarrow> r = 1 \<and> verifies_peer host (context_calls h)
           | Ctx_new \<Rightarrow> False | Ssl_new \<Rightarrow> False | Ssl_free _ \<Rightarrow> False | Ctx_free _ \<Rightarrow> False
           | _ \<Rightarrow> established host h)
      | EClose _ \<Rightarrow> False
      | _ \<Rightarrow> established host h)"

fun secure :: "string \<Rightarrow> history \<Rightarrow> bool" where
  "secure host [] = True"
| "secure host (e # h) =
     ((case e of
         ESend _ _ _ \<Rightarrow> False
       | ERecv _ _ \<Rightarrow> False
       | ESslRead _ \<Rightarrow> established host h
       | ETls (Ssl_write _ _) _ \<Rightarrow> established host h
       | _ \<Rightarrow> True) \<and> secure host h)"

section \<open>Connecting\<close>

text \<open>What a handshake has reached: which calls it has made, and whether the roots are loaded.\<close>

definition stage :: "string \<Rightarrow> bool \<Rightarrow> event set \<Rightarrow> history \<Rightarrow> bool" where
  "stage host roots X h =
     (secure host h \<and> X \<subseteq> set (context_calls h) \<and> (roots \<longrightarrow> roots_loaded (context_calls h)))"

definition configures :: "tls_call \<Rightarrow> bool" where
  "configures call = (case call of Ctx_new \<Rightarrow> False | Ssl_write _ _ \<Rightarrow> False | _ \<Rightarrow> True)"

lemma context_calls_Cons:
  "context_calls (e # h) = (if opens_context e then [] else e # context_calls h)"
  by (simp add: context_calls_def)

lemma stage_secure: "stage host roots X h \<Longrightarrow> secure host h"
  by (simp add: stage_def)

lemma stage_configures:
  assumes "stage host roots X h" "configures call"
  shows "stage host roots (insert (ETls call r) X) (ETls call r # h)"
  using assms by (cases call) (auto simp: stage_def configures_def context_calls_Cons opens_context_def roots_loaded_def)

lemma tls_do_stage:
  assumes "configures call"
  shows "triple (stage host roots X) (tls_do os call) (\<lambda>r. stage host roots (insert (ETls call r) X)) E"
  using stage_configures [OF _ assms] by (auto simp: triple_def tls_do_def prog_simps Let_def)

lemma tls_do_start: "triple (secure host) (tls_do os Ctx_new) (\<lambda>_. stage host False {}) E"
  by (auto simp: triple_def tls_do_def prog_simps Let_def stage_def)

lemma secure_cleanup: "secure host (tls_cleanup fd ctx ssl h) = secure host h"
  by (simp add: Let_def)

lemma secure_destroy: "secure host (destroy c h) = secure host h"
  by (cases c) (simp_all add: secure_cleanup del: tls_cleanup_def)

lemma tls_fail_secure: "triple (stage host roots X) (tls_fail os fd ctx ssl what) Q (\<lambda>_. secure host)"
  by (rule tripleI) (auto simp: tls_fail_def prog_simps Let_def stage_def)

lemma tls_check_stage:
  assumes "configures call"
    and "triple (stage host roots (insert (ETls call 1) X)) p Q (\<lambda>_. secure host)"
  shows "triple (stage host roots X)
    (bindP (tls_do os call) (\<lambda>r. if r \<noteq> 1 then tls_fail os fd ctx ssl what else p)) Q (\<lambda>_. secure host)"
  by (rule triple_bind [OF tls_do_stage [OF assms(1)]], rule triple_if, rule tls_fail_secure) (use assms(2) in simp)

lemma stage_roots:
  assumes "stage host roots (insert (ETls (Load_verify_locations f) 1) X) h \<or> stage host roots (insert (ETls Set_default_verify_paths 1) X) h"
  shows "stage host True X h"
  using assms by (auto simp: stage_def roots_loaded_def list_ex_iff intro: bexI [rotated])

lemma tls_load_roots_stage:
  "triple (stage host False X) (tls_load_roots os fd ctx) (\<lambda>_. stage host True X) (\<lambda>_. secure host)"
proof (cases "\<exists>c ca_path. os_env os ''KSERVE_CA_CERT'' = Some (c # ca_path)")
  case True
  then obtain c ca_path where e: "os_env os ''KSERVE_CA_CERT'' = Some (c # ca_path)" by blast
  show ?thesis unfolding tls_load_roots_def e option.case list.case
    by (rule tls_check_stage) (auto simp: configures_def intro: triple_ret stage_roots)
next
  case False
  then have "tls_load_roots os fd ctx = bindP (tls_do os Set_default_verify_paths) (\<lambda>r.
      if r \<noteq> 1 then tls_fail os fd ctx 0 ''failed to load system CA roots'' else ret ())"
    by (auto simp: tls_load_roots_def split: option.split list.split)
  then show ?thesis
    by (simp only:) (rule tls_check_stage, auto simp: configures_def intro: triple_ret stage_roots)
qed

lemma stage_verifies:
  assumes "stage host True X h"
    and "ETls Set_min_proto_tls12 a \<in> X" "ETls Set_verify_peer b \<in> X" "ETls Set_hostflags c \<in> X"
      "ETls (Set_sni (c_str host)) d \<in> X" "ETls (Set1_host host) 1 \<in> X"
  shows "verifies_peer host (context_calls h)"
  using assms unfolding stage_def verifies_peer_def calls_def list_ex_iff by (auto intro: bexI [rotated])

lemma handshake_established:
  assumes "\<And>h. stage host True X h \<Longrightarrow> verifies_peer host (context_calls h)"
  shows "triple (stage host True X)
    (bindP (tls_do os Ssl_connect) (\<lambda>r. if r \<noteq> 1 then tls_fail os fd ctx ssl what else ret c))
    (\<lambda>y h. y = c \<and> secure host h \<and> established host h) (\<lambda>_. secure host)"
proof (rule triple_bind)
  show "triple (stage host True X) (tls_do os Ssl_connect)
      (\<lambda>r h. stage host True X h \<and> (r = 1 \<longrightarrow> established host h)) (\<lambda>_. secure host)"
    using assms stage_configures [of host True X _ Ssl_connect]
    by (auto simp: triple_def tls_do_def prog_simps Let_def configures_def stage_def)
  show "triple (\<lambda>h. stage host True X h \<and> (r = 1 \<longrightarrow> established host h))
      (if r \<noteq> 1 then tls_fail os fd ctx ssl what else ret c)
      (\<lambda>y h. y = c \<and> secure host h \<and> established host h) (\<lambda>_. secure host)" for r
    by (rule triple_if, rule triple_pre [OF tls_fail_secure [of host True X]])
      (auto intro: triple_ret stage_secure)
qed

lemma tls_new_established:
  "triple (secure host) (tls_new os fd host)
     (\<lambda>c h. (\<exists>ctx ssl. c = TlsConnection fd ctx ssl) \<and> secure host h \<and> established host h) (\<lambda>_. secure host)"
proof -
  have seq: "triple (stage host roots X) (bindP (tls_do os call) (\<lambda>_. p)) Q (\<lambda>_. secure host)"
    if "configures call" "\<And>r. triple (stage host roots (insert (ETls call r) X)) p Q (\<lambda>_. secure host)"
    for roots X call p and Q :: "Connection \<Rightarrow> history \<Rightarrow> bool"
    by (rule triple_bind [OF tls_do_stage [OF that(1)] that(2)])
  show ?thesis
    unfolding tls_new_def
    apply (rule triple_bind [OF tls_do_start], rule triple_if, rule tls_fail_secure)
    apply (rule seq, simp add: configures_def, rule seq, simp add: configures_def)
    apply (rule triple_bind [OF tls_load_roots_stage])
    apply (rule triple_bind [OF tls_do_stage], simp add: configures_def, rule triple_if, rule tls_fail_secure)
    apply (rule seq, simp add: configures_def)+
    apply (rule tls_check_stage, simp add: configures_def)
    apply (rule triple_post [OF handshake_established])
      apply (erule stage_verifies)
          apply simp_all
    done
qed


lemma setTimeout_secure: "secure host (setTimeout fd t h) = secure host h"
  by (simp add: setTimeout_def Let_def)

lemma try_addresses_secure: "try_addresses os t addrs fd h = (fd', h') \<Longrightarrow> secure host h \<Longrightarrow> secure host h'"
proof (induction addrs arbitrary: fd h)
  case (Cons ai rest)
  show ?case
    using Cons.IH [of _ "ESocket (os_socket os h ai) # h"]
      Cons.IH [of "- 1" "EClose (os_socket os h ai) # EConnect (os_socket os h ai) ai False #
        setTimeout (os_socket os h ai) t (ESocket (os_socket os h ai) # h)"]
      Cons.prems
    by (auto simp: Let_def setTimeout_secure split: if_splits)
qed simp

lemma connectSocket_secure:
  "triple (secure host) (connectSocket os host' port t) (\<lambda>_. secure host) (\<lambda>_. secure host)"
  by (auto simp: triple_def connectSocket_def prog_simps Let_def intro: try_addresses_secure
      split: sum.splits prod.splits if_splits)

text \<open>A usable connection: never a plain one, and its session is established.\<close>

definition protected :: "string \<Rightarrow> Connection \<Rightarrow> history \<Rightarrow> bool" where
  "protected host c h =
     (case c of PlainConnection _ \<Rightarrow> False | TlsConnection _ _ _ \<Rightarrow> secure host h \<and> established host h)"

lemma connect_protected:
  assumes "ep_tls ep"
  shows "triple (secure (ep_host ep)) (connect os ep t) (protected (ep_host ep)) (\<lambda>_. secure (ep_host ep))"
  unfolding connect_def
proof (rule triple_bind [OF connectSocket_secure], rule triple_if)
  fix fd
  show "triple (secure (ep_host ep))
      (if os_tls_built os then tls_new os fd (ep_host ep)
       else (\<lambda>h. throw (Runtime_error (''KServe https:// endpoint requested but the client was built ''
              @ ''without TLS support (rebuild with OpenSSL / -DKSERVE_CLIENT_ENABLE_TLS=ON)'')) (EClose fd # h)))
      (protected (ep_host ep)) (\<lambda>_. secure (ep_host ep))"
    by (rule triple_if, rule triple_post [OF tls_new_established])
      (auto simp: protected_def triple_def prog_simps)
qed (use assms in simp)

section \<open>Exchanging data\<close>

lemma tls_send_protected:
  "established host h \<Longrightarrow> secure host h \<Longrightarrow>
   established host (snd (tls_send os data sent h)) \<and> secure host (snd (tls_send os data sent h))"
proof (induction os data sent h rule: tls_send.induct)
  case (1 os data sent h)
  then show ?case by (subst (1 2) tls_send.simps) (auto simp: Let_def)
qed

lemma sendAll_protected: "triple (protected host c) (sendAll os c data) (\<lambda>_. protected host c) (\<lambda>_. protected host c)"
  using tls_send_protected by (cases c) (auto simp: triple_def protected_def split: sum.split, (metis snd_conv)+)

lemma recvSome_protected: "recvSome os c n h = (d, h') \<Longrightarrow> protected host c h \<Longrightarrow> protected host c h'"
  by (cases c) (auto simp: Let_def protected_def)

lemma read_loop_protected: "read_loop os c raw h = Some z \<Longrightarrow> protected host c h \<Longrightarrow> protected host c (snd z)"
proof (induction os c raw h z rule: read_loop.raw_induct [rotated, consumes 1, case_names step])
  case (step loop os c raw h z)
  obtain d h1 where d: "recvSome os c 4096 h = (d, h1)" by fastforce
  then have "protected host c h1" using recvSome_protected step.prems by blast
  then show ?case using step d by (auto split: if_splits option.splits)
qed

lemma readFramed_protected: "triple (protected host c) (readFramed os c) (\<lambda>_. protected host c) (\<lambda>_. protected host c)"
  unfolding readFramed_def
proof (rule triple_bind)
  show "triple (protected host c) (read_loop os c []) (\<lambda>_. protected host c) (\<lambda>_. protected host c)"
    by (rule tripleI) (auto dest: read_loop_protected)
qed (auto intro!: triple_if triple_throw triple_ret split: prod.split)

section \<open>The state of a client's connection\<close>

definition shielded :: "string \<Rightarrow> http_state \<Rightarrow> bool" where
  "shielded host s =
     (case hc_transport (fst s) of None \<Rightarrow> secure host (snd s) | Some c \<Rightarrow> protected host c (snd s))"

definition uses :: "string \<Rightarrow> Connection \<Rightarrow> http_state \<Rightarrow> bool" where
  "uses host c s = (hc_transport (fst s) = Some c \<and> protected host c (snd s))"

lemma uses_shielded: "uses host c s \<Longrightarrow> shielded host s"
  by (simp add: uses_def shielded_def)

lemma protected_secure: "protected host c h \<Longrightarrow> secure host h"
  by (auto simp: protected_def split: Connection.splits)

lemma drop_secure: "shielded host s \<Longrightarrow> drop_connection s = (conn, h) \<Longrightarrow> conn = new_connection \<and> secure host h"
  using protected_secure secure_destroy
  by (auto simp: shielded_def drop_connection_def split: prod.splits option.splits)

lemma drop_shielded: "shielded host s \<Longrightarrow> shielded host (drop_connection s)"
  using drop_secure [of host s] by (cases "drop_connection s") (simp add: shielded_def new_connection_def)

lemma on_history_uses:
  assumes "triple (protected host c) p (\<lambda>_. protected host c) (\<lambda>_. protected host c)"
  shows "triple (uses host c) (on_history p) (\<lambda>_. uses host c) (\<lambda>_. shielded host)"
  by (rule tripleI)
    (auto simp: on_history_def uses_def shielded_def split: prod.splits dest: tripleD [OF assms])

lemma ensureConnected_uses:
  assumes "ep_tls ep"
  shows "triple (shielded (ep_host ep)) (ensureConnected os ep t) (uses (ep_host ep)) (\<lambda>_. shielded (ep_host ep))"
proof -
  let ?fresh = "bindP (on_history (connect os ep t)) (\<lambda>c (conn1, h).
    ret c (\<lparr>hc_transport = Some c, hc_host = ep_host ep, hc_port = ep_port ep, hc_tls = ep_tls ep\<rparr>, h))"
  have fresh: "triple (\<lambda>s. fst s = new_connection \<and> secure (ep_host ep) (snd s)) ?fresh (uses (ep_host ep)) (\<lambda>_. shielded (ep_host ep))"
  proof (rule triple_bind)
    show "triple (\<lambda>s. fst s = new_connection \<and> secure (ep_host ep) (snd s)) (on_history (connect os ep t))
        (\<lambda>c s. protected (ep_host ep) c (snd s)) (\<lambda>_. shielded (ep_host ep))"
      by (rule tripleI)
        (auto simp: on_history_def shielded_def new_connection_def split: prod.splits
          dest: tripleD [OF connect_protected [OF assms]])
  qed (auto simp: triple_def prog_simps uses_def)
  have "case r of Inr c \<Rightarrow> uses (ep_host ep) c s' | Inl e \<Rightarrow> shielded (ep_host ep) s'"
    if s: "shielded (ep_host ep) s" and r: "ensureConnected os ep t s = Some (r, s')" for s r s'
  proof (cases "hc_transport (fst s) \<noteq> None \<and> hc_host (fst s) = ep_host ep \<and> hc_port (fst s) = ep_port ep \<and> hc_tls (fst s) = ep_tls ep")
    case True
    then have "r = Inr (the (hc_transport (fst s)))" "s' = s"
      using r by (auto simp: ensureConnected_def prog_basic)
    then show ?thesis using True s by (auto simp: uses_def shielded_def)
  next
    case False
    obtain conn h where d: "drop_connection s = (conn, h)" by fastforce
    have "?fresh (conn, h) = Some (r, s')"
      using r unfolding ensureConnected_def Let_def if_not_P [OF False] d .
    then have "case r of Inr c \<Rightarrow> uses (ep_host ep) c s' | Inl e \<Rightarrow> shielded (ep_host ep) s'"
      if "fst (conn, h) = new_connection \<and> secure (ep_host ep) (snd (conn, h))"
      using fresh that unfolding triple_def by blast
    then show ?thesis using drop_secure [OF s d] by simp
  qed
  then show ?thesis unfolding triple_def by blast
qed

section \<open>The whole client\<close>

lemma roundTrip_shielded:
  assumes "ep_tls ep"
  shows "triple (shielded (ep_host ep)) (roundTrip os ep request t) (\<lambda>_. shielded (ep_host ep)) (\<lambda>_. shielded (ep_host ep))"
proof -
  let ?S = "shielded (ep_host ep)"
  let ?body = "bindP (ensureConnected os ep t) (\<lambda>transport.
        bindP (on_history (sendAll os transport request)) (\<lambda>_.
        bindP (on_history (readFramed os transport)) (\<lambda>(raw, server_closed).
        bindP (parse_prog raw) (\<lambda>response s.
          ret response (if server_closed \<or> wantsClose raw then drop_connection s else s)))))"
  have parse: "triple (uses (ep_host ep) c) (bindP (parse_prog raw) (\<lambda>response s. ret response
      (if closed \<or> wantsClose raw then drop_connection s else s))) (\<lambda>_. ?S) (\<lambda>_. ?S)" for c raw closed
  proof (rule triple_bind)
    show "triple (uses (ep_host ep) c) (parse_prog raw) (\<lambda>_. uses (ep_host ep) c) (\<lambda>_. ?S)"
      by (auto simp: triple_def parse_prog_def uses_shielded split: sum.split)
    show "triple (uses (ep_host ep) c) (\<lambda>s. ret response (if closed \<or> wantsClose raw then drop_connection s else s))
        (\<lambda>_. ?S) (\<lambda>_. ?S)" for response
      unfolding triple_def ret_def using uses_shielded drop_shielded
      by (simp del: split_paired_All)
  qed
  have body: "triple ?S ?body (\<lambda>_. ?S) (\<lambda>_. ?S)"
    by (rule triple_bind [OF ensureConnected_uses [OF assms]], rule triple_bind [OF on_history_uses [OF sendAll_protected]],
        rule triple_bind [OF on_history_uses [OF readFramed_protected]]) (simp add: parse split: prod.split)
  then show ?thesis
    unfolding roundTrip_def using keeps_on_exception [of ?S ?body] drop_shielded unfolding keeps_def by blast
qed

text \<open>The connection of a client whose endpoint asks for TLS is shielded.\<close>

definition shields :: "Endpoint \<Rightarrow> http_state \<Rightarrow> bool" where
  "shields ep s = (if ep_tls ep then shielded (ep_host ep) s else True)"

definition endpoint_shields :: "HttpClient \<Rightarrow> http_state \<Rightarrow> bool" where
  "endpoint_shields cl0 s =
     (case parseEndpoint (cl_endpoint cl0) 8080 of Inl e \<Rightarrow> True | Inr ep \<Rightarrow> shields ep s)"

lemma protected_quiet [simp]:
  "protected host c (ESleep ms # h) = protected host c h" "protected host c (ERandom u # h) = protected host c h"
  by (cases c; simp add: protected_def)+

lemma shields_quiet:
  assumes "shields ep s" "e = ESleep ms \<or> e = ERandom u"
  shows "shields ep (fst s, e # snd s)"
proof -
  have "shielded host (fst s, e # snd s) = shielded host s" for host
    using assms(2) by (cases "hc_transport (fst s)") (auto simp: shielded_def)
  then show ?thesis using assms(1) unfolding shields_def by simp
qed

lemma roundTrip_shields: "keeps (shields ep) (roundTrip os ep request t)"
proof (cases "ep_tls ep")
  case True
  then have "shields ep = shielded (ep_host ep)" unfolding shields_def by simp
  then show ?thesis using roundTrip_shielded [OF True] unfolding keeps_def by simp
qed (simp add: keeps_def triple_def shields_def split: sum.split)

interpretation tls_retry: retry_invariant "shields ep" "roundTrip os ep request t" defaultSleep "defaultJitter os"
  for os ep request t
proof
  fix s r s' assume "shields ep s" "roundTrip os ep request t s = Some (r, s')"
  then show "shields ep s'" by (rule keepsD [OF roundTrip_shields])
next
  fix s ms assume "shields ep s"
  then show "shields ep (defaultSleep ms s)" unfolding defaultSleep_def by (simp add: shields_quiet)
next
  fix s assume "shields ep s"
  then show "shields ep (snd (defaultJitter os s))" unfolding defaultJitter_def Let_def by (simp add: shields_quiet)
qed

interpretation tls_contract: exchange_invariant os cl0 "endpoint_shields cl0" for os cl0
  by unfold_locales (simp add: withRetry_def endpoint_shields_def, rule tls_retry.run_keeps)

text \<open>
  C6: what an https endpoint guarantees, against any server and network and over any sequence of
  calls, each returning or throwing. No byte is sent or received on a plain socket; every byte goes
  through a session whose handshake has succeeded under a context that demands TLS 1.2 or later,
  verifies the peer against loaded roots and expects the host of the endpoint; and the connection the
  client holds between calls is such a session.
\<close>

theorem https_only_verified:
  assumes "parseEndpoint (cl_endpoint cl) 8080 = Inr ep" "ep_tls ep"
    and "client_run (http_iclient os J) (cl, (new_connection, [])) (cl', s')"
  shows "secure (ep_host ep) (snd s') \<and>
    (case hc_transport (fst s') of None \<Rightarrow> True
     | Some (PlainConnection _) \<Rightarrow> False
     | Some (TlsConnection _ _ _) \<Rightarrow> established (ep_host ep) (snd s'))"
proof -
  have "serving cl (endpoint_shields cl) (cl, (new_connection, []))"
    using assms(1) by (simp add: serving_def same_client_refl endpoint_shields_def shields_def shielded_def new_connection_def)
  then have "shielded (ep_host ep) s'"
    using tls_contract.run_keeps [OF assms(3), of cl] assms(1,2)
    by (simp add: serving_def endpoint_shields_def shields_def)
  then show ?thesis using protected_secure by (auto simp: shielded_def protected_def split: option.splits Connection.splits)
qed

section \<open>Witness\<close>

definition tls_server :: os where
  "tls_server = (script_os (\<lambda>_. None) 9999 [])\<lparr>os_ssl_read := \<lambda>h ssl n.
     (if list_ex (\<lambda>e. case e of ESslRead _ \<Rightarrow> True | _ \<Rightarrow> False) h then Some []
      else Some (''HTTP/1.1 200 OK'' @ crlf @ ''Content-Length: 0'' @ crlf @ crlf))\<rparr>"

definition tls_client :: HttpClient where
  "tls_client = demo_client\<lparr>cl_endpoint := ''https://h:9''\<rparr>"

definition reads_tls :: "history \<Rightarrow> bool" where
  "reads_tls h = list_ex (\<lambda>e. case e of ESslRead _ \<Rightarrow> True | _ \<Rightarrow> False) h"

theorem https_only_verified_witness:
  "\<exists>s'. client_run (http_iclient tls_server plain_json) (tls_client, (new_connection, [])) (tls_client, s') \<and>
     reads_tls (snd s') \<and> secure ''h'' (snd s')"
proof -
  let ?w = "(tls_client, (new_connection, []))"
  let ?ep = "\<lparr>ep_host = ''h'', ep_port = 9, ep_path_prefix = [], ep_tls = True\<rparr>"
  have "map_option (\<lambda>(r, s'). (fst s' = tls_client, reads_tls (snd (snd s')))) (http_serverLive tls_server ?w) = Some (True, True)"
    by code_simp
  then obtain r s' where s': "http_serverLive tls_server ?w = Some (r, (tls_client, s'))" "reads_tls (snd s')"
    by (auto split: prod.splits)
  then have run: "client_run (http_iclient tls_server plain_json) ?w (tls_client, s')"
    by (intro client_run.call [OF client_run.start] client_step.live) (simp add: http_iclient_def)
  have "parseEndpoint (cl_endpoint tls_client) 8080 = Inr ?ep" "ep_tls ?ep" by code_simp+
  from https_only_verified [OF this run] have "secure ''h'' (snd s')" by simp
  with run s'(2) show ?thesis by (intro exI conjI)
qed

end
