(* ===== verification/Grpc_Tensor.thy ===== *)
theory Grpc_Tensor
  imports Client_Types Tensor_Codec
begin

text \<open>
  The typed tensor payloads of \<open>src/KserveGrpcClient.cpp\<close>: the message
  \<open>InferTensorContents\<close> of \<open>proto/kserve_grpc.proto\<close>, the conversion of raw bytes into
  its fields and back, and the C++ conversions of a \<open>double\<close> that the legacy fallback performs.
  Floating-point values are their IEEE-754 bits.
\<close>

section \<open>The message\<close>

record InferTensorContents =
  bool_contents :: "bool list"
  int_contents :: "32 word list"
  int64_contents :: "64 word list"
  uint_contents :: "32 word list"
  uint64_contents :: "64 word list"
  fp32_contents :: "32 word list"
  fp64_contents :: "64 word list"
  bytes_contents :: "byte list list"

definition empty_contents :: InferTensorContents where
  "empty_contents =
     \<lparr>bool_contents = [], int_contents = [], int64_contents = [], uint_contents = [], uint64_contents = [],
      fp32_contents = [], fp64_contents = [], bytes_contents = []\<rparr>"

section \<open>Conversions of a \<open>double\<close>\<close>

definition dbl_neg :: "64 word \<Rightarrow> nat" where
  "dbl_neg d = unat d div 2 ^ 63"

definition dbl_exp :: "64 word \<Rightarrow> nat" where
  "dbl_exp d = unat d div 2 ^ 52 mod 2 ^ 11"

definition dbl_frac :: "64 word \<Rightarrow> nat" where
  "dbl_frac d = unat d mod 2 ^ 52"

text \<open>A finite value is \<open>dbl_mant d * 2 ^ dbl_scale d / 2 ^ 1075\<close>, with its sign.\<close>

definition dbl_mant :: "64 word \<Rightarrow> nat" where
  "dbl_mant d = (if dbl_exp d = 0 then dbl_frac d else 2 ^ 52 + dbl_frac d)"

definition dbl_scale :: "64 word \<Rightarrow> nat" where
  "dbl_scale d = max (dbl_exp d) 1"

text \<open>Truncation toward zero; nothing for infinities and NaNs.\<close>

definition trunc_double :: "64 word \<Rightarrow> int option" where
  "trunc_double d =
     (if dbl_exp d = 2047 then None
      else
        let e = dbl_scale d;
            n = (if 1075 \<le> e then dbl_mant d * 2 ^ (e - 1075) else dbl_mant d div 2 ^ (1075 - e))
        in Some (if dbl_neg d = 1 then - int n else int n))"

text \<open>
  \<open>static_cast\<close> of a \<open>double\<close> to an integer type: undefined unless the truncated value
  fits.
\<close>

definition cast_signed :: "64 word \<Rightarrow> 'a::len word result" where
  "cast_signed d =
     (case trunc_double d of
        None \<Rightarrow> Inl (Undefined_behaviour ''float to integer conversion'')
      | Some n \<Rightarrow>
          if - (2 ^ (LENGTH('a) - 1)) \<le> n \<and> n < 2 ^ (LENGTH('a) - 1) then Inr (word_of_int n)
          else Inl (Undefined_behaviour ''float to integer conversion''))"

definition cast_unsigned :: "64 word \<Rightarrow> 'a::len word result" where
  "cast_unsigned d =
     (case trunc_double d of
        None \<Rightarrow> Inl (Undefined_behaviour ''float to integer conversion'')
      | Some n \<Rightarrow>
          if 0 \<le> n \<and> n < 2 ^ LENGTH('a) then Inr (word_of_int n)
          else Inl (Undefined_behaviour ''float to integer conversion''))"

text \<open>\<open>m / d\<close> to the nearest integer, ties to even.\<close>

definition div_even :: "nat \<Rightarrow> nat \<Rightarrow> nat" where
  "div_even m d =
     (let q = m div d; r = m mod d
      in if 2 * r < d then q else if d < 2 * r then q + 1 else if even q then q else q + 1)"

text \<open>
  \<open>static_cast<float>\<close> of a \<open>double\<close> on an IEEE-754 host in the default rounding mode:
  to nearest, ties to even, overflow to infinity, a NaN stays a (quiet) NaN.
\<close>

definition narrow_double :: "64 word \<Rightarrow> 32 word" where
  "narrow_double d =
     (let bits =
        (if dbl_exp d = 2047 then
           (if dbl_frac d = 0 then 255 * 2 ^ 23
            else 255 * 2 ^ 23 + 2 ^ 22 + dbl_frac d div 2 ^ 29 mod 2 ^ 22)
         else
           let e = dbl_scale d
           in min ((e - 897) * 2 ^ 23 + div_even (dbl_mant d) (2 ^ max 29 (926 - e))) (255 * 2 ^ 23))
      in word_of_nat (dbl_neg d * 2 ^ 31 + bits))"

section \<open>Filling and reading the fields\<close>

definition add_fp32_contents :: "32 word \<Rightarrow> InferTensorContents \<Rightarrow> InferTensorContents" where
  "add_fp32_contents v c = c\<lparr>fp32_contents := fp32_contents c @ [v]\<rparr>"

definition add_fp64_contents :: "64 word \<Rightarrow> InferTensorContents \<Rightarrow> InferTensorContents" where
  "add_fp64_contents v c = c\<lparr>fp64_contents := fp64_contents c @ [v]\<rparr>"

definition add_int_contents :: "32 word \<Rightarrow> InferTensorContents \<Rightarrow> InferTensorContents" where
  "add_int_contents v c = c\<lparr>int_contents := int_contents c @ [v]\<rparr>"

definition add_int64_contents :: "64 word \<Rightarrow> InferTensorContents \<Rightarrow> InferTensorContents" where
  "add_int64_contents v c = c\<lparr>int64_contents := int64_contents c @ [v]\<rparr>"

definition add_uint_contents :: "32 word \<Rightarrow> InferTensorContents \<Rightarrow> InferTensorContents" where
  "add_uint_contents v c = c\<lparr>uint_contents := uint_contents c @ [v]\<rparr>"

definition add_uint64_contents :: "64 word \<Rightarrow> InferTensorContents \<Rightarrow> InferTensorContents" where
  "add_uint64_contents v c = c\<lparr>uint64_contents := uint64_contents c @ [v]\<rparr>"

definition fillContents ::
    "byte list \<Rightarrow> ('a::len word \<Rightarrow> InferTensorContents \<Rightarrow> InferTensorContents) \<Rightarrow> InferTensorContents \<Rightarrow>
     InferTensorContents result" where
  "fillContents bytes add c =
     (let width = LENGTH('a) div 8
      in if length bytes mod width \<noteq> 0 then
           Inl (Runtime_error (''KServe gRPC input byte count is not a multiple of '' @ ''the datatype width''))
         else
           let count = length bytes div width
           in Inr (fold (\<lambda>i. add (le_word (block width bytes i))) [0..<count] c))"

definition encodeInput :: "InferTensorContents \<Rightarrow> byte list \<Rightarrow> string \<Rightarrow> InferTensorContents result" where
  "encodeInput contents bytes datatype =
     (if datatype = ''FP32'' then fillContents bytes (\<lambda>v :: 32 word. add_fp32_contents v) contents
      else if datatype = ''FP64'' then fillContents bytes (\<lambda>v :: 64 word. add_fp64_contents v) contents
      else if datatype = ''INT8'' then fillContents bytes (\<lambda>v :: 8 word. add_int_contents (scast v)) contents
      else if datatype = ''INT16'' then fillContents bytes (\<lambda>v :: 16 word. add_int_contents (scast v)) contents
      else if datatype = ''INT32'' then fillContents bytes (\<lambda>v :: 32 word. add_int_contents v) contents
      else if datatype = ''INT64'' then fillContents bytes (\<lambda>v :: 64 word. add_int64_contents v) contents
      else if datatype = ''UINT8'' \<or> datatype = ''BOOL'' then
        fillContents bytes (\<lambda>v :: 8 word. add_uint_contents (ucast v)) contents
      else if datatype = ''UINT16'' then fillContents bytes (\<lambda>v :: 16 word. add_uint_contents (ucast v)) contents
      else if datatype = ''UINT32'' then fillContents bytes (\<lambda>v :: 32 word. add_uint_contents v) contents
      else if datatype = ''UINT64'' then fillContents bytes (\<lambda>v :: 64 word. add_uint64_contents v) contents
      else Inl (Runtime_error (''unsupported KServe gRPC input datatype (use HTTP transport): '' @ datatype)))"

text \<open>\<open>conv\<close> is \<open>static_cast<T>\<close> from the element type of the range.\<close>

definition appendBytes :: "('v \<Rightarrow> 'a::len word result) \<Rightarrow> byte list \<Rightarrow> 'v list \<Rightarrow> byte list result" where
  "appendBytes conv out vals =
     bindR (mapR conv vals) (\<lambda>values. Inr (out @ concat (map (le_bytes (LENGTH('a) div 8)) values)))"

definition appendBytesOrFp64Fallback ::
    "('v \<Rightarrow> 'a::len word result) \<Rightarrow> (64 word \<Rightarrow> 'a word result) \<Rightarrow> byte list \<Rightarrow> 'v list \<Rightarrow> 64 word list \<Rightarrow>
     byte list result" where
  "appendBytesOrFp64Fallback conv conv64 out vals fp64_fallback =
     (if 0 < length vals then appendBytes conv out vals else appendBytes conv64 out fp64_fallback)"

definition contentsToBytes :: "InferTensorContents \<Rightarrow> string \<Rightarrow> byte list result" where
  "contentsToBytes c datatype =
     (if datatype = ''FP32'' then
        appendBytesOrFp64Fallback (\<lambda>v :: 32 word. Inr v) (\<lambda>d. Inr (narrow_double d)) [] (fp32_contents c) (fp64_contents c)
      else if datatype = ''FP64'' then appendBytes (\<lambda>v :: 64 word. Inr v) [] (fp64_contents c)
      else if datatype = ''INT8'' then
        appendBytesOrFp64Fallback (\<lambda>v. Inr (ucast v :: 8 word)) cast_signed [] (int_contents c) (fp64_contents c)
      else if datatype = ''INT16'' then
        appendBytesOrFp64Fallback (\<lambda>v. Inr (ucast v :: 16 word)) cast_signed [] (int_contents c) (fp64_contents c)
      else if datatype = ''INT32'' then
        appendBytesOrFp64Fallback (\<lambda>v :: 32 word. Inr v) cast_signed [] (int_contents c) (fp64_contents c)
      else if datatype = ''INT64'' then
        appendBytesOrFp64Fallback (\<lambda>v :: 64 word. Inr v) cast_signed [] (int64_contents c) (fp64_contents c)
      else if datatype = ''UINT8'' then
        appendBytesOrFp64Fallback (\<lambda>v. Inr (ucast v :: 8 word)) cast_unsigned [] (uint_contents c) (fp64_contents c)
      else if datatype = ''BOOL'' then
        appendBytes (\<lambda>v. Inr (if v then 1 else 0 :: 8 word)) [] (bool_contents c)
      else if datatype = ''UINT16'' then
        appendBytesOrFp64Fallback (\<lambda>v. Inr (ucast v :: 16 word)) cast_unsigned [] (uint_contents c) (fp64_contents c)
      else if datatype = ''UINT32'' then
        appendBytesOrFp64Fallback (\<lambda>v :: 32 word. Inr v) cast_unsigned [] (uint_contents c) (fp64_contents c)
      else if datatype = ''UINT64'' then
        appendBytesOrFp64Fallback (\<lambda>v :: 64 word. Inr v) cast_unsigned [] (uint64_contents c) (fp64_contents c)
      else Inl (Runtime_error (''unsupported KServe gRPC output datatype: '' @ datatype)))"

section \<open>Dispatch on the datatype\<close>

definition grpc_datatype :: "string \<Rightarrow> bool" where
  "grpc_datatype dt = (json_datatype dt \<and> dt \<noteq> ''FP16'')"

lemma grpc_datatype_iff:
  "grpc_datatype dt \<longleftrightarrow>
     dt \<in> {''FP32'', ''FP64'', ''INT8'', ''INT16'', ''INT32'', ''INT64'', ''UINT8'', ''BOOL'', ''UINT16'', ''UINT32'', ''UINT64''}"
  unfolding grpc_datatype_def json_datatype_iff by auto

lemma grpc_datatype_cases:
  assumes "grpc_datatype dt"
    and "P ''FP32''" "P ''FP64''" "P ''INT8''" "P ''INT16''" "P ''INT32''" "P ''INT64''" "P ''UINT8''" "P ''BOOL''"
      "P ''UINT16''" "P ''UINT32''" "P ''UINT64''"
  shows "P dt"
  using assms(1) unfolding grpc_datatype_iff insert_iff empty_iff by (elim disjE FalseE) (simp_all only: assms)

lemma fill_cases:
  "encodeInput c bytes ''FP32'' = fillContents bytes (\<lambda>v. add_fp32_contents v) c"
  "encodeInput c bytes ''FP64'' = fillContents bytes (\<lambda>v. add_fp64_contents v) c"
  "encodeInput c bytes ''INT8'' = fillContents bytes (\<lambda>v :: 8 word. add_int_contents (scast v)) c"
  "encodeInput c bytes ''INT16'' = fillContents bytes (\<lambda>v :: 16 word. add_int_contents (scast v)) c"
  "encodeInput c bytes ''INT32'' = fillContents bytes (\<lambda>v. add_int_contents v) c"
  "encodeInput c bytes ''INT64'' = fillContents bytes (\<lambda>v. add_int64_contents v) c"
  "encodeInput c bytes ''UINT8'' = fillContents bytes (\<lambda>v :: 8 word. add_uint_contents (ucast v)) c"
  "encodeInput c bytes ''BOOL'' = fillContents bytes (\<lambda>v :: 8 word. add_uint_contents (ucast v)) c"
  "encodeInput c bytes ''UINT16'' = fillContents bytes (\<lambda>v :: 16 word. add_uint_contents (ucast v)) c"
  "encodeInput c bytes ''UINT32'' = fillContents bytes (\<lambda>v. add_uint_contents v) c"
  "encodeInput c bytes ''UINT64'' = fillContents bytes (\<lambda>v. add_uint64_contents v) c"
  by (simp_all add: encodeInput_def)

lemma read_cases:
  "contentsToBytes c ''FP32'' =
     appendBytesOrFp64Fallback Inr (\<lambda>d. Inr (narrow_double d)) [] (fp32_contents c) (fp64_contents c)"
  "contentsToBytes c ''FP64'' = appendBytes Inr [] (fp64_contents c)"
  "contentsToBytes c ''INT8'' =
     appendBytesOrFp64Fallback (\<lambda>v. Inr (ucast v :: 8 word)) cast_signed [] (int_contents c) (fp64_contents c)"
  "contentsToBytes c ''INT16'' =
     appendBytesOrFp64Fallback (\<lambda>v. Inr (ucast v :: 16 word)) cast_signed [] (int_contents c) (fp64_contents c)"
  "contentsToBytes c ''INT32'' = appendBytesOrFp64Fallback Inr cast_signed [] (int_contents c) (fp64_contents c)"
  "contentsToBytes c ''INT64'' = appendBytesOrFp64Fallback Inr cast_signed [] (int64_contents c) (fp64_contents c)"
  "contentsToBytes c ''UINT8'' =
     appendBytesOrFp64Fallback (\<lambda>v. Inr (ucast v :: 8 word)) cast_unsigned [] (uint_contents c) (fp64_contents c)"
  "contentsToBytes c ''BOOL'' = appendBytes (\<lambda>v. Inr (if v then 1 else 0 :: 8 word)) [] (bool_contents c)"
  "contentsToBytes c ''UINT16'' =
     appendBytesOrFp64Fallback (\<lambda>v. Inr (ucast v :: 16 word)) cast_unsigned [] (uint_contents c) (fp64_contents c)"
  "contentsToBytes c ''UINT32'' = appendBytesOrFp64Fallback Inr cast_unsigned [] (uint_contents c) (fp64_contents c)"
  "contentsToBytes c ''UINT64'' = appendBytesOrFp64Fallback Inr cast_unsigned [] (uint64_contents c) (fp64_contents c)"
  by (simp_all add: contentsToBytes_def)

section \<open>Round trip of typed contents\<close>

lemma fold_add:
  assumes "\<And>v c. get (add v c) = get c @ [p v]"
  shows "get (fold (\<lambda>i. add (f i)) is c) = get c @ map (\<lambda>i. p (f i)) is"
  using assms by (induction "is" arbitrary: c) simp_all

lemma fold_keeps: "(\<And>v c. get (add v c) = get c) \<Longrightarrow> get (fold (\<lambda>i. add (f i)) is c) = get c"
  by (induction "is" arbitrary: c) simp_all

text \<open>One dispatch of the encoder against one of the decoder.\<close>

lemma fill_append:
  fixes add :: "'a::len word \<Rightarrow> InferTensorContents \<Rightarrow> InferTensorContents"
  assumes codec: "byte_codec w (le_word :: byte list \<Rightarrow> 'a word) (le_bytes w)" and w: "LENGTH('a) div 8 = w"
    and dvd: "w dvd length bytes"
    and get: "\<And>v c. get (add v c) = get c @ [p v]" "get empty_contents = []"
    and conv: "\<And>v. conv (p v) = Inr v"
  shows "\<exists>c. fillContents bytes add empty_contents = Inr c \<and> appendBytes conv [] (get c) = Inr bytes"
proof -
  let ?vs = "map (\<lambda>i. le_word (block w bytes i) :: 'a word) [0..<length bytes div w]"
  let ?c = "fold (\<lambda>i. add (le_word (block w bytes i))) [0..<length bytes div w] empty_contents"
  have g: "get ?c = map p ?vs"
    by (simp add: fold_add [where get = get and add = add and p = p, OF get(1)] get(2) comp_def)
  have f: "fillContents bytes add empty_contents = Inr ?c"
    using w dvd by (simp add: fillContents_def Let_def dvd_eq_mod_eq_0)
  have "mapR conv (map p ?vs) = Inr ?vs"
    using mapR_all_Inr [of "[0..<length bytes div w]" "\<lambda>i. conv (p (le_word (block w bytes i)))" "\<lambda>i. le_word (block w bytes i)"]
    by (simp add: mapR_map conv)
  moreover have "concat (map (le_bytes w) ?vs) = bytes"
    using byte_codec.store_blocks [OF codec dvd] by (simp add: comp_def)
  ultimately have "appendBytes conv [] (get ?c) = Inr bytes" by (simp add: appendBytes_def g w)
  then show ?thesis using f by blast
qed

lemma fill_fallback:
  fixes add :: "'a::len word \<Rightarrow> InferTensorContents \<Rightarrow> InferTensorContents"
  assumes codec: "byte_codec w (le_word :: byte list \<Rightarrow> 'a word) (le_bytes w)" and w: "LENGTH('a) div 8 = w"
    and dvd: "w dvd length bytes"
    and get: "\<And>v c. get (add v c) = get c @ [p v]" "get empty_contents = []"
    and conv: "\<And>v. conv (p v) = Inr v"
    and other: "\<And>v c. fp64_contents (add v c) = fp64_contents c"
  shows "\<exists>c. fillContents bytes add empty_contents = Inr c \<and>
    appendBytesOrFp64Fallback conv conv64 [] (get c) (fp64_contents c) = Inr bytes"
proof -
  obtain c where c: "fillContents bytes add empty_contents = Inr c" "appendBytes conv [] (get c) = Inr bytes"
    using fill_append [where get = get and add = add and p = p and conv = conv, OF codec w dvd get conv] by blast
  have "c = fold (\<lambda>i. add (le_word (block w bytes i))) [0..<length bytes div w] empty_contents"
    using c(1) w dvd by (simp add: fillContents_def Let_def dvd_eq_mod_eq_0)
  then have e: "fp64_contents c = []"
    by (simp add: fold_keeps [where get = fp64_contents and add = add, OF other]) (simp add: empty_contents_def)
  have "appendBytesOrFp64Fallback conv conv64 [] (get c) (fp64_contents c) = Inr bytes"
  proof (cases "get c = []")
    case True
    then show ?thesis using c(2) by (simp add: appendBytesOrFp64Fallback_def appendBytes_def e)
  qed (simp add: appendBytesOrFp64Fallback_def c(2))
  then show ?thesis using c(1) by blast
qed

lemmas contents_fields = add_fp32_contents_def add_fp64_contents_def add_int_contents_def add_int64_contents_def
  add_uint_contents_def add_uint64_contents_def empty_contents_def

lemma typed_dispatch:
  fixes add :: "'a::len word \<Rightarrow> InferTensorContents \<Rightarrow> InferTensorContents"
  assumes "byte_codec w (le_word :: byte list \<Rightarrow> 'a word) (le_bytes w)" "LENGTH('a) div 8 = w"
    and "datatypeByteWidth dt = w"
    and "\<And>c bytes. encodeInput c bytes dt = fillContents bytes add c"
    and "\<And>c. contentsToBytes c dt = appendBytesOrFp64Fallback conv conv64 [] (get c) (fp64_contents c)"
    and "\<And>v c. get (add v c) = get c @ [p v]" "get empty_contents = []" "\<And>v. conv (p v) = Inr v"
    and "\<And>v c. fp64_contents (add v c) = fp64_contents c"
  shows "datatypeByteWidth dt dvd length bytes \<longrightarrow>
    (\<exists>c. encodeInput empty_contents bytes dt = Inr c \<and> contentsToBytes c dt = Inr bytes)"
  unfolding assms(3,4,5)
  by (intro impI fill_fallback [where get = get and add = add and p = p and conv = conv, OF assms(1,2) _ assms(6-9)])

lemma typed_inverts_iff:
  assumes "grpc_datatype dt"
  shows "dt \<noteq> ''BOOL'' \<longrightarrow> datatypeByteWidth dt dvd length bytes \<longrightarrow>
    (\<exists>c. encodeInput empty_contents bytes dt = Inr c \<and> contentsToBytes c dt = Inr bytes)"
proof -
  note dispatch =
    typed_dispatch [where p = "\<lambda>v. v", OF codec_laws(3) len_simps(3) width_cases(1) fill_cases(1) read_cases(1)]
    typed_dispatch [where p = scast, OF codec_laws(1) len_simps(1) width_cases(4) fill_cases(3) read_cases(3)]
    typed_dispatch [where p = scast, OF codec_laws(2) len_simps(2) width_cases(5) fill_cases(4) read_cases(4)]
    typed_dispatch [where p = "\<lambda>v. v", OF codec_laws(3) len_simps(3) width_cases(6) fill_cases(5) read_cases(5)]
    typed_dispatch [where p = "\<lambda>v. v", OF codec_laws(4) len_simps(4) width_cases(7) fill_cases(6) read_cases(6)]
    typed_dispatch [where p = ucast, OF codec_laws(1) len_simps(1) width_cases(8) fill_cases(7) read_cases(7)]
    typed_dispatch [where p = ucast, OF codec_laws(2) len_simps(2) width_cases(10) fill_cases(9) read_cases(9)]
    typed_dispatch [where p = "\<lambda>v. v", OF codec_laws(3) len_simps(3) width_cases(11) fill_cases(10) read_cases(10)]
    typed_dispatch [where p = "\<lambda>v. v", OF codec_laws(4) len_simps(4) width_cases(12) fill_cases(11) read_cases(11)]
  have fp64: "datatypeByteWidth ''FP64'' dvd length bytes \<longrightarrow>
      (\<exists>c. encodeInput empty_contents bytes ''FP64'' = Inr c \<and> contentsToBytes c ''FP64'' = Inr bytes)"
    unfolding fill_cases read_cases width_cases
    by (intro impI, rule fill_append [OF codec_laws(4) len_simps(4)]) (simp_all add: contents_fields)
  show ?thesis
    by (rule grpc_datatype_cases [OF assms]; rule impI;
        (rule fp64 | rule dispatch; simp add: contents_fields ucast_scast_up | simp))
qed

section \<open>The legacy fallback\<close>

text \<open>
  What a runtime that widens its outputs sends: \<open>dbl_is n d\<close>, the double that is the integer
  \<open>n\<close>, and \<open>dbl_widens x d\<close>, the one that is the float \<open>x\<close>. Magnitudes count units of
  the smallest positive double.
\<close>

definition dbl_mag :: "64 word \<Rightarrow> nat" where
  "dbl_mag d = dbl_mant d * 2 ^ (dbl_scale d - 1)"

definition dbl_is :: "int \<Rightarrow> 64 word \<Rightarrow> bool" where
  "dbl_is n d =
     (dbl_exp d \<noteq> 2047 \<and> dbl_mag d = nat \<bar>n\<bar> * 2 ^ 1074 \<and> (dbl_neg d = 1 \<longleftrightarrow> n < 0))"

definition dbl_widens :: "32 word \<Rightarrow> 64 word \<Rightarrow> bool" where
  "dbl_widens x d =
     (dbl_neg d = float_neg x \<and>
      (if float_exp x = 255 then dbl_exp d = 2047 \<and> dbl_frac d = float_frac x * 2 ^ 29
       else dbl_exp d \<noteq> 2047 \<and> dbl_mag d = float_mag x * 2 ^ 925))"

lemma dbl_bounds: "dbl_neg d < 2" "dbl_exp d < 2048" "dbl_frac d < 2 ^ 52"
  using unsigned_less [of d, where 'a = nat] by (simp_all add: dbl_neg_def dbl_exp_def dbl_frac_def less_mult_imp_div_less)

lemma dbl_scale_pos: "1 \<le> dbl_scale d"
  by (simp add: dbl_scale_def)

lemma cancel_scale:
  assumes "a * 2 ^ i = b * (2 :: nat) ^ j" "i \<le> j"
  shows "a = b * 2 ^ (j - i)"
proof -
  have "(2 :: nat) ^ j = 2 ^ (j - i) * 2 ^ i" using assms(2) by (simp flip: power_add)
  then have "a * 2 ^ i = b * 2 ^ (j - i) * 2 ^ i" using assms(1) by simp
  then show ?thesis by simp
qed

lemma trunc_exact:
  assumes "dbl_is n d"
  shows "trunc_double d = Some n"
proof -
  let ?e = "dbl_scale d"
  have e: "dbl_exp d \<noteq> 2047" and neg: "dbl_neg d = 1 \<longleftrightarrow> n < 0"
    and m: "dbl_mant d * 2 ^ (?e - 1) = nat \<bar>n\<bar> * 2 ^ 1074"
    using assms by (simp_all add: dbl_is_def dbl_mag_def)
  have "(if 1075 \<le> ?e then dbl_mant d * 2 ^ (?e - 1075) else dbl_mant d div 2 ^ (1075 - ?e)) = nat \<bar>n\<bar>"
  proof (cases "1075 \<le> ?e")
    case True
    have "nat \<bar>n\<bar> = dbl_mant d * 2 ^ (?e - 1 - 1074)" by (rule cancel_scale [OF m [symmetric]]) (use True in simp)
    then show ?thesis using True by simp
  next
    case False
    have "dbl_mant d = nat \<bar>n\<bar> * 2 ^ (1074 - (?e - 1))" by (rule cancel_scale [OF m]) (use False in simp)
    then show ?thesis using False dbl_scale_pos [of d] by simp
  qed
  then show ?thesis using e neg by (auto simp: trunc_double_def Let_def)
qed

lemma div_even_exact: "0 < k \<Longrightarrow> div_even (n * k) k = n"
  by (simp add: div_even_def)

text \<open>The leading bit determines the scale.\<close>

lemma scale_unique:
  assumes "2 ^ p \<le> a" "a < 2 ^ Suc p" "2 ^ q \<le> b" "b < 2 ^ Suc q" "a * 2 ^ i = b * (2 :: nat) ^ j"
  shows "p + i = q + j"
proof -
  have lt: "p + i < Suc q + j" if "2 ^ p \<le> a" "b < 2 ^ Suc q" "a * 2 ^ i = b * 2 ^ j" for a b p q i j :: nat
  proof -
    have "(2 :: nat) ^ (p + i) \<le> a * 2 ^ i" using that(1) by (simp add: power_add)
    also have "\<dots> < 2 ^ (Suc q + j)" using that(2,3) by (simp add: power_add)
    finally show ?thesis by (rule power_less_imp_less_exp [rotated]) simp
  qed
  show ?thesis using lt [OF assms(1,4,5)] lt [OF assms(3,2) assms(5) [symmetric]] by simp
qed

text \<open>A float in double format, as the integer equation between the two significands.\<close>

lemma narrow_zero_exponent:
  assumes "dbl_mant d * 2 ^ (dbl_scale d - 1) = f * 2 ^ 925" "f < 2 ^ 23"
  shows "(dbl_scale d - 897) * 2 ^ 23 + div_even (dbl_mant d) (2 ^ max 29 (926 - dbl_scale d)) = f"
proof (cases "dbl_exp d = 0")
  case True
  then have e: "dbl_scale d = 1" and mf: "dbl_mant d = f * 2 ^ 925" using assms(1) by (simp_all add: dbl_scale_def)
  show ?thesis unfolding mf e using div_even_exact [of "2 ^ 925" f] by simp
next
  case False
  let ?e = "dbl_scale d"
  have "2 ^ 52 \<le> dbl_mant d" using False by (simp add: dbl_mant_def)
  then have "(2 :: nat) ^ (52 + (?e - 1)) \<le> dbl_mant d * 2 ^ (?e - 1)" unfolding power_add by (rule mult_le_mono1)
  also have "\<dots> = f * 2 ^ 925" by (rule assms(1))
  also have "\<dots> < 2 ^ (23 + 925)" using assms(2) by (simp add: power_add)
  finally have "52 + (?e - 1) < 23 + 925" by (rule power_less_imp_less_exp [rotated]) simp
  then have e: "?e < 897" "1 \<le> ?e" using dbl_scale_pos [of d] by simp_all
  have "dbl_mant d = f * 2 ^ (925 - (?e - 1))" by (rule cancel_scale [OF assms(1)]) (use e in simp)
  then have mf: "dbl_mant d = f * 2 ^ (926 - ?e)" using e by simp
  have "max 29 (926 - ?e) = 926 - ?e" "?e - 897 = 0" using e by simp_all
  then show ?thesis unfolding mf using div_even_exact [of "2 ^ (926 - ?e)" f] by simp
qed

lemma narrow_exponent:
  assumes "dbl_mant d * 2 ^ (dbl_scale d - 1) = (2 ^ 23 + f) * 2 ^ (x - 1 + 925)" "f < 2 ^ 23" "x \<noteq> 0"
  shows "(dbl_scale d - 897) * 2 ^ 23 + div_even (dbl_mant d) (2 ^ max 29 (926 - dbl_scale d)) = x * 2 ^ 23 + f"
proof -
  let ?e = "dbl_scale d"
  have "dbl_exp d \<noteq> 0"
  proof
    assume "dbl_exp d = 0"
    then have "(2 ^ 23 + f) * 2 ^ (x - 1 + 925) < 2 ^ 52"
      using assms(1) dbl_bounds(3) [of d] by (simp add: dbl_mant_def dbl_scale_def)
    moreover have "(2 :: nat) ^ 52 \<le> 2 ^ (x - 1 + 925)" by (rule power_increasing) simp_all
    moreover have "(2 :: nat) ^ (x - 1 + 925) \<le> (2 ^ 23 + f) * 2 ^ (x - 1 + 925)" by simp
    ultimately show False by linarith
  qed
  then have "2 ^ 52 \<le> dbl_mant d" "dbl_mant d < 2 ^ Suc 52" using dbl_bounds(3) [of d] by (simp_all add: dbl_mant_def)
  then have "52 + (?e - 1) = 23 + (x - 1 + 925)" using assms(2) by (intro scale_unique [OF _ _ _ _ assms(1)]) simp_all
  then have e: "?e = x + 896" using assms(3) dbl_scale_pos [of d] by simp
  have "?e - 1 = 29 * 0 + (x + 895)" "x - 1 + 925 = 29 + (x + 895)" using e assms(3) by simp_all
  then have mf: "dbl_mant d = (2 ^ 23 + f) * 2 ^ 29" using assms(1) by (simp add: power_add)
  have s: "max 29 (926 - ?e) = 29" "?e - 897 = x - 1" using e assms(3) by simp_all
  have "(x - 1) * 2 ^ 23 + (2 ^ 23 + f) = x * 2 ^ 23 + f" using assms(3) by (cases x) simp_all
  then show ?thesis unfolding mf s using div_even_exact [of "2 ^ 29" "2 ^ 23 + f"] by simp
qed

lemma narrow_bits:
  assumes "dbl_widens x d" "float_exp x \<noteq> 255"
  shows "(dbl_scale d - 897) * 2 ^ 23 + div_even (dbl_mant d) (2 ^ max 29 (926 - dbl_scale d)) =
    float_exp x * 2 ^ 23 + float_frac x"
proof -
  have m: "dbl_mant d * 2 ^ (dbl_scale d - 1) = float_mag x * 2 ^ 925"
    using assms by (simp add: dbl_widens_def dbl_mag_def)
  have f: "float_frac x < 2 ^ 23" by (rule float_field_bounds)
  show ?thesis
  proof (cases "float_exp x = 0")
    case True
    then have "dbl_mant d * 2 ^ (dbl_scale d - 1) = float_frac x * 2 ^ 925" using m by (simp add: float_mag_def)
    from narrow_zero_exponent [OF this f] show ?thesis using True by simp
  next
    case False
    then have "dbl_mant d * 2 ^ (dbl_scale d - 1) = (2 ^ 23 + float_frac x) * 2 ^ (float_exp x - 1 + 925)"
      using m by (simp only: float_mag_def if_False power_add mult.assoc)
    from narrow_exponent [OF this f False] show ?thesis .
  qed
qed

lemma narrow_exact:
  assumes "dbl_widens x d" "\<not> float_is_nan x"
  shows "narrow_double d = x"
proof -
  have "float_exp x * 2 ^ 23 + float_frac x < 255 * 2 ^ 23" if "float_exp x \<noteq> 255"
    using float_field_bounds(2,3) [of x] that by simp
  then have "narrow_double d = word_of_nat (float_neg x * 2 ^ 31 + float_exp x * 2 ^ 23 + float_frac x)"
    using assms narrow_bits [OF assms(1)]
    by (cases "float_exp x = 255") (simp_all add: narrow_double_def dbl_widens_def float_is_nan_def Let_def add.assoc)
  also have "\<dots> = x" by (simp only: float_fields [symmetric]) simp
  finally show ?thesis .
qed

text \<open>An element of a datatype, given by its bytes, and the double it was widened to.\<close>

definition element_widens :: "string \<Rightarrow> byte list \<Rightarrow> 64 word \<Rightarrow> bool" where
  "element_widens dt b d =
     (if dt = ''FP32'' then dbl_widens (le_word b) d
      else if dt = ''INT8'' then dbl_is (sint (le_word b :: 8 word)) d
      else if dt = ''INT16'' then dbl_is (sint (le_word b :: 16 word)) d
      else if dt = ''INT32'' then dbl_is (sint (le_word b :: 32 word)) d
      else if dt = ''INT64'' then dbl_is (sint (le_word b :: 64 word)) d
      else if dt = ''UINT8'' then dbl_is (uint (le_word b :: 8 word)) d
      else if dt = ''UINT16'' then dbl_is (uint (le_word b :: 16 word)) d
      else if dt = ''UINT32'' then dbl_is (uint (le_word b :: 32 word)) d
      else dbl_is (uint (le_word b :: 64 word)) d)"

definition widened :: "string \<Rightarrow> byte list \<Rightarrow> 64 word list \<Rightarrow> bool" where
  "widened dt bytes ds =
     (let w = datatypeByteWidth dt
      in list_all2 (\<lambda>i d. element_widens dt (block w bytes i) d) [0..<length bytes div w] ds)"

lemma cast_exact:
  "dbl_is (sint v) d \<Longrightarrow> cast_signed d = Inr v" "dbl_is (uint u) d \<Longrightarrow> cast_unsigned d = Inr u"
  using sint_range_size [of v] by (simp_all add: cast_signed_def cast_unsigned_def trunc_exact word_size)

lemma fallback_bytes:
  fixes conv64 :: "64 word \<Rightarrow> 'a::len word result"
  assumes codec: "byte_codec w (le_word :: byte list \<Rightarrow> 'a word) (le_bytes w)" "LENGTH('a) div 8 = w"
    and "w dvd length bytes" "list_all2 (\<lambda>i d. conv64 d = Inr (le_word (block w bytes i))) [0..<length bytes div w] ds"
  shows "appendBytesOrFp64Fallback conv conv64 [] [] ds = Inr bytes"
proof -
  have "mapR conv64 ds = Inr (map (\<lambda>i. le_word (block w bytes i)) [0..<length bytes div w])"
    unfolding mapR_Inr_iff list_all2_map2 using assms(4) by (simp add: list_all2_conv_all_nth)
  then show ?thesis
    using byte_codec.store_blocks [OF codec(1) assms(3)]
    by (simp add: appendBytesOrFp64Fallback_def appendBytes_def codec(2) comp_def)
qed

text \<open>No typed field set, as in an answer of such a runtime.\<close>

definition no_typed_field :: "InferTensorContents \<Rightarrow> bool" where
  "no_typed_field c \<longleftrightarrow>
     int_contents c = [] \<and> int64_contents c = [] \<and> uint_contents c = [] \<and> uint64_contents c = [] \<and> fp32_contents c = []"

lemma element_cases:
  "element_widens ''FP32'' b d = dbl_widens (le_word b) d"
  "element_widens ''INT8'' b d = dbl_is (sint (le_word b :: 8 word)) d"
  "element_widens ''INT16'' b d = dbl_is (sint (le_word b :: 16 word)) d"
  "element_widens ''INT32'' b d = dbl_is (sint (le_word b :: 32 word)) d"
  "element_widens ''INT64'' b d = dbl_is (sint (le_word b :: 64 word)) d"
  "element_widens ''UINT8'' b d = dbl_is (uint (le_word b :: 8 word)) d"
  "element_widens ''UINT16'' b d = dbl_is (uint (le_word b :: 16 word)) d"
  "element_widens ''UINT32'' b d = dbl_is (uint (le_word b :: 32 word)) d"
  "element_widens ''UINT64'' b d = dbl_is (uint (le_word b :: 64 word)) d"
  by (simp_all add: element_widens_def)

text \<open>One case of the theorem below.\<close>

lemma fallback_dispatch:
  fixes conv64 :: "64 word \<Rightarrow> 'a::len word result"
  assumes "byte_codec w (le_word :: byte list \<Rightarrow> 'a word) (le_bytes w)" "LENGTH('a) div 8 = w"
    and "datatypeByteWidth dt = w"
    and "\<And>c. contentsToBytes c dt = appendBytesOrFp64Fallback conv conv64 [] (get c) (fp64_contents c)"
    and "no_typed_field c \<Longrightarrow> get c = []"
    and "\<And>i d. element_widens dt (block w bytes i) d \<Longrightarrow> i < length bytes div w \<Longrightarrow> carries_no_nan dt bytes \<Longrightarrow>
      conv64 d = Inr (le_word (block w bytes i))"
  shows "no_typed_field c \<longrightarrow> carries_no_nan dt bytes \<longrightarrow> datatypeByteWidth dt dvd length bytes \<longrightarrow>
    widened dt bytes (fp64_contents c) \<longrightarrow> contentsToBytes c dt = Inr bytes"
proof (intro impI)
  assume g: "no_typed_field c" and n: "carries_no_nan dt bytes"
    and dvd: "datatypeByteWidth dt dvd length bytes" and wd: "widened dt bytes (fp64_contents c)"
  have "list_all2 (\<lambda>i d. conv64 d = Inr (le_word (block w bytes i))) [0..<length bytes div w] (fp64_contents c)"
    using wd assms(6) n by (simp add: widened_def assms(3) Let_def list_all2_conv_all_nth)
  then show "contentsToBytes c dt = Inr bytes"
    unfolding assms(4) assms(5) [OF g] using dvd assms(1,2,3) by (intro fallback_bytes) simp_all
qed

lemma fallback_inverts:
  assumes "grpc_datatype dt"
  shows "dt \<noteq> ''BOOL'' \<and> dt \<noteq> ''FP64'' \<longrightarrow> no_typed_field c \<longrightarrow> carries_no_nan dt bytes \<longrightarrow>
    datatypeByteWidth dt dvd length bytes \<longrightarrow> widened dt bytes (fp64_contents c) \<longrightarrow> contentsToBytes c dt = Inr bytes"
proof -
  note dispatch =
    fallback_dispatch [OF codec_laws(3) len_simps(3) width_cases(1) read_cases(1)]
    fallback_dispatch [OF codec_laws(1) len_simps(1) width_cases(4) read_cases(3)]
    fallback_dispatch [OF codec_laws(2) len_simps(2) width_cases(5) read_cases(4)]
    fallback_dispatch [OF codec_laws(3) len_simps(3) width_cases(6) read_cases(5)]
    fallback_dispatch [OF codec_laws(4) len_simps(4) width_cases(7) read_cases(6)]
    fallback_dispatch [OF codec_laws(1) len_simps(1) width_cases(8) read_cases(7)]
    fallback_dispatch [OF codec_laws(2) len_simps(2) width_cases(10) read_cases(9)]
    fallback_dispatch [OF codec_laws(3) len_simps(3) width_cases(11) read_cases(10)]
    fallback_dispatch [OF codec_laws(4) len_simps(4) width_cases(12) read_cases(11)]
  have nan: "carries_no_nan ''FP32'' bytes \<Longrightarrow> i < length bytes div 4 \<Longrightarrow> \<not> float_is_nan (le_word (block 4 bytes i))" for i
    by (simp add: carries_no_nan_def)
  have exact: "dbl_widens (le_word (block 4 bytes i)) d \<Longrightarrow> carries_no_nan ''FP32'' bytes \<Longrightarrow> i < length bytes div 4 \<Longrightarrow>
      Inr (narrow_double d) = (Inr (le_word (block 4 bytes i)) :: 32 word result)" for i d
    by (simp add: narrow_exact nan)
  show ?thesis
    by (rule grpc_datatype_cases [OF assms]; rule impI;
        ((rule dispatch; ((simp add: no_typed_field_def; fail) | (simp only: element_cases, rule exact cast_exact; assumption)))
         | simp))
qed

lemma fill_ok: "is_ok (fillContents bytes (add :: 'a::len word \<Rightarrow> _) c) \<longleftrightarrow> LENGTH('a) div 8 dvd length bytes"
  by (simp add: fillContents_def Let_def dvd_eq_mod_eq_0)

lemma encodeInput_unsupported:
  "\<not> grpc_datatype dt \<Longrightarrow> encodeInput c bytes dt =
     Inl (Runtime_error (''unsupported KServe gRPC input datatype (use HTTP transport): '' @ dt))"
  unfolding grpc_datatype_iff insert_iff empty_iff de_Morgan_disj by (elim conjE) (simp only: encodeInput_def simp_thms if_False)

lemma encodeInput_ok:
  "is_ok (encodeInput c bytes dt) \<longleftrightarrow> grpc_datatype dt \<and> datatypeByteWidth dt dvd length bytes"
proof (cases "grpc_datatype dt")
  case True
  then have "is_ok (encodeInput c bytes dt) \<longleftrightarrow> datatypeByteWidth dt dvd length bytes"
    by (rule grpc_datatype_cases) (simp_all only: fill_cases fill_ok width_cases len_simps)
  then show ?thesis using True by simp
qed (simp add: encodeInput_unsupported)

lemma typed_inverts:
  assumes "encodeInput empty_contents bytes dt = Inr c" "dt \<noteq> ''BOOL''"
  shows "contentsToBytes c dt = Inr bytes"
proof -
  have ok: "grpc_datatype dt \<and> datatypeByteWidth dt dvd length bytes" using encodeInput_ok assms(1) by (metis is_ok_simps(2))
  then show ?thesis using typed_inverts_iff [of dt bytes] assms by simp
qed

section \<open>Properties\<close>

text \<open>
  C13: typed contents lose nothing, with one exception. Bytes put into the typed field of their datatype
  are read back as the same bytes, NaN payloads included; \<open>BOOL\<close> is written to
  \<open>uint_contents\<close> but read from \<open>bool_contents\<close>, so that what the client encodes as
  \<open>BOOL\<close> reads back as nothing.
\<close>

theorem typed_contents_roundtrip:
  assumes "encodeInput empty_contents bytes dt = Inr c"
  shows "contentsToBytes c dt = Inr (if dt = ''BOOL'' then [] else bytes)"
proof (cases "dt = ''BOOL''")
  case True
  have "fillContents bytes add empty_contents = Inr c \<Longrightarrow> (\<And>v c. bool_contents (add v c) = bool_contents c) \<Longrightarrow>
      bool_contents c = []" for add :: "8 word \<Rightarrow> InferTensorContents \<Rightarrow> InferTensorContents"
    using fold_keeps [where get = bool_contents and add = add and c = empty_contents]
    by (auto simp: fillContents_def Let_def empty_contents_def)
  then have "bool_contents c = []" using assms unfolding True fill_cases by (simp add: contents_fields)
  then show ?thesis unfolding True read_cases by (simp add: appendBytes_def)
next
  case False
  then show ?thesis using typed_inverts [OF assms] by simp
qed

text \<open>
  C26: the fallback for runtimes that widen every number into \<open>fp64_contents\<close> loses nothing
  either. If no typed field is set and the doubles are the exact values of the elements, the bytes of
  every numeric datatype come back, the conversions being defined: integers of all widths, floats
  with signed zeros, subnormals and infinities.
\<close>

theorem fp64_fallback_lossless:
  assumes "grpc_datatype dt" "dt \<noteq> ''BOOL''" "dt \<noteq> ''FP64''"
    and "no_typed_field c" "carries_no_nan dt bytes" "datatypeByteWidth dt dvd length bytes"
    and "widened dt bytes (fp64_contents c)"
  shows "contentsToBytes c dt = Inr bytes"
  using fallback_inverts [OF assms(1)] assms(2-) by blast

theorem typed_contents_roundtrip_witness:
  "\<exists>c. encodeInput empty_contents [1, 0, 255, 255] ''INT16'' = Inr c \<and> contentsToBytes c ''INT16'' = Inr [1, 0, 255, 255]"
proof -
  have "is_ok (encodeInput empty_contents [1, 0, 255, 255] ''INT16'')" by code_simp
  then obtain c where c: "encodeInput empty_contents [1, 0, 255, 255] ''INT16'' = Inr c"
    by (auto simp: is_ok_def split: sum.splits)
  with typed_contents_roundtrip [OF c] show ?thesis by simp
qed

theorem fp64_fallback_lossless_witness:
  "contentsToBytes (empty_contents\<lparr>fp64_contents := [0x3FF0000000000000, 0xC070000000000000]\<rparr>) ''INT16'' = Inr [1, 0, 0, 255]"
proof (rule fp64_fallback_lossless)
  let ?c = "empty_contents\<lparr>fp64_contents := [0x3FF0000000000000, 0xC070000000000000]\<rparr>"
  have b: "sint (le_word (block 2 [1, 0, 0, 255 :: byte] 0) :: 16 word) = 1"
    "sint (le_word (block 2 [1, 0, 0, 255 :: byte] 1) :: 16 word) = - 256" by code_simp+
  have d: "dbl_is 1 0x3FF0000000000000" "dbl_is (- 256) 0xC070000000000000"
    by (simp_all add: dbl_is_def dbl_mag_def dbl_mant_def dbl_scale_def dbl_exp_def dbl_frac_def dbl_neg_def)
  show "widened ''INT16'' [1, 0, 0, 255] (fp64_contents ?c)"
    unfolding widened_def element_cases using b d by (simp add: width_cases upt_rec)
  show "no_typed_field ?c"
    by (simp add: no_typed_field_def empty_contents_def)
qed (simp_all add: grpc_datatype_iff carries_no_nan_def datatypeByteWidth_def)
end
