(* ===== verification/Grpc_Wire.thy ===== *)
theory Grpc_Wire
  imports Grpc_Tensor
begin

text \<open>
  What the protocol says about typed contents, apart from the client: which field of
  \<open>InferTensorContents\<close> holds the elements of a datatype, which values are elements, and the
  little-endian bytes of a value. \<open>wire_bytes\<close> is how any receiver reads a tensor; it is written over
  integers, and neither \<open>encodeInput\<close> nor \<open>contentsToBytes\<close> occurs in it. The client is then compared
  with it in both directions.
\<close>

section \<open>The protocol's reading\<close>

definition little_endian :: "nat \<Rightarrow> int \<Rightarrow> byte list" where
  "little_endian n v = map (\<lambda>i. word_of_int (v div 2 ^ (8 * i))) [0..<n]"

text \<open>Elements of \<open>n\<close> bytes, with and without a sign; a value out of range is no element.\<close>

definition signed_elements :: "nat \<Rightarrow> int list \<Rightarrow> byte list option" where
  "signed_elements n vs =
     (if list_all (\<lambda>v. - (2 ^ (8 * n - 1)) \<le> v \<and> v < 2 ^ (8 * n - 1)) vs then Some (concat (map (little_endian n) vs)) else None)"

definition unsigned_elements :: "nat \<Rightarrow> int list \<Rightarrow> byte list option" where
  "unsigned_elements n vs =
     (if list_all (\<lambda>v. 0 \<le> v \<and> v < 2 ^ (8 * n)) vs then Some (concat (map (little_endian n) vs)) else None)"

text \<open>No field but the one of the datatype may be set; floating-point values are their bits.\<close>

definition wire_bytes :: "string \<Rightarrow> InferTensorContents \<Rightarrow> byte list option" where
  "wire_bytes dt c =
     (if dt = ''BOOL'' then
        if c = empty_contents\<lparr>bool_contents := bool_contents c\<rparr>
        then unsigned_elements 1 (map (\<lambda>b. if b then 1 else 0) (bool_contents c)) else None
      else if dt = ''INT8'' \<or> dt = ''INT16'' \<or> dt = ''INT32'' then
        if c = empty_contents\<lparr>int_contents := int_contents c\<rparr>
        then signed_elements (if dt = ''INT8'' then 1 else if dt = ''INT16'' then 2 else 4) (map sint (int_contents c)) else None
      else if dt = ''UINT8'' \<or> dt = ''UINT16'' \<or> dt = ''UINT32'' then
        if c = empty_contents\<lparr>uint_contents := uint_contents c\<rparr>
        then unsigned_elements (if dt = ''UINT8'' then 1 else if dt = ''UINT16'' then 2 else 4) (map uint (uint_contents c)) else None
      else if dt = ''INT64'' then
        if c = empty_contents\<lparr>int64_contents := int64_contents c\<rparr>
        then signed_elements 8 (map sint (int64_contents c)) else None
      else if dt = ''UINT64'' then
        if c = empty_contents\<lparr>uint64_contents := uint64_contents c\<rparr>
        then unsigned_elements 8 (map uint (uint64_contents c)) else None
      else if dt = ''FP32'' then
        if c = empty_contents\<lparr>fp32_contents := fp32_contents c\<rparr>
        then unsigned_elements 4 (map uint (fp32_contents c)) else None
      else if dt = ''FP64'' then
        if c = empty_contents\<lparr>fp64_contents := fp64_contents c\<rparr>
        then unsigned_elements 8 (map uint (fp64_contents c)) else None
      else None)"

section \<open>Bytes of words\<close>

lemma little_endian_bits:
  assumes "8 * n \<le> LENGTH('a)" "\<And>j. j < 8 * n \<Longrightarrow> bit v j = bit w j"
  shows "little_endian n v = le_bytes n (w :: 'a::len word)"
proof (rule nth_equalityI)
  fix k assume "k < length (little_endian n v)"
  then have k: "k < n" by (simp add: little_endian_def)
  show "little_endian n v ! k = le_bytes n w ! k"
  proof (rule bit_word_eqI)
    fix i assume "i < LENGTH(8)"
    then have i: "i < 8" by simp
    then have "8 * k + i < 8 * n" using k by simp
    then show "bit (little_endian n v ! k) i = bit (le_bytes n w ! k) i"
      using i k assms
      by (simp add: little_endian_def le_bytes_nth bit_word_of_int_iff bit_ucast_iff bit_drop_bit_eq
          drop_bit_eq_div [symmetric] add.commute)
  qed
qed (simp add: little_endian_def)

lemma little_endian_word:
  assumes "8 * n \<le> LENGTH('a)"
  shows "little_endian n (sint w) = le_bytes n (w :: 'a::len word)" "little_endian n (uint w) = le_bytes n w"
  using assms by (auto intro!: little_endian_bits simp: bit_sint_iff bit_uint_iff)

lemma le_bytes_ucast:
  assumes "8 * n \<le> LENGTH('b)" "8 * n \<le> LENGTH('a)"
  shows "le_bytes n (ucast (w :: 'a::len word) :: 'b::len word) = le_bytes n w"
proof -
  have "little_endian n (uint w) = le_bytes n (ucast w :: 'b word)"
    using assms by (intro little_endian_bits) (auto simp: bit_uint_iff bit_ucast_iff)
  then show ?thesis using little_endian_word(2) [OF assms(2), of w] by simp
qed

lemma elements_bytes:
  fixes ws :: "'a::len word list"
  assumes "8 * n \<le> LENGTH('a)"
  shows "signed_elements n (map sint ws) = Some bytes \<Longrightarrow> bytes = concat (map (le_bytes n) ws)"
    "unsigned_elements n (map uint ws) = Some bytes \<Longrightarrow> bytes = concat (map (le_bytes n) ws)"
  by (auto simp: signed_elements_def unsigned_elements_def little_endian_word [OF assms] comp_def split: if_splits)

section \<open>The client reads what the protocol says\<close>

lemma append_converted:
  fixes ws :: "'a::len word list" and u :: "'a word \<Rightarrow> 'b::len word"
  assumes "\<And>w. conv w = Inr (u w)" "LENGTH('b) div 8 = n" "\<And>w. le_bytes n (u w) = le_bytes n w"
  shows "appendBytes conv [] ws = Inr (concat (map (le_bytes n) ws))"
    "appendBytesOrFp64Fallback conv conv64 [] ws [] = Inr (concat (map (le_bytes n) ws))"
proof -
  have "mapR conv ws = Inr (map u ws)" using mapR_all_Inr [of ws conv u] assms(1) by simp
  then show a: "appendBytes conv [] ws = Inr (concat (map (le_bytes n) ws))"
    by (simp add: appendBytes_def assms(2,3) comp_def)
  show "appendBytesOrFp64Fallback conv conv64 [] ws [] = Inr (concat (map (le_bytes n) ws))"
    using a by (cases ws) (simp_all add: appendBytesOrFp64Fallback_def appendBytes_def)
qed

lemma append_bools:
  "unsigned_elements 1 (map (\<lambda>b. if b then 1 else 0) bs) = Some bytes \<Longrightarrow>
     appendBytes (\<lambda>v. Inr (if v then 1 else 0 :: 8 word)) [] bs = Inr bytes"
proof -
  assume u: "unsigned_elements 1 (map (\<lambda>b. if b then 1 else 0) bs) = Some bytes"
  have "little_endian 1 (if b then 1 else 0) = le_bytes 1 (if b then 1 else 0 :: 8 word)" for b
    by (cases b) (simp_all add: little_endian_def)
  then have "bytes = concat (map (le_bytes 1) (map (\<lambda>b. if b then 1 else 0 :: 8 word) bs))"
    using u by (auto simp: unsigned_elements_def comp_def split: if_splits)
  moreover have "mapR (\<lambda>v. Inr (if v then 1 else 0 :: 8 word)) bs = (Inr (map (\<lambda>b. if b then 1 else 0) bs) :: (8 word list) result)"
    by (rule mapR_all_Inr) simp
  ultimately show ?thesis by (simp add: appendBytes_def)
qed

lemma only_field:
  "c = empty_contents\<lparr>int_contents := xs\<rparr> \<Longrightarrow> fp64_contents c = []"
  "c = empty_contents\<lparr>uint_contents := xs\<rparr> \<Longrightarrow> fp64_contents c = []"
  "c = empty_contents\<lparr>int64_contents := ys\<rparr> \<Longrightarrow> fp64_contents c = []"
  "c = empty_contents\<lparr>uint64_contents := ys\<rparr> \<Longrightarrow> fp64_contents c = []"
  "c = empty_contents\<lparr>fp32_contents := xs\<rparr> \<Longrightarrow> fp64_contents c = []"
  by (simp_all add: empty_contents_def)

lemma wire_read:
  assumes "wire_bytes dt c = Some bytes"
  shows "contentsToBytes c dt = Inr bytes"
proof -
  have le: "8 * 1 \<le> LENGTH(32)" "8 * 2 \<le> LENGTH(32)" "8 * 4 \<le> LENGTH(32)" "8 * 8 \<le> LENGTH(64)" by simp_all
  have cast: "le_bytes 1 (ucast w :: 8 word) = le_bytes 1 w" "le_bytes 2 (ucast w :: 16 word) = le_bytes 2 w"
    for w :: "32 word" by (rule le_bytes_ucast; simp)+
  note e = elements_bytes [OF le(1)] elements_bytes [OF le(2)] elements_bytes [OF le(3)] elements_bytes [OF le(4)]
    and f = only_field
  have "grpc_datatype dt" using assms by (auto simp: wire_bytes_def grpc_datatype_iff split: if_splits)
  then have "wire_bytes dt c = Some bytes \<longrightarrow> contentsToBytes c dt = Inr bytes"
    by (rule grpc_datatype_cases; intro impI)
      (auto simp: wire_bytes_def read_cases append_bools append_converted cast cast [unfolded One_nat_def] dest!: e e [unfolded One_nat_def] dest: f split: if_splits)
  then show ?thesis using assms by simp
qed

section \<open>The client writes what the protocol says\<close>

lemma filled_fields:
  "fold (\<lambda>i. add_int_contents (f i)) is c = c\<lparr>int_contents := int_contents c @ map f is\<rparr>"
  "fold (\<lambda>i. add_uint_contents (f i)) is c = c\<lparr>uint_contents := uint_contents c @ map f is\<rparr>"
  "fold (\<lambda>i. add_int64_contents (g i)) is c = c\<lparr>int64_contents := int64_contents c @ map g is\<rparr>"
  "fold (\<lambda>i. add_uint64_contents (g i)) is c = c\<lparr>uint64_contents := uint64_contents c @ map g is\<rparr>"
  "fold (\<lambda>i. add_fp32_contents (f i)) is c = c\<lparr>fp32_contents := fp32_contents c @ map f is\<rparr>"
  "fold (\<lambda>i. add_fp64_contents (g i)) is c = c\<lparr>fp64_contents := fp64_contents c @ map g is\<rparr>"
  by (induction "is" arbitrary: c) (simp_all add: contents_fields)

lemma signed_ranges:
  "- (2 ^ 7) \<le> sint (v :: 8 word) \<and> sint v < 2 ^ 7" "- (2 ^ 15) \<le> sint (w :: 16 word) \<and> sint w < 2 ^ 15"
  "- (2 ^ 31) \<le> sint (x :: 32 word) \<and> sint x < 2 ^ 31" "- (2 ^ 63) \<le> sint (y :: 64 word) \<and> sint y < 2 ^ 63"
  using sint_range_size [of v] sint_range_size [of w] sint_range_size [of x] sint_range_size [of y]
  by (simp_all add: word_size)

lemma unsigned_ranges:
  "uint (v :: 8 word) < 2 ^ 8" "uint (w :: 16 word) < 2 ^ 16" "uint (x :: 32 word) < 2 ^ 32" "uint (y :: 64 word) < 2 ^ 64"
  using uint_lt2p [of v] uint_lt2p [of w] uint_lt2p [of x] uint_lt2p [of y] by simp_all

lemma widened_values:
  "sint (scast (v :: 8 word) :: 32 word) = sint v" "sint (scast (w :: 16 word) :: 32 word) = sint w"
  "uint (ucast (v :: 8 word) :: 32 word) = uint v" "uint (ucast (w :: 16 word) :: 32 word) = uint w"
  by (simp_all add: sint_up_scast uint_up_ucast is_up)

lemma elements_some:
  "(\<And>x. - (2 ^ (8 * n - 1)) \<le> f x \<and> f x < 2 ^ (8 * n - 1)) \<Longrightarrow> \<exists>b. signed_elements n (map f xs) = Some b"
  "(\<And>x. 0 \<le> f x \<and> f x < 2 ^ (8 * n)) \<Longrightarrow> \<exists>b. unsigned_elements n (map f xs) = Some b"
  by (simp_all add: signed_elements_def unsigned_elements_def list_all_iff)

text \<open>What a field holds after the loop that fills it.\<close>

lemma filled:
  assumes "fillContents bytes add empty_contents = Inr c" "\<And>f (is :: nat list). fold (\<lambda>i. add (f i)) is empty_contents = g (map (\<lambda>i. p (f i)) is)"
  shows "\<exists>vs :: 'a::len word list. c = g (map p vs)"
proof -
  let ?f = "\<lambda>i. le_word (block (LENGTH('a) div 8) bytes i) :: 'a word" and ?is = "[0..<length bytes div (LENGTH('a) div 8)]"
  have "c = fold (\<lambda>i. add (?f i)) ?is empty_contents"
    using assms(1) by (simp add: fillContents_def Let_def split: if_splits)
  then have "c = g (map p (map ?f ?is))" using assms(2) [of ?f ?is] by (simp add: comp_def)
  then show ?thesis by blast
qed

lemma written:
  assumes "fillContents bytes (\<lambda>v :: 'a::len word. add_int_contents (p v)) empty_contents = Inr c"
  shows "c = empty_contents\<lparr>int_contents := int_contents c\<rparr> \<and> (\<exists>vs. int_contents c = map p vs)"
proof -
  have "\<exists>vs. c = empty_contents\<lparr>int_contents := map p vs\<rparr>"
    by (rule filled [OF assms]) (simp add: filled_fields, simp add: empty_contents_def)
  then obtain vs where "c = empty_contents\<lparr>int_contents := map p vs\<rparr>" ..
  then show ?thesis by (simp add: empty_contents_def) blast
qed

lemma written_uint:
  assumes "fillContents bytes (\<lambda>v :: 'a::len word. add_uint_contents (p v)) empty_contents = Inr c"
  shows "c = empty_contents\<lparr>uint_contents := uint_contents c\<rparr> \<and> (\<exists>vs. uint_contents c = map p vs)"
proof -
  have "\<exists>vs. c = empty_contents\<lparr>uint_contents := map p vs\<rparr>"
    by (rule filled [OF assms]) (simp add: filled_fields, simp add: empty_contents_def)
  then obtain vs where "c = empty_contents\<lparr>uint_contents := map p vs\<rparr>" ..
  then show ?thesis by (simp add: empty_contents_def) blast
qed

lemma written_other:
  "fillContents bytes add_int64_contents empty_contents = Inr c \<Longrightarrow> c = empty_contents\<lparr>int64_contents := int64_contents c\<rparr>"
  "fillContents bytes add_uint64_contents empty_contents = Inr c \<Longrightarrow> c = empty_contents\<lparr>uint64_contents := uint64_contents c\<rparr>"
  "fillContents bytes add_fp32_contents empty_contents = Inr c \<Longrightarrow> c = empty_contents\<lparr>fp32_contents := fp32_contents c\<rparr>"
  "fillContents bytes add_fp64_contents empty_contents = Inr c \<Longrightarrow> c = empty_contents\<lparr>fp64_contents := fp64_contents c\<rparr>"
  by (auto simp: fillContents_def Let_def filled_fields empty_contents_def split: if_splits)

lemma wire_written:
  assumes "encodeInput empty_contents bytes dt = Inr c" "dt \<noteq> ''BOOL''"
  shows "wire_bytes dt c = Some bytes"
proof -
  have i: "\<exists>b. signed_elements 1 (map sint (map scast vs :: 32 word list)) = Some b"
    "\<exists>b. signed_elements 2 (map sint (map scast ws :: 32 word list)) = Some b"
    "\<exists>b. signed_elements 4 (map sint xs) = Some b" "\<exists>b. signed_elements 8 (map sint ys) = Some b"
    "\<exists>b. unsigned_elements 1 (map uint (map ucast vs :: 32 word list)) = Some b"
    "\<exists>b. unsigned_elements 2 (map uint (map ucast ws :: 32 word list)) = Some b"
    "\<exists>b. unsigned_elements 4 (map uint xs) = Some b" "\<exists>b. unsigned_elements 8 (map uint ys) = Some b"
    for vs :: "8 word list" and ws :: "16 word list" and xs :: "32 word list" and ys :: "64 word list"
    unfolding map_map
    by (rule elements_some; simp add: widened_values signed_ranges [simplified] unsigned_ranges [simplified])+
  have "grpc_datatype dt" using encodeInput_ok assms(1) by (metis is_ok_simps(2))
  then have "encodeInput empty_contents bytes dt = Inr c \<longrightarrow> dt \<noteq> ''BOOL'' \<longrightarrow> (\<exists>b. wire_bytes dt c = Some b)"
  proof (rule grpc_datatype_cases; intro impI; unfold fill_cases)
    assume "fillContents bytes (\<lambda>v :: 8 word. add_int_contents (scast v)) empty_contents = Inr c"
    from written [OF this] show "\<exists>b. wire_bytes ''INT8'' c = Some b" using i(1) by (auto simp: wire_bytes_def)
  next
    assume "fillContents bytes (\<lambda>v :: 16 word. add_int_contents (scast v)) empty_contents = Inr c"
    from written [OF this] show "\<exists>b. wire_bytes ''INT16'' c = Some b" using i(2) by (auto simp: wire_bytes_def)
  next
    assume "fillContents bytes (\<lambda>v :: 8 word. add_uint_contents (ucast v)) empty_contents = Inr c"
    from written_uint [OF this] show "\<exists>b. wire_bytes ''UINT8'' c = Some b" using i(5) by (auto simp: wire_bytes_def)
  next
    assume "fillContents bytes (\<lambda>v :: 16 word. add_uint_contents (ucast v)) empty_contents = Inr c"
    from written_uint [OF this] show "\<exists>b. wire_bytes ''UINT16'' c = Some b" using i(6) by (auto simp: wire_bytes_def)
  next
    assume "fillContents bytes add_int_contents empty_contents = Inr c"
    from written [where p = "\<lambda>v. v", OF this] show "\<exists>b. wire_bytes ''INT32'' c = Some b" using i(3) by (simp add: wire_bytes_def)
  next
    assume "fillContents bytes add_uint_contents empty_contents = Inr c"
    from written_uint [where p = "\<lambda>v. v", OF this] show "\<exists>b. wire_bytes ''UINT32'' c = Some b" using i(7) by (simp add: wire_bytes_def)
  qed (use i(4,7,8) in \<open>simp_all add: wire_bytes_def written_other [symmetric]\<close>)
  then obtain b where b: "wire_bytes dt c = Some b" using assms by blast
  then show ?thesis using wire_read [OF b] typed_inverts [OF assms] by simp
qed

text \<open>Typed \<open>BOOL\<close>, which the client writes into the field of the unsigned integers, is not a tensor of the protocol.\<close>

lemma wire_bool_refused:
  assumes "encodeInput empty_contents bytes ''BOOL'' = Inr c" "bytes \<noteq> []"
  shows "wire_bytes ''BOOL'' c = None"
  using assms by (auto simp: fill_cases fillContents_def Let_def filled_fields wire_bytes_def empty_contents_def split: if_splits)

end
