(* ===== verification/Grpc_Client.thy ===== *)
theory Grpc_Client
  imports Grpc_Wire Client_Interface Endpoint
begin

text \<open>
  The gRPC client of \<open>src/KserveGrpcClient.cpp\<close>. The messages are those of
  \<open>proto/kserve_grpc.proto\<close>, without the fields the client neither sets nor reads. The gRPC
  library and the server are the record \<open>grpc_net\<close>: what a unary call returns is an arbitrary
  function of the calls made so far, the channel, the context and the request; that a call returns is
  what the library promises for a call with a deadline. The state is the history of calls, newest first;
  no operation changes a member of the client.
\<close>

section \<open>Messages\<close>

record InferInputTensor =
  it_name :: string
  it_datatype :: string
  it_shape :: "64 word list"
  it_contents :: "InferTensorContents option"

record ModelInferRequest =
  rq_model_name :: string
  rq_model_version :: string
  rq_id :: string
  rq_inputs :: "InferInputTensor list"
  rq_raw_input_contents :: "string list"

record InferOutputTensor =
  ot_name :: string
  ot_datatype :: string
  ot_shape :: "64 word list"
  ot_contents :: "InferTensorContents option"

record ModelInferResponse =
  rs_outputs :: "InferOutputTensor list"
  rs_raw_output_contents :: "string list"

record TensorMetadata =
  tm_name :: string
  tm_datatype :: string
  tm_shape :: "64 word list"

record ModelMetadataResponse =
  md_platform :: string
  md_inputs :: "TensorMetadata list"
  md_outputs :: "TensorMetadata list"

record ModelIndex =
  mx_name :: string
  mx_version :: string
  mx_state :: string
  mx_reason :: string

datatype grpc_request =
    ServerLiveRequest
  | ServerReadyRequest
  | ModelReadyRequest string string
  | ModelMetadataRequest string string
  | InferRequest ModelInferRequest
  | RepositoryIndexRequest
  | RepositoryModelLoadRequest string
  | RepositoryModelUnloadRequest string

text \<open>A sub-message that was not sent reads as the default instance.\<close>

definition output_contents :: "InferOutputTensor \<Rightarrow> InferTensorContents" where
  "output_contents output = (case ot_contents output of None \<Rightarrow> empty_contents | Some c \<Rightarrow> c)"

section \<open>The library\<close>

record Status =
  st_code :: int
  st_message :: string

definition status_ok :: "Status \<Rightarrow> bool" where
  "status_ok s = (st_code s = 0)"

record ClientContext =
  cc_deadline_ms :: "int option"
  cc_metadata :: "(string \<times> string) list"

definition new_context :: ClientContext where
  "new_context = \<lparr>cc_deadline_ms = None, cc_metadata = []\<rparr>"

text \<open>\<open>SslCredentials\<close> with the root certificates, the client's chain and its private key.\<close>

datatype Credentials = InsecureCredentials | SslCredentials string string string

record Channel =
  ch_target :: string
  ch_credentials :: Credentials

datatype grpc_event =
    GCall Channel ClientContext grpc_request int
  | GSleep int
  | GRandom double

type_synonym grpc_history = "grpc_event list"

type_synonym 'r stub = "grpc_history \<Rightarrow> Channel \<Rightarrow> ClientContext \<Rightarrow> grpc_request \<Rightarrow> Status \<times> 'r"

text \<open>\<open>gn_repository\<close> is the macro \<open>KSERVE_CLIENT_PROTO_REPOSITORY\<close>.\<close>

record grpc_net =
  gn_env :: env
  gn_files :: files
  gn_repository :: bool
  gn_random :: "grpc_history \<Rightarrow> double"
  gn_ServerLive :: "bool stub"
  gn_ServerReady :: "bool stub"
  gn_ModelReady :: "bool stub"
  gn_ModelMetadata :: "ModelMetadataResponse stub"
  gn_ModelInfer :: "ModelInferResponse stub"
  gn_RepositoryIndex :: "ModelIndex list stub"
  gn_RepositoryModelLoad :: "unit stub"
  gn_RepositoryModelUnload :: "unit stub"

section \<open>The client\<close>

text \<open>\<open>GrpcClient::Impl\<close>; its stub is the functions of \<open>grpc_net\<close> on the channel.\<close>

record GrpcImpl =
  im_channel :: Channel
  im_retry_policy :: RetryPolicy

record GrpcClient =
  gc_model_name :: string
  gc_model_version :: string
  gc_timeout_ms :: int
  gc_auth_token :: string
  gc_impl :: GrpcImpl

abbreviation gc_channel :: "GrpcClient \<Rightarrow> Channel" where
  "gc_channel cl \<equiv> im_channel (gc_impl cl)"

abbreviation gc_retry_policy :: "GrpcClient \<Rightarrow> RetryPolicy" where
  "gc_retry_policy cl \<equiv> im_retry_policy (gc_impl cl)"

definition grpc_envToken :: "grpc_net \<Rightarrow> string result" where
  "grpc_envToken net =
     readSecretFromEnvOrFile (gn_env net) (gn_files net) ''KSERVE_BEARER_TOKEN'' ''KSERVE_BEARER_TOKEN_FILE''"

definition makeChannelCredentials :: "grpc_net \<Rightarrow> bool \<Rightarrow> Credentials result" where
  "makeChannelCredentials net tls =
     (if \<not> tls then Inr InsecureCredentials
      else
        bindR (readFileFromEnvPath (gn_env net) (gn_files net) ''KSERVE_CA_CERT'') (\<lambda>pem_root_certs.
        bindR (readFileFromEnvPath (gn_env net) (gn_files net) ''KSERVE_CLIENT_CERT'') (\<lambda>pem_cert_chain.
        bindR (readFileFromEnvPath (gn_env net) (gn_files net) ''KSERVE_CLIENT_KEY'') (\<lambda>pem_private_key.
        bindR (requireClientCertPair pem_cert_chain pem_private_key) (\<lambda>_.
          Inr (SslCredentials pem_root_certs pem_cert_chain pem_private_key))))))"

definition rawContentsEnabled :: "grpc_net \<Rightarrow> bool" where
  "rawContentsEnabled net =
     (case gn_env net ''KSERVE_BINARY'' of
        None \<Rightarrow> True
      | Some raw \<Rightarrow>
          let value = to_lower raw
          in \<not> (value = ''0'' \<or> value = ''false'' \<or> value = ''off'' \<or> value = ''no''))"

definition prepareContext :: "ClientContext \<Rightarrow> int \<Rightarrow> string \<Rightarrow> ClientContext" where
  "prepareContext context timeout_ms auth_token =
     (let context = context\<lparr>cc_deadline_ms := Some timeout_ms\<rparr>
      in if auth_token \<noteq> [] then
           context\<lparr>cc_metadata := cc_metadata context @ [(''authorization'', ''Bearer '' @ auth_token)]\<rparr>
         else context)"

definition throwStatus :: "string \<Rightarrow> Status \<Rightarrow> ('w, 'a) prog" where
  "throwStatus what status =
     throw (Runtime_error (what @ '': '' @ string_of_int (st_code status) @ '' '' @ st_message status))"

definition grpc_sleep :: "int \<Rightarrow> grpc_history \<Rightarrow> grpc_history" where
  "grpc_sleep ms h = (if 0 < ms then GSleep ms # h else h)"

definition grpc_jitter :: "grpc_net \<Rightarrow> grpc_history \<Rightarrow> double \<times> grpc_history" where
  "grpc_jitter net h = (let u = gn_random net h in (u, GRandom u # h))"

definition retryGrpc ::
    "grpc_net \<Rightarrow> RetryPolicy \<Rightarrow> (grpc_history, Status \<times> 'r) prog \<Rightarrow> (grpc_history, Status \<times> 'r) prog" where
  "retryGrpc net policy call =
     runWithRetry policy call (\<lambda>(s, _). \<not> status_ok s \<and> isRetryableGrpcStatus (st_code s)) grpc_sleep (grpc_jitter net)"

text \<open>One attempt: a fresh context and a cleared response, which the stub fills.\<close>

definition unary_call :: "GrpcClient \<Rightarrow> 'r stub \<Rightarrow> grpc_request \<Rightarrow> (grpc_history, Status \<times> 'r) prog" where
  "unary_call cl stub request h =
     (let context = prepareContext new_context (gc_timeout_ms cl) (gc_auth_token cl);
          r = stub h (gc_channel cl) context request
      in ret r (GCall (gc_channel cl) context request (st_code (fst r)) # h))"

text \<open>The call with its retries and the check of the final status, as every operation makes it.\<close>

definition rpc :: "grpc_net \<Rightarrow> GrpcClient \<Rightarrow> 'r stub \<Rightarrow> grpc_request \<Rightarrow> string \<Rightarrow> (grpc_history, 'r) prog" where
  "rpc net cl stub request what =
     bindP (retryGrpc net (gc_retry_policy cl) (unary_call cl stub request)) (\<lambda>(status, response).
       if \<not> status_ok status then throwStatus what status else ret response)"

definition toShape :: "64 word list \<Rightarrow> 64 word list" where
  "toShape dims = map (\<lambda>dim. ucast dim) dims"

definition new_GrpcClient :: "grpc_net \<Rightarrow> string \<Rightarrow> string \<Rightarrow> string \<Rightarrow> int \<Rightarrow> GrpcClient result" where
  "new_GrpcClient net endpoint model_name model_version timeout_ms =
     bindR (grpc_envToken net) (\<lambda>auth_token.
     bindR (retryPolicyFromEnv (gn_env net)) (\<lambda>retry_policy.
     bindR (parseEndpoint endpoint 8001) (\<lambda>ep.
     let target = ep_host ep @ '':'' @ string_of_int (ep_port ep)
     in bindR (makeChannelCredentials net (ep_tls ep)) (\<lambda>credentials.
          Inr \<lparr>gc_model_name = model_name, gc_model_version = model_version, gc_timeout_ms = timeout_ms,
               gc_auth_token = auth_token,
               gc_impl = \<lparr>im_channel = \<lparr>ch_target = target, ch_credentials = credentials\<rparr>,
                          im_retry_policy = retry_policy\<rparr>\<rparr>))))"

definition or_fp32 :: "string \<Rightarrow> string" where
  "or_fp32 datatype = (if datatype = [] then ''FP32'' else datatype)"

definition tensor_spec :: "TensorMetadata \<Rightarrow> TensorSpec" where
  "tensor_spec t = \<lparr>ts_name = tm_name t, ts_datatype = or_fp32 (tm_datatype t), ts_shape = toShape (tm_shape t)\<rparr>"

definition grpc_modelMetadata :: "grpc_net \<Rightarrow> GrpcClient \<Rightarrow> (grpc_history, ModelMetadata) prog" where
  "grpc_modelMetadata net cl =
     (let request = ModelMetadataRequest (gc_model_name cl) (if gc_model_version cl \<noteq> [] then gc_model_version cl else [])
      in bindP (rpc net cl (gn_ModelMetadata net) request ''KServe gRPC metadata fetch failed'') (\<lambda>response.
         ret \<lparr>mm_inputs = map tensor_spec (md_inputs response), mm_outputs = map tensor_spec (md_outputs response),
              mm_platform = md_platform response\<rparr>))"

text \<open>The loop over the inputs.\<close>

fun add_inputs :: "bool \<Rightarrow> InferInput list \<Rightarrow> ModelInferRequest \<Rightarrow> ModelInferRequest result" where
  "add_inputs raw_contents [] request = Inr request"
| "add_inputs raw_contents (input # inputs) request =
     (case ii_data input of
        None \<Rightarrow> Inl (Runtime_error (''KServe input '' @ [CHR 0x27] @ ii_name input @ [CHR 0x27] @ '' has no data''))
      | Some data \<Rightarrow>
          let node = \<lparr>it_name = ii_name input, it_datatype = ii_datatype input, it_shape = ii_shape input,
                      it_contents = None\<rparr>
          in if raw_contents then
               add_inputs raw_contents inputs
                 (request\<lparr>rq_inputs := rq_inputs request @ [node],
                          rq_raw_input_contents := rq_raw_input_contents request @ [map char_of_byte data]\<rparr>)
             else
               bindR (encodeInput empty_contents data (ii_datatype input)) (\<lambda>contents.
                 add_inputs raw_contents inputs
                   (request\<lparr>rq_inputs := rq_inputs request @ [node\<lparr>it_contents := Some contents\<rparr>]\<rparr>)))"

text \<open>One output of the response; \<open>raws\<close> is \<open>raw_output_contents\<close>.\<close>

definition read_output :: "string list \<Rightarrow> nat \<Rightarrow> InferOutputTensor \<Rightarrow> InferOutput result" where
  "read_output raws i output =
     (let has_raw = 0 < length raws;
          datatype = or_fp32 (ot_datatype output)
      in bindR (if has_raw \<and> i < length raws then Inr (map byte_of_char (raws ! i))
                else contentsToBytes (output_contents output) datatype)
           (\<lambda>data. Inr \<lparr>io_name = ot_name output, io_datatype = datatype, io_shape = toShape (ot_shape output),
                        io_data = data\<rparr>))"

definition read_infer_response :: "ModelInferResponse \<Rightarrow> InferOutput list result" where
  "read_infer_response response =
     mapR (\<lambda>i. read_output (rs_raw_output_contents response) i (rs_outputs response ! i))
       [0..<length (rs_outputs response)]"

definition grpc_infer :: "grpc_net \<Rightarrow> GrpcClient \<Rightarrow> InferInput list \<Rightarrow> (grpc_history, InferOutput list) prog" where
  "grpc_infer net cl inputs =
     bindP (of_result (add_inputs (rawContentsEnabled net) inputs
              \<lparr>rq_model_name = gc_model_name cl, rq_model_version = gc_model_version cl, rq_id = ''kserve-grpc-client'',
               rq_inputs = [], rq_raw_input_contents = []\<rparr>))
       (\<lambda>request.
     bindP (rpc net cl (gn_ModelInfer net) (InferRequest request) ''KServe gRPC inference failed'')
       (\<lambda>response. of_result (read_infer_response response)))"

definition grpc_serverLive :: "grpc_net \<Rightarrow> GrpcClient \<Rightarrow> (grpc_history, bool) prog" where
  "grpc_serverLive net cl = rpc net cl (gn_ServerLive net) ServerLiveRequest ''KServe gRPC ServerLive failed''"

definition grpc_serverReady :: "grpc_net \<Rightarrow> GrpcClient \<Rightarrow> (grpc_history, bool) prog" where
  "grpc_serverReady net cl = rpc net cl (gn_ServerReady net) ServerReadyRequest ''KServe gRPC ServerReady failed''"

definition grpc_modelReady :: "grpc_net \<Rightarrow> GrpcClient \<Rightarrow> (grpc_history, bool) prog" where
  "grpc_modelReady net cl =
     (let request = ModelReadyRequest (gc_model_name cl) (if gc_model_version cl \<noteq> [] then gc_model_version cl else [])
      in rpc net cl (gn_ModelReady net) request ''KServe gRPC ModelReady failed'')"

text \<open>The repository operations, which a build without the profile replaces by an exception.\<close>

definition not_compiled_in :: "('w, 'a) prog" where
  "not_compiled_in = throw (Runtime_error ''model repository gRPC not compiled in (use OIP_REPOSITORY proto profile)'')"

definition repository_model :: "ModelIndex \<Rightarrow> RepositoryModel" where
  "repository_model model =
     \<lparr>rm_name = mx_name model, rm_version = mx_version model, rm_state = mx_state model, rm_reason = mx_reason model\<rparr>"

definition grpc_repositoryIndex :: "grpc_net \<Rightarrow> GrpcClient \<Rightarrow> (grpc_history, RepositoryModel list) prog" where
  "grpc_repositoryIndex net cl =
     (if gn_repository net then
        bindP (rpc net cl (gn_RepositoryIndex net) RepositoryIndexRequest ''KServe gRPC RepositoryIndex failed'')
          (\<lambda>models. ret (map repository_model models))
      else not_compiled_in)"

definition grpc_loadModel :: "grpc_net \<Rightarrow> GrpcClient \<Rightarrow> string \<Rightarrow> (grpc_history, unit) prog" where
  "grpc_loadModel net cl model_name =
     (if gn_repository net then
        rpc net cl (gn_RepositoryModelLoad net) (RepositoryModelLoadRequest model_name)
          ''KServe gRPC RepositoryModelLoad failed''
      else not_compiled_in)"

definition grpc_unloadModel :: "grpc_net \<Rightarrow> GrpcClient \<Rightarrow> string \<Rightarrow> (grpc_history, unit) prog" where
  "grpc_unloadModel net cl model_name =
     (if gn_repository net then
        rpc net cl (gn_RepositoryModelUnload net) (RepositoryModelUnloadRequest model_name)
          ''KServe gRPC RepositoryModelUnload failed''
      else not_compiled_in)"

definition grpc_iclient :: "grpc_net \<Rightarrow> GrpcClient \<Rightarrow> grpc_history IClient" where
  "grpc_iclient net cl =
     \<lparr>ic_modelMetadata = grpc_modelMetadata net cl, ic_infer = grpc_infer net cl,
      ic_serverLive = grpc_serverLive net cl, ic_serverReady = grpc_serverReady net cl,
      ic_modelReady = grpc_modelReady net cl, ic_repositoryIndex = grpc_repositoryIndex net cl,
      ic_loadModel = grpc_loadModel net cl, ic_unloadModel = grpc_unloadModel net cl\<rparr>"

section \<open>Every call returns\<close>

fun is_call :: "grpc_event \<Rightarrow> bool" where
  "is_call (GCall ch context request code) = True"
| "is_call _ = False"

definition calls :: "grpc_history \<Rightarrow> nat" where
  "calls h = length (filter is_call h)"

interpretation grpc_count: retry_counting calls "unary_call cl stub request" grpc_sleep "grpc_jitter net"
  for cl stub request net
  by unfold_locales (simp_all add: unary_call_def calls_def grpc_sleep_def grpc_jitter_def Let_def prog_basic)

text \<open>\<open>p\<close> returns from every state after at most \<open>n\<close> calls.\<close>

definition returns_within :: "nat \<Rightarrow> (grpc_history, 'a) prog \<Rightarrow> bool" where
  "returns_within n p \<longleftrightarrow> (\<forall>h. \<exists>r h'. p h = Some (r, h') \<and> calls h \<le> calls h' \<and> calls h' \<le> calls h + n)"

named_theorems returns_intros \<open>composition rules for programs that return within a number of calls\<close>

lemma returns_local:
  "returns_within n (ret x)" "returns_within n (throw e)" "returns_within n (of_result r)"
  "returns_within n (throwStatus what s)" "returns_within n not_compiled_in"
  by (simp_all add: returns_within_def prog_basic throwStatus_def not_compiled_in_def)

lemma returns_bind:
  assumes "returns_within m p" "\<And>x. returns_within n (f x)"
  shows "returns_within (m + n) (bindP p f)"
  unfolding returns_within_def
proof
  fix h
  obtain r h1 where p: "p h = Some (r, h1)" "calls h \<le> calls h1" "calls h1 \<le> calls h + m"
    using assms(1) unfolding returns_within_def by blast
  show "\<exists>r h'. bindP p f h = Some (r, h') \<and> calls h \<le> calls h' \<and> calls h' \<le> calls h + (m + n)"
  proof (cases r)
    case (Inl e)
    then show ?thesis using p by (simp add: bindP_def)
  next
    case (Inr x)
    obtain r' h' where "f x h1 = Some (r', h')" "calls h1 \<le> calls h'" "calls h' \<le> calls h1 + n"
      using assms(2) unfolding returns_within_def by blast
    then show ?thesis using p Inr by (simp add: bindP_def)
  qed
qed

lemmas returns_after [returns_intros] = returns_bind [where n = 0, unfolded add_0_right]
lemmas returns_before = returns_bind [where m = 0, unfolded add_0_left]

definition max_calls :: "GrpcClient \<Rightarrow> nat" where
  "max_calls cl = nat (max 1 (rp_max_attempts (gc_retry_policy cl)))"

lemma retryGrpc_returns: "returns_within (max_calls cl) (retryGrpc net (gc_retry_policy cl) (unary_call cl stub request))"
  unfolding returns_within_def retryGrpc_def max_calls_def
proof
  fix h
  let ?run = "runWithRetry (gc_retry_policy cl) (unary_call cl stub request)
    (\<lambda>(s, _). \<not> status_ok s \<and> isRetryableGrpcStatus (st_code s)) grpc_sleep (grpc_jitter net) h"
  obtain r h' where "?run = Some (r, h')" "calls h < calls h'"
    "calls h' \<le> calls h + nat (max 1 (rp_max_attempts (gc_retry_policy cl)))"
    using grpc_count.run_returns by blast
  then show "\<exists>r h'. ?run = Some (r, h') \<and> calls h \<le> calls h' \<and>
      calls h' \<le> calls h + nat (max 1 (rp_max_attempts (gc_retry_policy cl)))"
    by (intro exI conjI) simp_all
qed

lemma rpc_returns: "returns_within (max_calls cl) (rpc net cl stub request what)"
  unfolding rpc_def by (rule returns_after [OF retryGrpc_returns]) (auto simp: returns_local split: prod.split)

lemma returns_if: "returns_within n p \<Longrightarrow> returns_within n q \<Longrightarrow> returns_within n (if b then p else q)"
  by simp

lemma grpc_infer_returns: "returns_within (max_calls cl) (grpc_infer net cl inputs)"
  unfolding grpc_infer_def
  by (rule returns_before [OF returns_local(3)], rule returns_after [OF rpc_returns], rule returns_local)

lemma grpc_others_return:
  "returns_within (max_calls cl) (grpc_modelMetadata net cl)" "returns_within (max_calls cl) (grpc_serverLive net cl)"
  "returns_within (max_calls cl) (grpc_serverReady net cl)" "returns_within (max_calls cl) (grpc_modelReady net cl)"
  "returns_within (max_calls cl) (grpc_repositoryIndex net cl)" "returns_within (max_calls cl) (grpc_loadModel net cl name)"
  "returns_within (max_calls cl) (grpc_unloadModel net cl name)"
  unfolding grpc_modelMetadata_def grpc_serverLive_def grpc_serverReady_def grpc_modelReady_def
    grpc_repositoryIndex_def grpc_loadModel_def grpc_unloadModel_def Let_def
  by (intro returns_if returns_after [OF rpc_returns] rpc_returns returns_local)+

text \<open>
  C23: every operation of the gRPC client returns, with a value or an exception, after at most as many
  calls as the retry policy allows attempts, whatever the server answers and whatever policy, deadline
  and random source the client has.
\<close>

theorem grpc_returns:
  "returns_within (max_calls cl) (ic_modelMetadata (grpc_iclient net cl)) \<and>
   returns_within (max_calls cl) (ic_infer (grpc_iclient net cl) inputs) \<and>
   returns_within (max_calls cl) (ic_serverLive (grpc_iclient net cl)) \<and>
   returns_within (max_calls cl) (ic_serverReady (grpc_iclient net cl)) \<and>
   returns_within (max_calls cl) (ic_modelReady (grpc_iclient net cl)) \<and>
   returns_within (max_calls cl) (ic_repositoryIndex (grpc_iclient net cl)) \<and>
   returns_within (max_calls cl) (ic_loadModel (grpc_iclient net cl) name) \<and>
   returns_within (max_calls cl) (ic_unloadModel (grpc_iclient net cl) name)"
  by (simp add: grpc_iclient_def grpc_infer_returns grpc_others_return)

section \<open>Where the calls go\<close>

text \<open>A call of the client: to its own channel, with its own deadline and token.\<close>

definition client_context :: "GrpcClient \<Rightarrow> ClientContext" where
  "client_context cl =
     \<lparr>cc_deadline_ms = Some (gc_timeout_ms cl),
      cc_metadata = (if gc_auth_token cl = [] then [] else [(''authorization'', ''Bearer '' @ gc_auth_token cl)])\<rparr>"

fun own_event :: "GrpcClient \<Rightarrow> grpc_event \<Rightarrow> bool" where
  "own_event cl (GCall ch context request code) = (ch = gc_channel cl \<and> context = client_context cl)"
| "own_event cl (GSleep ms) = (0 < ms)"
| "own_event cl (GRandom u) = True"

definition own_history :: "GrpcClient \<Rightarrow> grpc_history \<Rightarrow> bool" where
  "own_history cl h = list_all (own_event cl) h"

lemma prepared_context: "prepareContext new_context (gc_timeout_ms cl) (gc_auth_token cl) = client_context cl"
  by (simp add: prepareContext_def new_context_def client_context_def Let_def)

interpretation grpc_own: retry_invariant "own_history cl" "unary_call cl stub request" grpc_sleep "grpc_jitter net"
  for cl stub request net
  by unfold_locales
    (auto simp: unary_call_def own_history_def grpc_sleep_def grpc_jitter_def Let_def prog_basic prepared_context)

lemma rpc_keeps [keeps_intros]: "keeps (own_history cl) (rpc net cl stub request what)"
proof -
  have "keeps (own_history cl) (retryGrpc net p (unary_call cl stub request))" for p
    unfolding retryGrpc_def by (rule keepsI) (rule grpc_own.run_keeps)
  moreover have "keeps (own_history cl) (throwStatus what s)" for what s
    unfolding throwStatus_def by (rule keeps_basic)
  ultimately show ?thesis unfolding rpc_def by (intro keeps_intros)
qed

lemma not_compiled_in_keeps [keeps_intros]: "keeps Inv not_compiled_in"
  unfolding not_compiled_in_def by (rule keeps_basic)

interpretation grpc_contract: iclient_contract "grpc_iclient net cl" "own_history cl" for net cl
  by unfold_locales
    (simp_all add: grpc_iclient_def grpc_modelMetadata_def grpc_infer_def grpc_serverLive_def grpc_serverReady_def
      grpc_modelReady_def grpc_repositoryIndex_def grpc_loadModel_def grpc_unloadModel_def Let_def keeps_intros)

text \<open>
  C10: the token and the deadline of a client are on every call it makes, and nowhere else. After any
  sequence of operations, each returning or throwing, every call in the history went to the channel
  the client was built with, under its deadline, with the bearer token exactly when there is one; and
  between the calls there are only waits of positive length and draws of the jitter.
\<close>

theorem grpc_calls_authorised:
  assumes "client_run (grpc_iclient net cl) [] h"
  shows "list_all (own_event cl) h"
  using grpc_contract.run_keeps [OF assms] by (simp add: own_history_def)

section \<open>The status of a call\<close>

definition transient :: "Status \<Rightarrow> bool" where
  "transient s = (st_code s = 4 \<or> st_code s = 8 \<or> st_code s = 14)"

lemma final_status:
  "is_final (\<lambda>(s, _). \<not> status_ok s \<and> isRetryableGrpcStatus (st_code s)) (Inr (s, x)) \<longleftrightarrow> \<not> transient s"
  by (auto simp: is_final_def status_ok_def isRetryableGrpcStatus_def transient_def)

lemma unary_call_result:
  "unary_call cl stub request h =
     (let r = stub h (gc_channel cl) (client_context cl) request
      in Some (Inr r, GCall (gc_channel cl) (client_context cl) request (st_code (fst r)) # h))"
  by (simp add: unary_call_def prepared_context Let_def prog_basic)

text \<open>
  What a call amounts to. The outcome is decided by the answer to the last attempt: its response if
  the status is OK, and otherwise an exception with the operation, the status code and the message of
  the server. When that status is a transient one (\<open>DEADLINE_EXCEEDED\<close>,
  \<open>RESOURCE_EXHAUSTED\<close>, \<open>UNAVAILABLE\<close>) the client has used every attempt it has.
\<close>

lemma rpc_status:
  assumes "valid_policy (gc_retry_policy cl)" "\<And>h. unit_double (gn_random net h)"
    and "rpc net cl stub request what h = Some (r, h')"
  shows "\<exists>h1 status response.
    stub h1 (gc_channel cl) (client_context cl) request = (status, response) \<and>
    h' = GCall (gc_channel cl) (client_context cl) request (st_code status) # h1 \<and>
    r = (if st_code status = 0 then Inr response
         else Inl (Runtime_error (what @ '': '' @ string_of_int (st_code status) @ '' '' @ st_message status))) \<and>
    (if transient status then calls h' = calls h + nat (rp_max_attempts (gc_retry_policy cl)) else True)"
  using assms(3) unfolding rpc_def
proof (rule bindP_cases)
  fix e assume "retryGrpc net (gc_retry_policy cl) (unary_call cl stub request) h = Some (Inl e, h')"
  then obtain v where "unary_call cl stub request v = Some (Inl e, h')"
    unfolding retryGrpc_def by (rule grpc_count.run_last [where net = net, rotated 2]) (simp_all add: assms(1,2) grpc_jitter_def Let_def)
  then show ?thesis by (simp add: unary_call_result Let_def)
next
  fix x h2
  assume "retryGrpc net (gc_retry_policy cl) (unary_call cl stub request) h = Some (Inr x, h2)"
    and k: "(case x of (status, response) \<Rightarrow> if \<not> status_ok status then throwStatus what status else ret response) h2 =
      Some (r, h')"
  obtain status response where x: "x = (status, response)" by (cases x)
  from \<open>retryGrpc net _ _ h = _\<close> obtain v where v: "unary_call cl stub request v = Some (Inr x, h2)"
    and n: "transient status \<longrightarrow> calls h2 = calls h + nat (rp_max_attempts (gc_retry_policy cl))"
    unfolding retryGrpc_def
    by (rule grpc_count.run_last [where net = net, rotated 2]) (simp_all add: assms(1,2) grpc_jitter_def Let_def x final_status)
  have "stub v (gc_channel cl) (client_context cl) request = (status, response)"
    "h2 = GCall (gc_channel cl) (client_context cl) request (st_code status) # v"
    using v by (auto simp: unary_call_result Let_def x)
  moreover have "h' = h2" "r = (if st_code status = 0 then Inr response
      else Inl (Runtime_error (what @ '': '' @ string_of_int (st_code status) @ '' '' @ st_message status)))"
    using k by (auto simp: x status_ok_def throwStatus_def prog_basic split: if_splits)
  ultimately show ?thesis using n by auto
qed

section \<open>What an inference sends\<close>

text \<open>An input the client can encode.\<close>

definition sendable :: "bool \<Rightarrow> InferInput \<Rightarrow> bool" where
  "sendable raw_contents x =
     (case ii_data x of
        None \<Rightarrow> False
      | Some bytes \<Rightarrow>
          raw_contents \<or> grpc_datatype (ii_datatype x) \<and> datatypeByteWidth (ii_datatype x) dvd length bytes)"

definition input_node :: "bool \<Rightarrow> InferInput \<Rightarrow> InferInputTensor" where
  "input_node raw_contents x =
     \<lparr>it_name = ii_name x, it_datatype = ii_datatype x, it_shape = ii_shape x,
      it_contents = (if raw_contents then None
                     else Some (case encodeInput empty_contents (the (ii_data x)) (ii_datatype x) of
                                  Inl e \<Rightarrow> empty_contents | Inr c \<Rightarrow> c))\<rparr>"

lemma add_inputs_sendable:
  "list_all (sendable raw) inputs \<Longrightarrow> add_inputs raw inputs request =
     Inr (request\<lparr>rq_inputs := rq_inputs request @ map (input_node raw) inputs,
                  rq_raw_input_contents := rq_raw_input_contents request @
                    (if raw then map (\<lambda>x. map char_of_byte (the (ii_data x))) inputs else [])\<rparr>)"
proof (induction inputs arbitrary: request)
  case (Cons x inputs)
  then obtain bytes where b: "ii_data x = Some bytes" by (auto simp: sendable_def split: option.splits)
  have "raw \<or> is_ok (encodeInput empty_contents bytes (ii_datatype x))"
    using Cons.prems b by (simp add: sendable_def encodeInput_ok)
  then consider "raw" | c where "\<not> raw" "encodeInput empty_contents bytes (ii_datatype x) = Inr c"
    by (cases "encodeInput empty_contents bytes (ii_datatype x)") auto
  then show ?case using Cons by cases (simp_all add: b input_node_def Let_def)
qed simp

lemma add_inputs_unsendable:
  "\<not> list_all (sendable raw) inputs \<Longrightarrow> \<exists>e. add_inputs raw inputs request = Inl e"
proof (induction inputs arbitrary: request)
  case (Cons x inputs)
  show ?case
  proof (cases "ii_data x")
    case (Some bytes)
    show ?thesis
    proof (cases "raw \<or> is_ok (encodeInput empty_contents bytes (ii_datatype x))")
      case True
      then have "sendable raw x" using Some by (simp add: sendable_def encodeInput_ok)
      then have "\<not> list_all (sendable raw) inputs" using Cons.prems by simp
      then show ?thesis using Cons.IH Some True
        by (cases "encodeInput empty_contents bytes (ii_datatype x)") (auto simp: Let_def)
    next
      case False
      then show ?thesis using Some by (cases "encodeInput empty_contents bytes (ii_datatype x)") (auto simp: Let_def)
    qed
  qed simp
qed simp

definition first_request :: "GrpcClient \<Rightarrow> ModelInferRequest" where
  "first_request cl =
     \<lparr>rq_model_name = gc_model_name cl, rq_model_version = gc_model_version cl, rq_id = ''kserve-grpc-client'',
      rq_inputs = [], rq_raw_input_contents = []\<rparr>"

lemma rpc_calls: "rpc net cl stub request what h = Some (r, h') \<Longrightarrow> calls h < calls h'"
proof -
  assume r: "rpc net cl stub request what h = Some (r, h')"
  obtain r1 h1 where "retryGrpc net (gc_retry_policy cl) (unary_call cl stub request) h = Some (r1, h1)" "calls h < calls h1"
    using grpc_count.run_returns unfolding retryGrpc_def by blast
  then show ?thesis using r
    by (auto simp: rpc_def bindP_def throwStatus_def prog_basic split: sum.splits prod.splits if_splits)
qed

lemma grpc_infer_request:
  "add_inputs (rawContentsEnabled net) inputs (first_request cl) = Inr request \<Longrightarrow>
   grpc_infer net cl inputs h =
     bindP (rpc net cl (gn_ModelInfer net) (InferRequest request) ''KServe gRPC inference failed'')
       (\<lambda>response. of_result (read_infer_response response)) h"
  by (simp add: grpc_infer_def first_request_def bindP_def prog_basic)

text \<open>
  C27: an inference reaches the network exactly when every input can be encoded: it has data and, unless
  raw contents are on, a supported datatype and whole elements. Otherwise \<open>infer\<close> throws with the
  history unchanged.
\<close>

theorem grpc_infer_rejects:
  "(\<exists>e. grpc_infer net cl inputs h = Some (Inl e, h)) \<longleftrightarrow> list_all (sendable (rawContentsEnabled net)) inputs = False"
proof (cases "list_all (sendable (rawContentsEnabled net)) inputs")
  case True
  then obtain request where "add_inputs (rawContentsEnabled net) inputs (first_request cl) = Inr request"
    using add_inputs_sendable by blast
  then have g: "grpc_infer net cl inputs h =
      bindP (rpc net cl (gn_ModelInfer net) (InferRequest request) ''KServe gRPC inference failed'')
        (\<lambda>response. of_result (read_infer_response response)) h" by (rule grpc_infer_request)
  have "grpc_infer net cl inputs h \<noteq> Some (Inl e, h)" for e
    using rpc_calls [of net cl "gn_ModelInfer net" "InferRequest request" _ h]
    unfolding g by (fastforce simp: bindP_def prog_basic split: option.splits sum.splits)
  then show ?thesis using True by simp
next
  case False
  then obtain e where "add_inputs (rawContentsEnabled net) inputs (first_request cl) = Inl e"
    using add_inputs_unsendable by blast
  then have "grpc_infer net cl inputs h = Some (Inl e, h)"
    by (simp add: grpc_infer_def first_request_def bindP_def prog_basic)
  then show ?thesis using False by blast
qed

text \<open>
  The tensors a server finds in a request, by the rules of the protocol: with raw contents there is one
  buffer per tensor and no tensor has contents of its own; otherwise each tensor has the typed field of
  its datatype (\<open>wire_bytes\<close>).
\<close>

definition input_of :: "InferInputTensor \<Rightarrow> byte list \<Rightarrow> InferInput" where
  "input_of t bytes =
     \<lparr>ii_name = it_name t, ii_datatype = it_datatype t, ii_shape = it_shape t, ii_data = Some bytes\<rparr>"

definition typed_input :: "InferInputTensor \<Rightarrow> InferInput option" where
  "typed_input t =
     Option.bind (it_contents t) (\<lambda>c. map_option (input_of t) (wire_bytes (it_datatype t) c))"

definition server_inputs :: "ModelInferRequest \<Rightarrow> InferInput list option" where
  "server_inputs request =
     (let ts = rq_inputs request; raws = rq_raw_input_contents request
      in if raws = [] then those (map typed_input ts)
         else if length raws = length ts \<and> list_all (\<lambda>t. it_contents t = None) ts
         then Some (map (\<lambda>(t, r). input_of t (map byte_of_char r)) (zip ts raws))
         else None)"

lemma those_some: "(\<And>x. x \<in> set xs \<Longrightarrow> f x = Some (g x)) \<Longrightarrow> those (map f xs) = Some (map g xs)"
  by (induction xs) simp_all

lemma request_inputs_read:
  assumes "add_inputs raw inputs (first_request cl) = Inr request"
    and "raw \<or> list_all (\<lambda>x. ii_datatype x \<noteq> ''BOOL'') inputs"
  shows "server_inputs request = Some inputs"
proof -
  have s: "list_all (sendable raw) inputs" using add_inputs_unsendable [of raw inputs "first_request cl"] assms(1) by auto
  then have rq: "rq_inputs request = map (input_node raw) inputs"
    "rq_raw_input_contents request = (if raw then map (\<lambda>x. map char_of_byte (the (ii_data x))) inputs else [])"
    using add_inputs_sendable [OF s] assms(1) by (auto simp: first_request_def)
  have data: "ii_data x = Some (the (ii_data x))" if "x \<in> set inputs" for x
    using s that by (auto simp: list_all_iff sendable_def split: option.splits)
  show ?thesis
  proof (cases raw)
    case True
    have "map (\<lambda>x. input_of (input_node True x) (the (ii_data x))) inputs = inputs"
      using data by (intro map_idI) (auto simp: input_of_def input_node_def)
    then show ?thesis
      using True by (cases inputs) (simp_all add: server_inputs_def rq input_node_def zip_map_map comp_def zip_same_conv_map list.pred_map list.pred_True)
  next
    case False
    have "typed_input (input_node False x) = Some x" if x: "x \<in> set inputs" for x
    proof -
      obtain bytes where b: "ii_data x = Some bytes"
        and k: "is_ok (encodeInput empty_contents bytes (ii_datatype x))"
        using s x False by (auto simp: list_all_iff sendable_def encodeInput_ok split: option.splits)
      then obtain c where c: "encodeInput empty_contents bytes (ii_datatype x) = Inr c"
        by (cases "encodeInput empty_contents bytes (ii_datatype x)") auto
      have "ii_datatype x \<noteq> ''BOOL''" using False assms(2) x by (auto simp: list_all_iff)
      with c have "wire_bytes (ii_datatype x) c = Some bytes" by (rule wire_written)
      then show ?thesis using b c by (simp add: typed_input_def input_of_def input_node_def)
    qed
    then have "those (map (\<lambda>x. typed_input (input_node False x)) inputs) = Some (map (\<lambda>x. x) inputs)"
      by (rule those_some)
    then show ?thesis using False by (simp add: server_inputs_def rq comp_def)
  qed
qed

text \<open>
  C16: what a server reads out of a request are the inputs of the caller: names, datatypes, shapes and
  payload bytes, in order. It reads by the protocol: raw contents as they are, typed contents from the
  field of the datatype, which may be the only one set, elements in range and in little-endian order. With
  typed contents no input may be \<open>BOOL\<close>, which the client writes into the wrong field
  (\<open>wire_bool_refused\<close>); with raw contents, the default, there is no condition.
\<close>

theorem grpc_request_roundtrip:
  assumes "add_inputs raw inputs (first_request cl) = Inr request"
    and "raw \<or> list_all (\<lambda>x. ii_datatype x \<noteq> ''BOOL'') inputs"
  shows "server_inputs request = Some inputs"
  using assms by (rule request_inputs_read)

section \<open>What an inference returns\<close>

text \<open>
  A response that carries given tensors: raw, or each in the typed field the protocol has for its
  datatype, \<open>BOOL\<close> included.
\<close>

definition output_describes :: "InferOutput \<Rightarrow> InferOutputTensor \<Rightarrow> bool" where
  "output_describes out t = (ot_name t = io_name out \<and> or_fp32 (ot_datatype t) = io_datatype out \<and> ot_shape t = io_shape out)"

definition typed_output :: "InferOutput \<Rightarrow> InferOutputTensor \<Rightarrow> bool" where
  "typed_output out t = (wire_bytes (io_datatype out) (output_contents t) = Some (io_data out))"

definition grpc_carries :: "InferOutput list \<Rightarrow> ModelInferResponse \<Rightarrow> bool" where
  "grpc_carries outs response =
     (list_all2 output_describes outs (rs_outputs response) \<and>
      (rs_raw_output_contents response = map (\<lambda>out. map char_of_byte (io_data out)) outs \<or>
       rs_raw_output_contents response = [] \<and> list_all2 typed_output outs (rs_outputs response)))"

lemma read_grpc_carries:
  assumes "grpc_carries outs response"
  shows "read_infer_response response = Inr outs"
proof -
  let ?raws = "rs_raw_output_contents response" and ?ts = "rs_outputs response"
  have l: "length ?ts = length outs" using assms by (auto simp: grpc_carries_def dest: list_all2_lengthD)
  have "read_output ?raws i (?ts ! i) = Inr (outs ! i)" if i: "i < length outs" for i
  proof -
    have d: "output_describes (outs ! i) (?ts ! i)"
      using assms i by (auto simp: grpc_carries_def dest: list_all2_nthD)
    have "?raws = map (\<lambda>out. map char_of_byte (io_data out)) outs \<or> ?raws = [] \<and> typed_output (outs ! i) (?ts ! i)"
      using assms i by (auto simp: grpc_carries_def dest: list_all2_nthD)
    then have "(if 0 < length ?raws \<and> i < length ?raws then Inr (map byte_of_char (?raws ! i))
        else contentsToBytes (output_contents (?ts ! i)) (io_datatype (outs ! i))) = Inr (io_data (outs ! i))"
    proof (elim disjE conjE)
      assume "?raws = map (\<lambda>out. map char_of_byte (io_data out)) outs"
      then have "?raws ! i = map char_of_byte (io_data (outs ! i))" "i < length ?raws" using i by simp_all
      moreover from this(2) have "0 < length ?raws" by linarith
      ultimately show ?thesis by simp
    next
      assume "?raws = []" "typed_output (outs ! i) (?ts ! i)"
      then show ?thesis by (simp add: typed_output_def wire_read)
    qed
    then show ?thesis using d by (simp add: read_output_def output_describes_def toShape_def Let_def ucast_id)
  qed
  then have "read_infer_response response = Inr (map (\<lambda>i. outs ! i) [0..<length outs])"
    unfolding read_infer_response_def l by (intro mapR_all_Inr) simp
  then show ?thesis by (simp add: map_nth)
qed

interpretation grpc_reader: response_reader read_infer_response grpc_carries
  by unfold_locales (rule read_grpc_carries)

text \<open>
  C8: \<open>infer\<close> returns exactly the tensors the server put into the response the call ended with,
  in order, with the datatype \<open>FP32\<close> where the server named none; whether their bytes are in
  \<open>raw_output_contents\<close> or in the typed field the protocol has for their datatype: booleans in
  \<open>bool_contents\<close>, signed and unsigned integers of up to 32 bits in \<open>int_contents\<close> and
  \<open>uint_contents\<close>, the others in fields of their own. What a typed field means is \<open>wire_bytes\<close>, which
  knows nothing of the client.
\<close>

theorem grpc_infer_outputs:
  assumes "add_inputs (rawContentsEnabled net) inputs (first_request cl) = Inr request"
    and "rpc net cl (gn_ModelInfer net) (InferRequest request) ''KServe gRPC inference failed'' h = Some (Inr response, h')"
    and "grpc_carries outs response"
  shows "grpc_infer net cl inputs h = Some (Inr outs, h')"
  using assms(2) grpc_reader.reads_carried [OF assms(3)]
  by (simp add: grpc_infer_request [OF assms(1)] bindP_def prog_basic)

section \<open>Building a client\<close>

text \<open>
  C35: the channel of a client. It goes to the host and port of the endpoint (port 8001 by default), in
  plain text exactly for an endpoint without TLS; a TLS channel verifies against the roots of
  \<open>KSERVE_CA_CERT\<close> and presents a client certificate only together with its key.
\<close>

theorem new_GrpcClient_channel:
  assumes "new_GrpcClient net endpoint model_name model_version timeout_ms = Inr cl"
  shows "\<exists>ep. parseEndpoint endpoint 8001 = Inr ep \<and>
    ch_target (gc_channel cl) = ep_host ep @ '':'' @ string_of_int (ep_port ep) \<and>
    (case ch_credentials (gc_channel cl) of
       InsecureCredentials \<Rightarrow> \<not> ep_tls ep
     | SslCredentials roots chain key \<Rightarrow>
         ep_tls ep \<and> (chain = [] \<longleftrightarrow> key = []) \<and>
         map (readFileFromEnvPath (gn_env net) (gn_files net)) [''KSERVE_CA_CERT'', ''KSERVE_CLIENT_CERT'', ''KSERVE_CLIENT_KEY''] =
           map Inr [roots, chain, key])"
proof -
  obtain ep creds where ep: "parseEndpoint endpoint 8001 = Inr ep" and c: "makeChannelCredentials net (ep_tls ep) = Inr creds"
    and cl: "gc_channel cl = \<lparr>ch_target = ep_host ep @ '':'' @ string_of_int (ep_port ep), ch_credentials = creds\<rparr>"
    using assms by (auto simp: new_GrpcClient_def bindR_eq_Inr Let_def)
  show ?thesis
    using c by (intro exI [of _ ep])
      (auto simp: ep cl makeChannelCredentials_def requireClientCertPair_def bindR_eq_Inr Let_def split: if_splits)
qed

section \<open>Witnesses\<close>

text \<open>A server that answers with raw contents.\<close>

definition demo_response :: ModelInferResponse where
  "demo_response =
     \<lparr>rs_outputs = [\<lparr>ot_name = ''y'', ot_datatype = [], ot_shape = [1], ot_contents = None\<rparr>],
      rs_raw_output_contents = [''1234'']\<rparr>"

definition ok_stub :: "'r \<Rightarrow> 'r stub" where
  "ok_stub x h ch context request = (\<lparr>st_code = 0, st_message = []\<rparr>, x)"

definition demo_net :: grpc_net where
  "demo_net =
     \<lparr>gn_env = (\<lambda>_. None), gn_files = (\<lambda>_. None), gn_repository = True, gn_random = (\<lambda>_. Fin 0),
      gn_ServerLive = ok_stub True, gn_ServerReady = ok_stub True, gn_ModelReady = ok_stub True,
      gn_ModelMetadata = ok_stub \<lparr>md_platform = [], md_inputs = [], md_outputs = []\<rparr>,
      gn_ModelInfer = ok_stub demo_response,
      gn_RepositoryIndex = ok_stub [], gn_RepositoryModelLoad = ok_stub (), gn_RepositoryModelUnload = ok_stub ()\<rparr>"

definition demo_grpc :: GrpcClient where
  "demo_grpc =
     \<lparr>gc_model_name = ''m'', gc_model_version = ''1'', gc_timeout_ms = 1000, gc_auth_token = ''t'',
      gc_impl =
        \<lparr>im_channel = \<lparr>ch_target = ''h:8001'', ch_credentials = InsecureCredentials\<rparr>,
         im_retry_policy = \<lparr>rp_max_attempts = 2, rp_base_delay_ms = 1, rp_max_delay_ms = 1, rp_jitter = Fin 0\<rparr>\<rparr>\<rparr>"

definition demo_tensor :: InferInput where
  "demo_tensor = \<lparr>ii_name = ''x'', ii_datatype = ''INT16'', ii_shape = [1], ii_data = Some [1, 2]\<rparr>"

lemma some_result: "map_option fst p = Some r \<Longrightarrow> \<exists>h'. p = Some (r, h')"
  by auto

lemma demo_request: "\<exists>request. add_inputs raw [demo_tensor] (first_request cl) = Inr request"
proof (rule exI, rule add_inputs_sendable)
  show "list_all (sendable raw) [demo_tensor]"
    by (simp add: demo_tensor_def sendable_def grpc_datatype_iff datatypeByteWidth_def)
qed

text \<open>A server that answers with typed contents, booleans among them.\<close>

definition typed_response :: ModelInferResponse where
  "typed_response =
     \<lparr>rs_outputs =
        [\<lparr>ot_name = ''b'', ot_datatype = ''BOOL'', ot_shape = [2],
          ot_contents = Some (empty_contents\<lparr>bool_contents := [True, False]\<rparr>)\<rparr>,
         \<lparr>ot_name = ''n'', ot_datatype = ''INT16'', ot_shape = [1],
          ot_contents = Some (empty_contents\<lparr>int_contents := [- 2]\<rparr>)\<rparr>],
      rs_raw_output_contents = []\<rparr>"

definition typed_net :: grpc_net where
  "typed_net = demo_net\<lparr>gn_ModelInfer := ok_stub typed_response\<rparr>"

definition typed_outputs :: "InferOutput list" where
  "typed_outputs =
     [\<lparr>io_name = ''b'', io_datatype = ''BOOL'', io_shape = [2], io_data = [1, 0]\<rparr>,
      \<lparr>io_name = ''n'', io_datatype = ''INT16'', io_shape = [1], io_data = [254, 255]\<rparr>]"

theorem grpc_infer_outputs_witness:
  "\<exists>h'. grpc_infer typed_net demo_grpc [demo_tensor] [] = Some (Inr typed_outputs, h')"
proof -
  let ?rpc = "\<lambda>rq. rpc typed_net demo_grpc (gn_ModelInfer typed_net) (InferRequest rq) ''KServe gRPC inference failed'' []"
  have "bindR (add_inputs (rawContentsEnabled typed_net) [demo_tensor] (first_request demo_grpc))
      (\<lambda>rq. Inr (map_option fst (?rpc rq))) = Inr (Some (Inr typed_response))" by code_simp
  then obtain request h' where rq: "add_inputs (rawContentsEnabled typed_net) [demo_tensor] (first_request demo_grpc) = Inr request"
    and h': "?rpc request = Some (Inr typed_response, h')"
    by (auto simp: bindR_eq_Inr)
  have "list_all2 output_describes typed_outputs (rs_outputs typed_response)"
    "rs_raw_output_contents typed_response = []"
    "list_all2 typed_output typed_outputs (rs_outputs typed_response)" by code_simp+
  then have "grpc_carries typed_outputs typed_response" by (simp add: grpc_carries_def)
  then show ?thesis using grpc_infer_outputs [OF rq h'] by blast
qed

theorem grpc_request_roundtrip_witness:
  "\<exists>request. add_inputs False [demo_tensor] (first_request demo_grpc) = Inr request \<and>
     server_inputs request = Some [demo_tensor]"
proof -
  obtain request where rq: "add_inputs False [demo_tensor] (first_request demo_grpc) = Inr request"
    using demo_request by blast
  with grpc_request_roundtrip [OF rq] show ?thesis by (simp add: demo_tensor_def)
qed

theorem grpc_calls_authorised_witness:
  "\<exists>h. client_run (grpc_iclient demo_net demo_grpc) [] h \<and> h \<noteq> [] \<and> list_all (own_event demo_grpc) h"
proof -
  have "map_option (\<lambda>(r, h). h \<noteq> []) (grpc_serverLive demo_net demo_grpc []) = Some True" by code_simp
  then obtain r h where h: "grpc_serverLive demo_net demo_grpc [] = Some (r, h)" "h \<noteq> []" by auto
  then have "client_run (grpc_iclient demo_net demo_grpc) [] h"
    by (intro client_run.call [OF client_run.start] client_step.live) (simp add: grpc_iclient_def)
  with grpc_calls_authorised [OF this] h(2) show ?thesis by blast
qed

theorem new_GrpcClient_channel_witness:
  "\<exists>cl. new_GrpcClient demo_net ''h'' ''m'' ''1'' 1000 = Inr cl \<and> ch_target (gc_channel cl) = ''h:8001''"
proof -
  have "map_sum id (\<lambda>ep. (ep_host ep, ep_port ep, ep_tls ep)) (parseEndpoint ''h'' 8001) = Inr (''h'', 8001, False)" by code_simp
  then obtain ep where ep: "parseEndpoint ''h'' 8001 = Inr ep" "ep_host ep = ''h''" "ep_port ep = 8001" "\<not> ep_tls ep"
    by (cases "parseEndpoint ''h'' 8001") auto
  have "grpc_envToken demo_net = Inr []" by code_simp
  moreover have "retryPolicyFromEnv (gn_env demo_net) = Inr default_policy"
    by (simp add: demo_net_def retryPolicyFromEnv_def envAttempts_def envInt_def envFraction_def Let_def)
  ultimately obtain cl where cl: "new_GrpcClient demo_net ''h'' ''m'' ''1'' 1000 = Inr cl"
    using ep by (auto simp: new_GrpcClient_def makeChannelCredentials_def)
  have "string_of_int 8001 = ''8001''" by code_simp
  then show ?thesis using new_GrpcClient_channel [OF cl] cl ep by auto
qed

end
