(* ===== verification/Retry_Trace.thy ===== *)
theory Retry_Trace
  imports Retry
begin

text \<open>
  What the retry loop does, seen from outside. \<open>retried\<close> is its specification as traces: an
  attempt that is final ends the loop, a transient one is followed by another while the budget lasts.
  The locale \<open>retry_trace\<close> relates the loop to it: when the world records what every attempt
  does, then the record of the whole loop is a trace of the specification.
\<close>

text \<open>
  \<open>tries r xs\<close>: one attempt with outcome \<open>r\<close> leaves the record \<open>xs\<close>.
  \<open>retried q tries n r xs\<close>: so does a loop that may retry \<open>n\<close> times.
\<close>

inductive retried :: "('a \<Rightarrow> bool) \<Rightarrow> ('a result \<Rightarrow> 'b list \<Rightarrow> bool) \<Rightarrow> nat \<Rightarrow> 'a result \<Rightarrow> 'b list \<Rightarrow> bool"
  for q tries where
  settled: "tries r xs \<Longrightarrow> is_final q r \<Longrightarrow> retried q tries n r xs"
| exhausted: "tries r xs \<Longrightarrow> retried q tries 0 r xs"
| again: "tries r1 xs \<Longrightarrow> \<not> is_final q r1 \<Longrightarrow> retried q tries n r ys \<Longrightarrow> retried q tries (Suc n) r (xs @ ys)"

inductive_simps retried_0: "retried q tries 0 r xs"
inductive_simps retried_Suc: "retried q tries (Suc n) r xs"

text \<open>A trace of the specification is a sequence of at most \<open>n + 1\<close> attempts, and only its last can be final.\<close>

lemma retried_attempts:
  "retried q tries n r xs \<Longrightarrow>
   \<exists>as z. length as \<le> n \<and> xs = concat (map snd as) @ z \<and> tries r z \<and>
     (\<forall>(r1, ys) \<in> set as. tries r1 ys \<and> \<not> is_final q r1) \<and> (is_final q r \<or> length as = n)"
proof (induction n r xs rule: retried.induct)
  case (settled r xs n)
  then show ?case by (intro exI [of _ "[]"] exI [of _ xs]) simp
next
  case (exhausted r xs)
  then show ?case by (intro exI [of _ "[]"] exI [of _ xs]) simp
next
  case (again r1 xs n r ys)
  from again.IH obtain as z where "length as \<le> n" "ys = concat (map snd as) @ z" "tries r z"
    "\<forall>(r1, ys) \<in> set as. tries r1 ys \<and> \<not> is_final q r1" "is_final q r \<or> length as = n"
    by blast
  then show ?case using again.hyps(1,2) by (intro exI [of _ "(r1, xs) # as"] exI [of _ z]) auto
qed

lemma retried_mono: "retried q tries n r xs \<Longrightarrow> (\<And>r xs. tries r xs \<Longrightarrow> tries' r xs) \<Longrightarrow> retried q tries' n r xs"
  by (induction n r xs rule: retried.induct) (auto intro: retried.intros)

locale retry_trace =
  fixes obs :: "'w \<Rightarrow> 'b list"
    and tries :: "'a result \<Rightarrow> 'b list \<Rightarrow> bool"
    and attempt :: "'w \<Rightarrow> ('a result \<times> 'w) option"
    and sleeper :: "int \<Rightarrow> 'w \<Rightarrow> 'w"
    and rng :: "'w \<Rightarrow> double \<times> 'w"
  assumes attempt_obs: "attempt w = Some (r, w') \<Longrightarrow> \<exists>xs. obs w' = obs w @ xs \<and> tries r xs"
    and sleep_obs: "obs (sleeper ms w) = obs w"
    and rng_obs: "obs (snd (rng w)) = obs w"
begin

lemma loop_traces:
  assumes "valid_policy p" "\<And>w. unit_double (fst (rng w))" "i \<le> n"
    and "retry_loop p n attempt q sleeper rng i w = Some (r, w')"
  shows "\<exists>xs. obs w' = obs w @ xs \<and> retried q tries (nat (n - i)) r xs"
  using assms(3,4)
proof (induction "nat (n - i)" arbitrary: i w)
  case 0
  then have "attempt w = Some (r, w')" by (subst (asm) retry_loop.simps) (auto split: option.splits)
  from attempt_obs [OF this] show ?case using 0 by (auto intro: exhausted)
next
  case (Suc d)
  obtain r1 w1 where a: "attempt w = Some (r1, w1)"
    using Suc.prems(2) by (subst (asm) retry_loop.simps) (auto split: option.splits)
  from attempt_obs [OF a] obtain xs where xs: "obs w1 = obs w @ xs" "tries r1 xs" by blast
  show ?case
  proof (cases "is_final q r1")
    case True
    then have "r1 = r" "w1 = w'" using Suc.prems(2) a by (subst (asm) retry_loop.simps, simp)+
    then show ?thesis using xs True by (auto intro: settled)
  next
    case False
    obtain u w2 where u: "rng w1 = (u, w2)" by (cases "rng w1")
    from backoff_range [OF assms(1) assms(2) [of w1], of i] obtain ms where "backoffDelayMs p i u = Inr ms" using u by auto
    moreover have "\<not> n \<le> i" using Suc.hyps(2) by simp
    ultimately have l: "retry_loop p n attempt q sleeper rng (i + 1) (sleeper ms w2) = Some (r, w')"
      using Suc.prems(2) a u False by (subst (asm) retry_loop.simps) simp
    have d: "d = nat (n - (i + 1))" "i + 1 \<le> n" using Suc.hyps(2) by linarith+
    from Suc.hyps(1) [OF d l] obtain ys where ys: "obs w' = obs (sleeper ms w2) @ ys" "retried q tries d r ys"
      using d(1) by blast
    have "obs (sleeper ms w2) = obs w1" using sleep_obs rng_obs [of w1] u by simp
    then have "obs w' = obs w @ xs @ ys" using ys(1) xs(1) by simp
    then show ?thesis using again [OF xs(2) False ys(2)] Suc.hyps(2) by auto
  qed
qed

lemma run_traces:
  assumes "valid_policy p" "\<And>w. unit_double (fst (rng w))" "runWithRetry p attempt q sleeper rng w = Some (r, w')"
  shows "\<exists>xs. obs w' = obs w @ xs \<and> retried q tries (nat (rp_max_attempts p) - 1) r xs"
proof -
  have p: "1 \<le> rp_max_attempts p" using assms(1) by (simp add: valid_policy_def)
  then have "nat (rp_max_attempts p - 1) = nat (rp_max_attempts p) - 1" by linarith
  then show ?thesis
    using loop_traces [OF assms(1,2) p, of q w r w'] assms(3) p by (simp add: runWithRetry_def)
qed

end

end
