(* ===== verification/Grpc_Protocol.thy ===== *)
theory Grpc_Protocol
  imports Grpc_Client Retry_Trace
begin

text \<open>
  What a server sees of one operation of the gRPC client: the sequence of its calls, as a trace of the
  retry specification, and how the outcome of the operation follows from it.
\<close>

type_synonym call_record = "Channel \<times> ClientContext \<times> grpc_request \<times> int"

text \<open>The calls of a history with the status codes they were answered with, oldest first.\<close>

fun made :: "grpc_history \<Rightarrow> call_record list" where
  "made [] = []"
| "made (GCall ch context request code # h) = made h @ [(ch, context, request, code)]"
| "made (_ # h) = made h"

definition call_record :: "GrpcClient \<Rightarrow> grpc_request \<Rightarrow> int \<Rightarrow> call_record" where
  "call_record cl request code = (gc_channel cl, client_context cl, request, code)"

text \<open>One attempt is one call, and always brings a status.\<close>

definition called :: "GrpcClient \<Rightarrow> grpc_request \<Rightarrow> (Status \<times> 'r) result \<Rightarrow> call_record list \<Rightarrow> bool" where
  "called cl request r xs =
     (case r of Inr (status, _) \<Rightarrow> xs = [call_record cl request (st_code status)] | Inl e \<Rightarrow> False)"

interpretation grpc_trace: retry_trace made "called cl request" "unary_call cl stub request" grpc_sleep "grpc_jitter net"
  for cl request stub net
  by unfold_locales
    (auto simp: unary_call_result called_def call_record_def grpc_sleep_def grpc_jitter_def Let_def split: prod.split)

definition transient_code :: "int \<Rightarrow> bool" where
  "transient_code code = (code = 4 \<or> code = 8 \<or> code = 14)"

lemma retried_calls:
  assumes "retried (\<lambda>(s, _). \<not> status_ok s \<and> isRetryableGrpcStatus (st_code s)) (called cl request) n (Inr (status, x)) xs"
  shows "\<exists>codes. xs = map (call_record cl request) (codes @ [st_code status]) \<and> list_all transient_code codes \<and>
    length codes \<le> n \<and> (transient status \<longrightarrow> length codes = n)"
  using assms
proof (induction n "Inr (status, x) :: (Status \<times> 'a) result" xs rule: retried.induct)
  case (settled xs n)
  then show ?case by (intro exI [of _ "[]"]) (simp add: called_def final_status)
next
  case (exhausted xs)
  then show ?case by (intro exI [of _ "[]"]) (simp add: called_def)
next
  case (again r1 xs n ys)
  from again.hyps(1) obtain s y where r1: "r1 = Inr (s, y)" "xs = [call_record cl request (st_code s)]"
    by (auto simp: called_def split: sum.splits)
  from again.hyps(4) obtain codes where "ys = map (call_record cl request) (codes @ [st_code status])"
    "list_all transient_code codes" "length codes \<le> n" "transient status \<longrightarrow> length codes = n" by blast
  moreover have "transient_code (st_code s)"
    using again.hyps(2) r1(1) by (simp add: final_status transient_def transient_code_def)
  ultimately show ?case using r1(2) by (intro exI [of _ "st_code s # codes"]) simp
qed

lemma retryGrpc_calls:
  assumes "valid_policy p" "\<And>h. unit_double (gn_random net h)"
    and "retryGrpc net p (unary_call cl stub request) h = Some (Inr (status, x), h')"
  shows "\<exists>codes. made h' = made h @ map (call_record cl request) (codes @ [st_code status]) \<and>
    list_all transient_code codes \<and> length codes < nat (rp_max_attempts p) \<and>
    (transient status \<longrightarrow> Suc (length codes) = nat (rp_max_attempts p))"
proof -
  have u: "unit_double (fst (grpc_jitter net w))" for w using assms(2) by (simp add: grpc_jitter_def Let_def)
  from grpc_trace.run_traces [OF assms(1) u assms(3) [unfolded retryGrpc_def]] obtain xs
    where xs: "made h' = made h @ xs"
      "retried (\<lambda>(s, _). \<not> status_ok s \<and> isRetryableGrpcStatus (st_code s)) (called cl request)
        (nat (rp_max_attempts p) - 1) (Inr (status, x)) xs"
    by blast
  from retried_calls [OF xs(2)] obtain codes where "xs = map (call_record cl request) (codes @ [st_code status])"
    "list_all transient_code codes" "length codes \<le> nat (rp_max_attempts p) - 1"
    "transient status \<longrightarrow> length codes = nat (rp_max_attempts p) - 1" by blast
  moreover have "0 < nat (rp_max_attempts p)" using assms(1) by (simp add: valid_policy_def)
  ultimately show ?thesis using xs(1) by (intro exI [of _ codes]) auto
qed

text \<open>
  C15: the calls of one operation. A server sees the same request, on the same channel with the same
  deadline and token, at most as often as the policy allows; all answers but the last were transient
  (\<open>DEADLINE_EXCEEDED\<close>, \<open>RESOURCE_EXHAUSTED\<close>, \<open>UNAVAILABLE\<close>), and if the last is so too
  the budget is used up. The last answer decides the outcome: its response if the status is OK, and
  otherwise an exception with the operation, the status code and the message of the server.
\<close>

theorem grpc_call_sequence:
  assumes "valid_policy (gc_retry_policy cl)" "\<And>h. unit_double (gn_random net h)"
    and "rpc net cl stub request what h = Some (r, h')"
  shows "\<exists>codes h1 status response.
    made h' = made h @ map (call_record cl request) (codes @ [st_code status]) \<and>
    list_all transient_code codes \<and> length codes < nat (rp_max_attempts (gc_retry_policy cl)) \<and>
    (if transient status then Suc (length codes) = nat (rp_max_attempts (gc_retry_policy cl)) else True) \<and>
    stub h1 (gc_channel cl) (client_context cl) request = (status, response) \<and>
    h' = GCall (gc_channel cl) (client_context cl) request (st_code status) # h1 \<and>
    r = (if st_code status = 0 then Inr response
         else Inl (Runtime_error (what @ '': '' @ string_of_int (st_code status) @ '' '' @ st_message status)))"
proof -
  from rpc_status [OF assms] obtain h1 status response where s:
    "stub h1 (gc_channel cl) (client_context cl) request = (status, response)"
    "h' = GCall (gc_channel cl) (client_context cl) request (st_code status) # h1"
    "r = (if st_code status = 0 then Inr response
         else Inl (Runtime_error (what @ '': '' @ string_of_int (st_code status) @ '' '' @ st_message status)))" by blast
  have "\<exists>s x. retryGrpc net (gc_retry_policy cl) (unary_call cl stub request) h = Some (Inr (s, x), h')"
    using assms(3) unfolding rpc_def
  proof (rule bindP_cases)
    fix e assume "retryGrpc net (gc_retry_policy cl) (unary_call cl stub request) h = Some (Inl e, h')"
    then obtain v where "unary_call cl stub request v = Some (Inl e, h')"
      unfolding retryGrpc_def by (rule grpc_count.run_last [where net = net, rotated 2]) (simp_all add: assms(1,2) grpc_jitter_def Let_def)
    then show ?thesis by (simp add: unary_call_result Let_def)
  next
    fix x h2 assume "retryGrpc net (gc_retry_policy cl) (unary_call cl stub request) h = Some (Inr x, h2)"
      "(case x of (status, response) \<Rightarrow> if \<not> status_ok status then throwStatus what status else ret response) h2 = Some (r, h')"
    then show ?thesis by (cases x) (auto simp: throwStatus_def prog_basic split: if_splits)
  qed
  then obtain s' x where q: "retryGrpc net (gc_retry_policy cl) (unary_call cl stub request) h = Some (Inr (s', x), h')" by blast
  from retryGrpc_calls [OF assms(1,2) q] obtain codes where
    c: "made h' = made h @ map (call_record cl request) (codes @ [st_code s'])" "list_all transient_code codes"
      "length codes < nat (rp_max_attempts (gc_retry_policy cl))"
      "transient s' \<longrightarrow> Suc (length codes) = nat (rp_max_attempts (gc_retry_policy cl))" by blast
  have "st_code s' = st_code status" using c(1) s(2) by (simp add: call_record_def)
  then show ?thesis using c s by (intro exI [of _ codes] exI [of _ h1] exI [of _ status] exI [of _ response]) (simp add: transient_def)
qed


text \<open>A server that is unavailable at first.\<close>

definition flaky_stub :: "bool stub" where
  "flaky_stub h ch context request =
     (if made h = [] then (\<lparr>st_code = 14, st_message = ''down''\<rparr>, False) else (\<lparr>st_code = 0, st_message = []\<rparr>, True))"

lemma flaky_call:
  "rpc (demo_net\<lparr>gn_random := \<lambda>_. Fin (1 / 2)\<rparr>) demo_grpc flaky_stub ServerLiveRequest ''live'' [] =
    Some (Inr True, [GCall (gc_channel demo_grpc) (client_context demo_grpc) ServerLiveRequest 0, GSleep 1,
      GRandom (Fin (1 / 2)), GCall (gc_channel demo_grpc) (client_context demo_grpc) ServerLiveRequest 14])"
proof -
  have v: "valid_policy (gc_retry_policy demo_grpc)" by (simp add: demo_grpc_def valid_policy_def rnd_def)
  have "backoffDelayMs (gc_retry_policy demo_grpc) (int (Suc 0)) (Fin (1 / 2)) = Inr 1"
    unfolding backoff_half [OF v] by (simp add: demo_grpc_def term_ms_def)
  then have b: "backoffDelayMs (gc_retry_policy demo_grpc) 1 (Fin (1 / 2)) = Inr 1" by simp
  have n: "rp_max_attempts (gc_retry_policy demo_grpc) = 2" by (simp add: demo_grpc_def)
  have u: "unary_call demo_grpc flaky_stub ServerLiveRequest h =
      (if made h = [] then Some (Inr (\<lparr>st_code = 14, st_message = ''down''\<rparr>, False),
          GCall (gc_channel demo_grpc) (client_context demo_grpc) ServerLiveRequest 14 # h)
       else Some (Inr (\<lparr>st_code = 0, st_message = []\<rparr>, True),
          GCall (gc_channel demo_grpc) (client_context demo_grpc) ServerLiveRequest 0 # h))" for h
    by (simp add: unary_call_result flaky_stub_def)
  show ?thesis
    by (simp add: rpc_def bindP_def retryGrpc_def runWithRetry_def n retry_loop.simps u is_final_def
        isRetryableGrpcStatus_def         grpc_jitter_def b grpc_sleep_def Let_def status_ok_def prog_basic)
qed

theorem grpc_call_sequence_witness:
  "\<exists>codes h1. list_all transient_code codes \<and> length codes < 2 \<and>
     [14, 0] = codes @ [st_code (fst (flaky_stub h1 (gc_channel demo_grpc) (client_context demo_grpc) ServerLiveRequest))]"
proof -
  let ?net = "demo_net\<lparr>gn_random := \<lambda>_. Fin (1 / 2)\<rparr>"
  have v: "valid_policy (gc_retry_policy demo_grpc)" by (simp add: demo_grpc_def valid_policy_def rnd_def)
  have u: "unit_double (gn_random ?net h)" for h by (simp add: unit_double_def)
  from grpc_call_sequence [OF v u flaky_call] obtain codes h1 status response where
    c: "made [GCall (gc_channel demo_grpc) (client_context demo_grpc) ServerLiveRequest 0, GSleep 1,
      GRandom (Fin (1 / 2)), GCall (gc_channel demo_grpc) (client_context demo_grpc) ServerLiveRequest 14] =
        made [] @ map (call_record demo_grpc ServerLiveRequest) (codes @ [st_code status])"
      "list_all transient_code codes" "length codes < nat (rp_max_attempts (gc_retry_policy demo_grpc))"
      "flaky_stub h1 (gc_channel demo_grpc) (client_context demo_grpc) ServerLiveRequest = (status, response)" by blast
  have "map (\<lambda>(_, _, _, code). code) (map (call_record demo_grpc ServerLiveRequest) (codes @ [st_code status])) = codes @ [st_code status]"
    by (induction codes) (simp_all add: call_record_def)
  moreover have "map (\<lambda>(_, _, _, code). code) (map (call_record demo_grpc ServerLiveRequest) (codes @ [st_code status])) = [14, 0]"
    using arg_cong [OF c(1), of "map (\<lambda>(_, _, _, code). code)"] by simp
  ultimately have "[14, 0] = codes @ [st_code status]" by simp
  then show ?thesis using c(2-4) by (intro exI [of _ codes] exI [of _ h1]) (simp add: demo_grpc_def)
qed

end
