(* ===== verification/Http_Protocol.thy ===== *)
theory Http_Protocol
  imports Http_Client Retry_Trace
begin

text \<open>
  What a peer sees of the HTTP client. The traffic of a history is the data that went over the wire,
  plain or through TLS. The specification of an exchange is a set of traces: one attempt sends the
  request once and then only reads, and stops at the first complete response; attempts are repeated as
  \<open>retried\<close> allows. The client implements it, for one exchange and over its whole life.
\<close>

section \<open>Traffic\<close>

datatype packet = Sent string | Received string

definition sent_traffic :: "string \<Rightarrow> int \<Rightarrow> packet list" where
  "sent_traffic d n = (if 0 < n then [Sent (take (nat n) d)] else [])"

definition received_traffic :: "string option \<Rightarrow> packet list" where
  "received_traffic r = (case r of Some (c # cs) \<Rightarrow> [Received (c # cs)] | _ \<Rightarrow> [])"

text \<open>Oldest first, while a history has its newest event first.\<close>

fun traffic_of :: "event \<Rightarrow> packet list" where
  "traffic_of (ESend _ d n) = sent_traffic d n"
| "traffic_of (ETls (Ssl_write d _) n) = sent_traffic d n"
| "traffic_of (ERecv _ r) = received_traffic r"
| "traffic_of (ESslRead r) = received_traffic r"
| "traffic_of _ = []"

fun traffic :: "history \<Rightarrow> packet list" where
  "traffic [] = []"
| "traffic (e # h) = traffic h @ traffic_of e"

section \<open>The specification of an attempt\<close>

inductive attempted :: "string \<Rightarrow> HttpResponse result \<Rightarrow> packet list \<Rightarrow> bool" for request where
  unsent: "prefix (concat ss) request \<Longrightarrow> attempted request (Inl e) (map Sent ss)"
| unanswered: "concat ss = request \<Longrightarrow> attempted request (Inl e) (map Sent ss @ map Received rs)"
| answered: "concat ss = request \<Longrightarrow> \<forall>k < length rs. \<not> messageComplete (concat (take k rs)) \<Longrightarrow>
    parseHttpResponse (concat rs) = Some (Inr response) \<Longrightarrow>
    attempted request (Inr response) (map Sent ss @ map Received rs)"

inductive_cases attempted_errorE: "attempted request (Inl e) xs"
inductive_cases attempted_answerE: "attempted request (Inr response) xs"

text \<open>The data of the two directions.\<close>

definition sent_text :: "packet list \<Rightarrow> string" where
  "sent_text xs = concat (map (\<lambda>x. case x of Sent d \<Rightarrow> d | Received _ \<Rightarrow> []) xs)"

definition received_text :: "packet list \<Rightarrow> string" where
  "received_text xs = concat (map (\<lambda>x. case x of Sent _ \<Rightarrow> [] | Received d \<Rightarrow> d) xs)"

lemma direction_texts [simp]:
  "sent_text (map Sent ss @ map Received rs) = concat ss" "sent_text (map Sent ss) = concat ss"
  "received_text (map Sent ss @ map Received rs) = concat rs"
  by (induction ss) (auto simp: sent_text_def received_text_def comp_def)

lemma attempted_texts:
  "attempted request r xs \<Longrightarrow>
   prefix (sent_text xs) request \<and>
   (\<forall>response. r = Inr response \<longrightarrow> sent_text xs = request \<and> parseHttpResponse (received_text xs) = Some (Inr response))"
  by (cases rule: attempted.cases) auto

section \<open>Connecting is silent\<close>

abbreviation silent :: "packet list \<Rightarrow> history \<Rightarrow> bool" where
  "silent T h \<equiv> traffic h = T"

lemma tls_do_silent:
  assumes "\<And>d k. call \<noteq> Ssl_write d k"
  shows "keeps (silent T) (tls_do os call)"
proof -
  have "traffic_of (ETls call r) = []" for r using assms by (cases call) auto
  then show ?thesis by (auto intro: keepsI simp: tls_do_def prog_simps Let_def)
qed

lemma tls_cleanup_silent: "traffic (tls_cleanup fd ctx ssl h) = traffic h"
  by (simp add: Let_def)

lemma destroy_silent: "traffic (destroy c h) = traffic h"
  by (cases c) (simp_all add: Let_def)

lemma tls_fail_silent: "keeps (silent T) (tls_fail os fd ctx ssl what)"
  by (auto intro!: keepsI simp: tls_fail_def prog_simps Let_def)

lemma tls_new_silent: "keeps (silent T) (tls_new os fd host)"
  unfolding tls_new_def tls_load_roots_def
  by (intro keeps_intros tls_fail_silent tls_do_silent) (auto split: option.split list.split
      intro!: keeps_intros tls_fail_silent tls_do_silent)

lemma try_addresses_silent: "try_addresses os t addrs fd h = (fd', h') \<Longrightarrow> traffic h' = traffic h"
proof (induction addrs arbitrary: fd h)
  case (Cons ai rest)
  let ?fd = "os_socket os h ai"
  let ?h3 = "EClose ?fd # EConnect ?fd ai False # setTimeout ?fd t (ESocket ?fd # h)"
  have "traffic (setTimeout fd t h) = traffic h" for fd h by (simp add: setTimeout_def Let_def)
  then show ?case
    using Cons.IH [of ?fd "ESocket ?fd # h"] Cons.IH [of "- 1" ?h3] Cons.prems
    by (auto simp: Let_def split: if_splits)
qed simp

lemma connect_silent: "keeps (silent T) (connect os ep t)"
proof -
  have "keeps (silent T) (connectSocket os host port t)" for host port
    by (rule keepsI)
      (auto simp: connectSocket_def prog_simps Let_def dest: try_addresses_silent
        split: sum.splits prod.splits if_splits)
  then show ?thesis
    unfolding connect_def
    by (intro keeps_intros tls_new_silent) (auto intro!: keepsI simp: prog_basic)
qed

lemma connect_traffic: "connect os ep t h = Some (r, h') \<Longrightarrow> traffic h' = traffic h"
  by (rule keepsD [OF connect_silent refl])

lemma drop_silent: "traffic (snd (drop_connection s)) = traffic (snd s)"
  by (auto simp: drop_connection_def destroy_silent split: prod.split option.split)

section \<open>Sending and reading\<close>

text \<open>The data is handed over in pieces that make up all of it, or on failure a prefix.\<close>

definition handed_over :: "string \<Rightarrow> 'a result \<Rightarrow> string list \<Rightarrow> bool" where
  "handed_over data r ss = (case r of Inl _ \<Rightarrow> prefix (concat ss) data | Inr _ \<Rightarrow> concat ss = data)"

lemma handed_over_Cons:
  "handed_over (drop (sent + n) data) r ss \<Longrightarrow> handed_over (drop sent data) r (take n (drop sent data) # ss)"
proof -
  have "drop sent data = take n (drop sent data) @ drop (sent + n) data"
    by (metis add.commute append_take_drop_id drop_drop)
  then show "handed_over (drop (sent + n) data) r ss \<Longrightarrow> handed_over (drop sent data) r (take n (drop sent data) # ss)"
    unfolding handed_over_def by (auto split: sum.splits) (metis same_prefix_prefix)
qed

lemma plain_send_traffic:
  "\<exists>ss. traffic (snd (plain_send os fd data sent h)) = traffic h @ map Sent ss \<and>
    handed_over (drop sent data) (fst (plain_send os fd data sent h)) ss"
proof (induction os fd data sent h rule: plain_send.induct)
  case (1 os fd data sent h)
  let ?n = "os_send os h fd (drop sent data)"
  show ?case
  proof (cases "sent < length data \<and> 0 < ?n")
    case True
    let ?h1 = "ESend fd (drop sent data) ?n # h"
    from 1 [OF _ refl refl] True obtain ss
      where "traffic (snd (plain_send os fd data (sent + nat ?n) ?h1)) = traffic ?h1 @ map Sent ss"
        "handed_over (drop (sent + nat ?n) data) (fst (plain_send os fd data (sent + nat ?n) ?h1)) ss"
      by auto
    then show ?thesis using True handed_over_Cons [of sent "nat ?n" data _ ss]
      by (subst (1 2) plain_send.simps)
        (auto simp: Let_def sent_traffic_def intro!: exI [of _ "take (nat ?n) (drop sent data) # ss"])
  next
    case False
    then show ?thesis
      by (subst (1 2) plain_send.simps)
        (auto simp: Let_def sent_traffic_def handed_over_def intro!: exI [of _ "[]"])
  qed
qed

lemma tls_send_traffic:
  "\<exists>ss. traffic (snd (tls_send os data sent h)) = traffic h @ map Sent ss \<and>
    handed_over (drop sent data) (fst (tls_send os data sent h)) ss"
proof (induction os data sent h rule: tls_send.induct)
  case (1 os data sent h)
  let ?call = "Ssl_write (drop sent data) (int_of_size (length data - sent))"
  let ?n = "os_tls os h ?call"
  show ?case
  proof (cases "sent < length data \<and> 0 < ?n")
    case True
    let ?h1 = "ETls ?call ?n # h"
    from 1 [OF _ refl refl refl] True obtain ss
      where "traffic (snd (tls_send os data (sent + nat ?n) ?h1)) = traffic ?h1 @ map Sent ss"
        "handed_over (drop (sent + nat ?n) data) (fst (tls_send os data (sent + nat ?n) ?h1)) ss"
      by auto
    then show ?thesis using True handed_over_Cons [of sent "nat ?n" data _ ss]
      by (subst (1 2) tls_send.simps)
        (auto simp: Let_def sent_traffic_def intro!: exI [of _ "take (nat ?n) (drop sent data) # ss"])
  next
    case False
    then show ?thesis
      by (subst (1 2) tls_send.simps)
        (auto simp: Let_def sent_traffic_def handed_over_def intro!: exI [of _ "[]"])
  qed
qed

lemma sendAll_traffic:
  assumes "sendAll os c data h = Some (r, h')"
  shows "\<exists>ss. traffic h' = traffic h @ map Sent ss \<and> handed_over data r ss"
proof (cases c)
  case (PlainConnection fd)
  then show ?thesis using plain_send_traffic [of os fd data 0 h] assms by auto
next
  case (TlsConnection fd ctx ssl)
  then show ?thesis using tls_send_traffic [of os data 0 h] assms by auto
qed

lemma recvSome_traffic:
  "recvSome os c n h = (d, h') \<Longrightarrow> traffic h' = traffic h @ received_traffic d"
  by (cases c) (auto simp: Let_def received_traffic_def split: option.split)

text \<open>What a read loop has received, and that it has stopped at the first complete response.\<close>

lemma read_loop_traffic:
  "read_loop os c raw h = Some z \<Longrightarrow>
   \<exists>rs. traffic (snd z) = traffic h @ map Received rs \<and>
     (\<forall>k < length rs. \<not> messageComplete (raw @ concat (take k rs))) \<and>
     (\<forall>raw' closed. fst z = Inr (raw', closed) \<longrightarrow> raw' = raw @ concat rs)"
proof (induction os c raw h z rule: read_loop.raw_induct [rotated, consumes 1, case_names step])
  case (step loop os c raw h z)
  show ?case
  proof (cases "messageComplete raw")
    case True
    then show ?thesis using step.hyps by (intro exI [of _ "[]"]) auto
  next
    case False
    obtain d h1 where d: "recvSome os c 4096 h = (d, h1)" by fastforce
    note t = recvSome_traffic [OF d]
    show ?thesis
    proof (cases "d = None \<or> d = Some []")
      case True
      then show ?thesis using step.hyps False d t
        by (intro exI [of _ "[]"]) (auto simp: received_traffic_def)
    next
      case f: False
      then obtain x xs where s: "d = Some (x # xs)" by (cases d) (auto simp: neq_Nil_conv)
      then have "loop os c (raw @ x # xs) h1 = Some z" using step.hyps False d by simp
      from step.IH [OF this] obtain rs where rs: "traffic (snd z) = traffic h1 @ map Received rs"
        "\<forall>k < length rs. \<not> messageComplete ((raw @ x # xs) @ concat (take k rs))"
        "\<forall>raw' closed. fst z = Inr (raw', closed) \<longrightarrow> raw' = (raw @ x # xs) @ concat rs" by blast
      have "\<not> messageComplete (raw @ concat (take k ((x # xs) # rs)))" if "k < length ((x # xs) # rs)" for k
        using that False rs(2) by (cases k) simp_all
      then show ?thesis using rs(1,3) t s by (intro exI [of _ "(x # xs) # rs"]) (simp add: received_traffic_def)
    qed
  qed
qed


section \<open>One attempt\<close>

lemma on_history_cases:
  assumes "on_history p (conn, h) = Some (r, s')"
  obtains h' where "p h = Some (r, h')" "s' = (conn, h')"
  using assms by (auto simp: on_history_def)

lemma ensureConnected_silent:
  assumes "ensureConnected os ep t s = Some (r, s')"
  shows "traffic (snd s') = traffic (snd s)"
proof (cases "hc_transport (fst s) \<noteq> None \<and> hc_host (fst s) = ep_host ep \<and> hc_port (fst s) = ep_port ep \<and> hc_tls (fst s) = ep_tls ep")
  case True
  then show ?thesis using assms by (auto simp: ensureConnected_def prog_basic)
next
  case False
  obtain conn h where d: "drop_connection s = (conn, h)" by fastforce
  then have h: "traffic h = traffic (snd s)" using drop_silent [of s] by simp
  have "bindP (on_history (connect os ep t)) (\<lambda>c (conn1, h).
      ret c (\<lparr>hc_transport = Some c, hc_host = ep_host ep, hc_port = ep_port ep, hc_tls = ep_tls ep\<rparr>, h)) (conn, h)
    = Some (r, s')"
    using assms unfolding ensureConnected_def Let_def if_not_P [OF False] d .
  then show ?thesis
  proof (rule bindP_cases)
    fix e assume "on_history (connect os ep t) (conn, h) = Some (Inl e, s')"
    then obtain h' where "connect os ep t h = Some (Inl e, h')" "s' = (conn, h')" by (rule on_history_cases)
    then show ?thesis using connect_traffic h by simp
  next
    fix c s1
    assume "on_history (connect os ep t) (conn, h) = Some (Inr c, s1)"
      and s': "(\<lambda>(conn1, h). ret c (\<lparr>hc_transport = Some c, hc_host = ep_host ep, hc_port = ep_port ep, hc_tls = ep_tls ep\<rparr>, h)) s1
        = Some (r, s')"
    then obtain h' where "connect os ep t h = Some (Inr c, h')" "s1 = (conn, h')" by (auto elim: on_history_cases)
    then show ?thesis using connect_traffic h s' by (auto simp: prog_basic)
  qed
qed

lemma readFramed_traffic:
  assumes "readFramed os c h = Some (r, h')"
  shows "\<exists>rs. traffic h' = traffic h @ map Received rs \<and>
     (\<forall>k < length rs. \<not> messageComplete (concat (take k rs))) \<and>
     (\<forall>raw closed. r = Inr (raw, closed) \<longrightarrow> raw = concat rs)"
  using assms unfolding readFramed_def
proof (rule bindP_cases)
  fix e assume "read_loop os c [] h = Some (Inl e, h')" "r = Inl e"
  then show ?thesis using read_loop_traffic [of os c "[]" h] by auto
next
  fix x h1 assume x: "read_loop os c [] h = Some (Inr x, h1)"
    and "(case x of (raw, server_closed) \<Rightarrow> if raw = [] then throw (Runtime_error ''HTTP read failed: empty response'')
      else ret (raw, server_closed)) h1 = Some (r, h')"
  then have "h1 = h'" "\<forall>raw closed. r = Inr (raw, closed) \<longrightarrow> x = (raw, closed)"
    by (auto simp: prog_basic split: prod.splits if_splits)
  then show ?thesis using read_loop_traffic [OF x] by auto
qed

text \<open>The part of a round trip after the connection is there.\<close>

lemma reading_attempted:
  assumes "bindP (on_history (readFramed os c)) (\<lambda>(raw, server_closed).
      bindP (parse_prog raw) (\<lambda>response s.
        ret response (if server_closed \<or> wantsClose raw then drop_connection s else s))) (conn, h1) = Some (r, s')"
    and ss: "traffic h1 = traffic h @ map Sent ss" "concat ss = request"
  shows "\<exists>xs. traffic (snd s') = traffic h @ xs \<and> attempted request r xs"
  using assms(1)
proof (rule bindP_cases)
  fix e assume "on_history (readFramed os c) (conn, h1) = Some (Inl e, s')" and r: "r = Inl e"
  then obtain h' where h': "readFramed os c h1 = Some (Inl e, h')" "s' = (conn, h')" by (auto elim: on_history_cases)
  from readFramed_traffic [OF h'(1)] obtain rs where "traffic (snd s') = traffic h1 @ map Received rs"
    using h'(2) by auto
  then show ?thesis using ss r unanswered [OF ss(2)] by (intro exI [of _ "map Sent ss @ map Received rs"]) simp
next
  fix x s2
  assume "on_history (readFramed os c) (conn, h1) = Some (Inr x, s2)"
    and parse: "(case x of (raw, server_closed) \<Rightarrow> bindP (parse_prog raw) (\<lambda>response s.
      ret response (if server_closed \<or> wantsClose raw then drop_connection s else s))) s2 = Some (r, s')"
  then obtain h2 where h2: "readFramed os c h1 = Some (Inr x, h2)" "s2 = (conn, h2)" by (auto elim: on_history_cases)
  obtain raw closed where x: "x = (raw, closed)" by fastforce
  obtain rs where rs: "traffic h2 = traffic h1 @ map Received rs"
    "\<forall>k < length rs. \<not> messageComplete (concat (take k rs))" "raw = concat rs"
    using readFramed_traffic [OF h2(1)] x by auto
  have t: "traffic h2 = traffic h @ map Sent ss @ map Received rs" using rs(1) ss(1) by simp
  show ?thesis using parse unfolding x h2(2) prod.case
  proof (rule bindP_cases)
    fix e assume "parse_prog raw (conn, h2) = Some (Inl e, s')" "r = Inl e"
    then show ?thesis using t unanswered [OF ss(2)] by (auto simp: parse_prog_def)
  next
    fix response s3
    assume "parse_prog raw (conn, h2) = Some (Inr response, s3)"
      and "ret response (if closed \<or> wantsClose raw then drop_connection s3 else s3) = Some (r, s')"
    then have "parseHttpResponse (concat rs) = Some (Inr response)" "r = Inr response" "traffic (snd s') = traffic h2"
      using rs(3) drop_silent [of "(conn, h2)"] by (auto simp: parse_prog_def prog_basic)
    then show ?thesis using t answered [OF ss(2) rs(2)] by auto
  qed
qed

lemma conversation_attempted:
  assumes "bindP (on_history (sendAll os c request)) (\<lambda>_.
      bindP (on_history (readFramed os c)) (\<lambda>(raw, server_closed).
      bindP (parse_prog raw) (\<lambda>response s.
        ret response (if server_closed \<or> wantsClose raw then drop_connection s else s)))) (conn, h) = Some (r, s')"
  shows "\<exists>xs. traffic (snd s') = traffic h @ xs \<and> attempted request r xs"
  using assms
proof (rule bindP_cases)
  fix e assume "on_history (sendAll os c request) (conn, h) = Some (Inl e, s')" and r: "r = Inl e"
  then obtain h' where "sendAll os c request h = Some (Inl e, h')" "s' = (conn, h')" by (auto elim: on_history_cases)
  then show ?thesis using sendAll_traffic [of os c request h] r by (fastforce simp: handed_over_def intro: unsent)
next
  fix u s1
  assume "on_history (sendAll os c request) (conn, h) = Some (Inr u, s1)"
    and read: "bindP (on_history (readFramed os c)) (\<lambda>(raw, server_closed).
      bindP (parse_prog raw) (\<lambda>response s.
        ret response (if server_closed \<or> wantsClose raw then drop_connection s else s))) s1 = Some (r, s')"
  then obtain h1 where "sendAll os c request h = Some (Inr u, h1)" and s1: "s1 = (conn, h1)" by (auto elim: on_history_cases)
  then obtain ss where ss: "traffic h1 = traffic h @ map Sent ss" "concat ss = request"
    using sendAll_traffic [of os c request h] by (auto simp: handed_over_def)
  show ?thesis using read unfolding s1 by (rule reading_attempted [OF _ ss])
qed

lemma roundTrip_attempted:
  assumes "roundTrip os ep request t s = Some (r, s')"
  shows "\<exists>xs. traffic (snd s') = traffic (snd s) @ xs \<and> attempted request r xs"
proof -
  let ?body = "bindP (ensureConnected os ep t) (\<lambda>transport.
        bindP (on_history (sendAll os transport request)) (\<lambda>_.
        bindP (on_history (readFramed os transport)) (\<lambda>(raw, server_closed).
        bindP (parse_prog raw) (\<lambda>response s.
          ret response (if server_closed \<or> wantsClose raw then drop_connection s else s)))))"
  obtain s1 where b: "?body s = Some (r, s1)" and s': "s' = s1 \<or> s' = drop_connection s1"
    using assms by (auto simp: roundTrip_def on_exception_def split: option.splits sum.splits if_splits)
  have "\<exists>xs. traffic (snd s1) = traffic (snd s) @ xs \<and> attempted request r xs"
    using b
  proof (rule bindP_cases)
    fix e assume "ensureConnected os ep t s = Some (Inl e, s1)" "r = Inl e"
    then show ?thesis using ensureConnected_silent [of os ep t s] unsent [of "[]" request e] by auto
  next
    fix c s2
    assume c: "ensureConnected os ep t s = Some (Inr c, s2)"
      and rest: "bindP (on_history (sendAll os c request)) (\<lambda>_.
        bindP (on_history (readFramed os c)) (\<lambda>(raw, server_closed).
        bindP (parse_prog raw) (\<lambda>response s.
          ret response (if server_closed \<or> wantsClose raw then drop_connection s else s)))) s2 = Some (r, s1)"
    obtain conn h where s2: "s2 = (conn, h)" by fastforce
    show ?thesis using conversation_attempted [OF rest [unfolded s2]] ensureConnected_silent [OF c] s2 by simp
  qed
  then show ?thesis using s' drop_silent [of s1] by auto
qed

interpretation http_trace: retry_trace "\<lambda>s. traffic (snd s)" "attempted request" "roundTrip os ep request t"
    defaultSleep "defaultJitter os"
  for os ep request t
  by unfold_locales (auto simp: roundTrip_attempted defaultSleep_def defaultJitter_def Let_def)


section \<open>Exchanges and the whole life of a client\<close>

definition exchanged :: "RetryPolicy \<Rightarrow> string \<Rightarrow> HttpResponse result \<Rightarrow> packet list \<Rightarrow> bool" where
  "exchanged policy request =
     retried (\<lambda>r. isRetryableHttpStatus (hr_status r)) (attempted request) (nat (rp_max_attempts policy) - 1)"

text \<open>A random source in the unit interval, as \<open>std::uniform_real_distribution\<close> is documented.\<close>

definition unit_random :: "os \<Rightarrow> bool" where
  "unit_random os = (\<forall>h. unit_double (os_random os h))"

lemma withRetry_exchanged:
  assumes "valid_policy p" "unit_random os" "withRetry os p (roundTrip os ep request t) s = Some (r, s')"
  shows "\<exists>xs. traffic (snd s') = traffic (snd s) @ xs \<and> exchanged p request r xs"
proof -
  have "unit_double (fst (defaultJitter os w))" for w
    using assms(2) by (simp add: unit_random_def defaultJitter_def Let_def)
  from http_trace.run_traces [OF assms(1) this assms(3) [unfolded withRetry_def]] show ?thesis
    unfolding exchanged_def .
qed

text \<open>
  C3: one exchange on the wire, whatever the network does. The bytes that travel during an exchange are
  those of a sequence of attempts within the limit of the policy. Each attempt sends the request once,
  from its beginning, before it reads anything, and reads no further than the first complete response;
  only after a failure or a transient status does another attempt follow. The result of the exchange
  is what the last attempt has read, and the client is unchanged.
\<close>

theorem http_exchange_traffic:
  assumes "valid_policy (cl_retry_policy cl)" "unit_random os"
    and "exchange os ep request (cl, (conn, h)) = Some (r, (cl', (conn', h')))"
  shows "cl' = cl \<and> (\<exists>xs. traffic h' = traffic h @ xs \<and> exchanged (cl_retry_policy cl) request r xs)"
proof -
  have "withRetry os (cl_retry_policy cl) (roundTrip os ep request (cl_timeout_ms cl)) (conn, h) = Some (r, (conn', h'))"
    "cl' = cl"
    using assms(3) by (auto simp: exchange_def get_client_def on_conn_def bindP_def prog_basic)
  then show ?thesis using withRetry_exchanged [OF assms(1,2)] by fastforce
qed

inductive dialogue :: "HttpClient \<Rightarrow> packet list \<Rightarrow> bool" for cl where
  silence: "dialogue cl []"
| exchange: "dialogue cl xs \<Longrightarrow> parseEndpoint (cl_endpoint cl) 8080 = Inr ep \<Longrightarrow> issued cl ep request \<Longrightarrow>
    exchanged (cl_retry_policy cl) request r ys \<Longrightarrow> dialogue cl (xs @ ys)"

definition orderly :: "os \<Rightarrow> HttpClient \<Rightarrow> http_state \<Rightarrow> bool" where
  "orderly os cl s = (if valid_policy (cl_retry_policy cl) \<and> unit_random os then dialogue cl (traffic (snd s)) else True)"

interpretation http_orderly: exchange_invariant os cl0 "orderly os cl0" for os cl0
proof
  fix ep request s r s'
  assume ep: "parseEndpoint (cl_endpoint cl0) 8080 = Inr ep" "issued cl0 ep request" and o: "orderly os cl0 s"
    and r: "withRetry os (cl_retry_policy cl0) (roundTrip os ep request (cl_timeout_ms cl0)) s = Some (r, s')"
  have "dialogue cl0 (traffic (snd s'))" if v: "valid_policy (cl_retry_policy cl0)" "unit_random os"
  proof -
    from withRetry_exchanged [OF v r] obtain xs
      where "traffic (snd s') = traffic (snd s) @ xs" "exchanged (cl_retry_policy cl0) request r xs" by blast
    then show ?thesis using dialogue.exchange [OF _ ep] o v unfolding orderly_def by simp
  qed
  then show "orderly os cl0 s'" unfolding orderly_def by simp
qed

text \<open>
  C4: the wire protocol of a client over its whole life, whatever network and server do. All that a
  client with a valid policy ever sends and receives, over any sequence of calls, is a sequence of
  exchanges as above, one after the other and never interleaved, each of a request that the client built
  for its endpoint with its bearer token.
\<close>

theorem http_run_dialogue:
  assumes "valid_policy (cl_retry_policy cl)" "unit_random os"
    and "client_run (http_iclient os J) (cl, (new_connection, [])) (cl', s')"
  shows "dialogue cl (traffic (snd s'))"
proof -
  have "serving cl (orderly os cl) (cl, (new_connection, []))"
    unfolding serving_def by (simp add: same_client_refl orderly_def silence)
  then have "orderly os cl s'" using http_orderly.run_keeps [OF assms(3), of cl] by (simp add: serving_def)
  then show ?thesis using assms(1,2) by (simp add: orderly_def)
qed

section \<open>Witnesses\<close>

lemma demo_policy_valid: "valid_policy demo_policy"
  by (simp add: valid_policy_def demo_policy_def rnd_def)

lemma demo_random: "unit_random demo_server"
  by (simp add: unit_random_def unit_double_def demo_server_def script_os_def)

theorem http_exchange_traffic_witness:
  "\<exists>xs. exchanged demo_policy ''abc'' (Inr \<lparr>hr_status = 200, hr_body = ''{}123'', hr_inference_header_length = 2\<rparr>) xs \<and>
     sent_text xs = ''abc''"
proof -
  let ?r = "Inr \<lparr>hr_status = 200, hr_body = ''{}123'', hr_inference_header_length = 2\<rparr>"
  have "map_option (\<lambda>(r, s). (r, sent_text (traffic (snd (snd s))) = ''abc''))
      (exchange demo_server demo_endpoint ''abc'' (demo_client, (new_connection, []))) = Some (?r, True)"
    by code_simp
  then obtain cl' conn' h' where e: "exchange demo_server demo_endpoint ''abc'' (demo_client, (new_connection, [])) = Some (?r, (cl', (conn', h')))"
    "sent_text (traffic h') = ''abc''"
    by auto
  have p: "cl_retry_policy demo_client = demo_policy" by (simp add: demo_client_def)
  from http_exchange_traffic [OF _ demo_random e(1)] show ?thesis
    using e(2) demo_policy_valid unfolding p by auto
qed

theorem http_run_dialogue_witness:
  "\<exists>s'. client_run (http_iclient demo_server plain_json) (demo_client, (new_connection, [])) (demo_client, s') \<and>
     dialogue demo_client (traffic (snd s')) \<and> traffic (snd s') \<noteq> []"
proof -
  let ?w = "(demo_client, (new_connection, []))"
  have "map_option (\<lambda>(r, s'). (fst s' = demo_client, traffic (snd (snd s')) \<noteq> [])) (http_serverLive demo_server ?w) = Some (True, True)"
    by code_simp
  then obtain r s' where s': "http_serverLive demo_server ?w = Some (r, (demo_client, s'))" "traffic (snd s') \<noteq> []"
    by (auto split: prod.splits)
  then have run: "client_run (http_iclient demo_server plain_json) ?w (demo_client, s')"
    by (intro client_run.call [OF client_run.start] client_step.live) (simp add: http_iclient_def)
  have "valid_policy (cl_retry_policy demo_client)" using demo_policy_valid by (simp add: demo_client_def)
  from http_run_dialogue [OF this demo_random run] show ?thesis using run s'(2) by blast
qed

end
