(* ===== verification/Http_Request.thy ===== *)
theory Http_Request
  imports Http_Framing
begin

text \<open>
  What a server makes of the bytes of a request. The reader below is written from the rules of
  HTTP/1.1, not from \<open>buildRequest\<close>: a request line of three words, one header field per line, a
  blank line and a body of the announced length. It refuses a request without exactly one \<open>Host\<close> and
  exactly one \<open>Content-Length\<close>, with a \<open>Transfer-Encoding\<close>, or with a body of another length.
\<close>

section \<open>A reader of requests\<close>

record request_message =
  req_verb :: string
  req_target :: string
  req_fields :: "(string \<times> string) list"
  req_body :: string

definition is_blank :: "char \<Rightarrow> bool" where
  "is_blank c = (c = CHR '' '' \<or> c = CHR 0x09)"

definition trim :: "string \<Rightarrow> string" where
  "trim s = rev (dropWhile is_blank (rev (dropWhile is_blank s)))"

function read_lines :: "string \<Rightarrow> string list" where
  "read_lines s =
     (case find_str crlf s of
        None \<Rightarrow> [s]
      | Some i \<Rightarrow> take i s # read_lines (drop (i + 2) s))"
  by pat_completeness auto
termination
proof (relation "measure length")
  fix s :: string and i assume "find_str crlf s = Some i"
  then show "(drop (i + 2) s, s) \<in> measure length" using find_str_bound [of crlf s i] by simp
qed simp

declare read_lines.simps [simp del]

definition read_request_line :: "string \<Rightarrow> (string \<times> string) option" where
  "read_request_line l =
     (case find_str '' '' l of
        None \<Rightarrow> None
      | Some i \<Rightarrow>
          let rest = drop (i + 1) l
          in case find_str '' '' rest of
               None \<Rightarrow> None
             | Some j \<Rightarrow>
                 if 0 < i \<and> 0 < j \<and> drop (j + 1) rest = ''HTTP/1.1'' then Some (take i l, take j rest) else None)"

definition read_field :: "string \<Rightarrow> (string \<times> string) option" where
  "read_field l =
     (case find_str '':'' l of
        None \<Rightarrow> None
      | Some i \<Rightarrow>
          if 0 < i \<and> list_all (\<lambda>c. \<not> is_blank c) (take i l) then Some (take i l, trim (drop (i + 1) l)) else None)"

definition read_decimal :: "string \<Rightarrow> nat option" where
  "read_decimal s = (if s \<noteq> [] \<and> list_all (is_digit_in 10) s then Some (digits_value 10 s) else None)"

text \<open>The values of a field; its name is compared without regard to case.\<close>

definition field_values :: "string \<Rightarrow> (string \<times> string) list \<Rightarrow> string list" where
  "field_values name hs = map snd (filter (\<lambda>(n, v). to_lower n = name) hs)"

definition read_request :: "string \<Rightarrow> request_message option" where
  "read_request s =
     (case find_str header_terminator s of
        None \<Rightarrow> None
      | Some i \<Rightarrow>
          let lines = read_lines (take i s); body = drop (i + 4) s
          in Option.bind (read_request_line (hd lines)) (\<lambda>(verb, target).
             Option.bind (those (map read_field (tl lines))) (\<lambda>hs.
               if length (field_values ''host'' hs) = 1 \<and> field_values ''transfer-encoding'' hs = [] \<and>
                  map read_decimal (field_values ''content-length'' hs) = [Some (length body)]
               then Some \<lparr>req_verb = verb, req_target = target, req_fields = hs, req_body = body\<rparr>
               else None)))"

section \<open>Text that can stand in a request\<close>

text \<open>A word of the request line, the name and the value of a field.\<close>

definition request_word :: "string \<Rightarrow> bool" where
  "request_word w = (w \<noteq> [] \<and> list_all (\<lambda>c. c \<notin> {CHR 0x0D, CHR 0x0A, CHR '' ''}) w)"

definition field_name :: "string \<Rightarrow> bool" where
  "field_name n = (n \<noteq> [] \<and> list_all (\<lambda>c. c \<notin> {CHR 0x0D, CHR 0x0A, CHR '' '', CHR 0x09, CHR '':''}) n)"

definition field_value :: "string \<Rightarrow> bool" where
  "field_value v =
     (v \<noteq> [] \<and> list_all (\<lambda>c. c \<notin> {CHR 0x0D, CHR 0x0A}) v \<and> \<not> is_blank (hd v) \<and> \<not> is_blank (last v))"

definition field_line :: "string \<times> string \<Rightarrow> string" where
  "field_line f = fst f @ '': '' @ snd f"

definition request_start :: "string \<Rightarrow> string \<Rightarrow> string" where
  "request_start verb target = verb @ '' '' @ target @ '' HTTP/1.1''"

lemma read_lines_header:
  "CHR 0x0D \<notin> set start \<Longrightarrow> list_all clean_line hs \<Longrightarrow> read_lines (start @ header_text hs) = start # hs"
proof (induction hs arbitrary: start)
  case Nil
  then have "find_str crlf start = None"
    using contains_str_iff [of crlf start] by (auto simp: contains_str_def crlf_def)
  then show ?case by (simp add: read_lines.simps [of start])
next
  case (Cons h hs)
  have f: "find_str crlf (start @ crlf @ h @ header_text hs) = Some (length start)"
    using find_str_append [OF Cons.prems(1), of "[CHR 0x0A]"] by (simp add: crlf_def)
  show ?case
    using Cons by (subst read_lines.simps) (simp add: f clean_line_def)
qed

lemma read_request_line_start:
  assumes "request_word verb" "request_word target"
  shows "read_request_line (request_start verb target) = Some (verb, target)"
proof -
  have "CHR '' '' \<notin> set verb" "CHR '' '' \<notin> set target" "verb \<noteq> []" "target \<noteq> []"
    using assms by (auto simp: request_word_def list_all_iff)
  then show ?thesis
    by (simp add: read_request_line_def request_start_def find_str_char del: find_str.simps)
qed

lemma trim_value: "field_value v \<Longrightarrow> trim (CHR '' '' # v) = v"
proof -
  assume v: "field_value v"
  then have "dropWhile is_blank (CHR '' '' # v) = v"
    by (cases v) (auto simp: field_value_def is_blank_def)
  moreover have "v \<noteq> []" "\<not> is_blank (last v)" using v by (simp_all add: field_value_def)
  then have "dropWhile is_blank (rev v) = rev v" by (cases v rule: rev_cases) simp_all
  ultimately show ?thesis by (simp add: trim_def)
qed

lemma read_field_line:
  assumes "field_name n" "field_value v"
  shows "read_field (field_line (n, v)) = Some (n, v)"
proof -
  have "CHR '':'' \<notin> set n" "list_all (\<lambda>c. \<not> is_blank c) n" "n \<noteq> []"
    using assms(1) by (auto simp: field_name_def list_all_iff is_blank_def)
  then show ?thesis
    using trim_value [OF assms(2)] by (simp add: read_field_def field_line_def find_str_char del: find_str.simps)
qed

lemma read_fields_lines:
  "list_all (\<lambda>(n, v). field_name n \<and> field_value v) fs \<Longrightarrow> those (map read_field (map field_line fs)) = Some fs"
  by (induction fs) (auto simp: read_field_line)

lemma field_lines_clean:
  "list_all (\<lambda>(n, v). field_name n \<and> field_value v) fs \<Longrightarrow> list_all clean_line (map field_line fs)"
  by (induction fs) (auto simp: clean_line_def field_line_def field_name_def field_value_def list_all_iff)

lemma read_decimal_string_of_nat: "read_decimal (string_of_nat n) = Some n"
  using string_of_nat_chars [of _ n] digits_value_to_base [of 10 n]
  by (auto simp: read_decimal_def list_all_iff) (simp add: string_of_nat_def)

lemma read_decimal_value: "field_value (string_of_nat n)"
proof -
  have c: "\<not> is_blank c \<and> c \<noteq> CHR 0x0D \<and> c \<noteq> CHR 0x0A" if "c \<in> set (string_of_nat n)" for c
    using digit_not_special [OF string_of_nat_chars [OF that]] by (auto simp: is_blank_def is_space_def)
  then show ?thesis using hd_in_set [of "string_of_nat n"] last_in_set [of "string_of_nat n"]
    by (auto simp: field_value_def list_all_iff)
qed

text \<open>A message of such parts is read as what it was made of, once all of it is there, and not before.\<close>

lemma read_message:
  assumes "request_word verb" "request_word target" "list_all (\<lambda>(n, v). field_name n \<and> field_value v) fs"
    and "length (field_values ''host'' fs) = 1" "field_values ''transfer-encoding'' fs = []"
    and "field_values ''content-length'' fs = [string_of_nat (length body)]"
  defines "m \<equiv> http_message (request_start verb target) (map field_line fs) body"
  shows "read_request (take k m) =
    (if length m \<le> k then Some \<lparr>req_verb = verb, req_target = target, req_fields = fs, req_body = body\<rparr> else None)"
proof -
  let ?start = "request_start verb target" and ?hs = "map field_line fs"
  let ?head = "?start @ header_text ?hs"
  have st: "CHR 0x0D \<notin> set ?start" using assms(1,2) by (auto simp: request_start_def request_word_def list_all_iff)
  note clean = field_lines_clean [OF assms(3)]
  note so_far = message_so_far [OF clean st, of k body, folded m_def] and len = length_message [of ?start ?hs body, folded m_def]
  show ?thesis
  proof (cases "length ?head + 4 \<le> k")
    case False
    then show ?thesis using so_far(1) len by (simp add: read_request_def)
  next
    case True
    have b: "drop (length ?head + 4) (take k m) = take (k - (length ?head + 4)) body"
      by (simp only: drop_take) (simp add: m_def http_message_def)
    have n: "length (take (k - (length ?head + 4)) body) = length body \<longleftrightarrow> length m \<le> k" using True len by auto
    have r: "read_request (take k m) =
        (if length (take (k - (length ?head + 4)) body) = length body
         then Some \<lparr>req_verb = verb, req_target = target, req_fields = fs,
                   req_body = take (k - (length ?head + 4)) body\<rparr> else None)"
      unfolding read_request_def so_far(1) Let_def
      by (simp only: True if_True option.case so_far(2) [OF True] read_lines_header [OF st clean] list.sel
          read_request_line_start [OF assms(1,2)] read_fields_lines [OF assms(3)] b Option.bind.simps prod.case
          assms(4-6) list.map read_decimal_string_of_nat list.inject option.inject simp_thms eq_commute [of "length body"])
    show ?thesis unfolding r n using True len by auto
  qed
qed

section \<open>The requests of the client\<close>

text \<open>The fields of a request, and the text of those that an operation adds.\<close>

definition request_fields ::
    "Endpoint \<Rightarrow> string \<Rightarrow> string \<Rightarrow> (string \<times> string) list \<Rightarrow> string \<Rightarrow> (string \<times> string) list" where
  "request_fields ep auth_token content_type extra body =
     [(''Host'', ep_host ep), (''Connection'', ''keep-alive'')] @
     (if content_type \<noteq> [] then [(''Content-Type'', content_type)] else []) @
     (if auth_token \<noteq> [] then [(''Authorization'', ''Bearer '' @ auth_token)] else []) @
     extra @ [(''Content-Length'', string_of_nat (length body))]"

definition fields_text :: "(string \<times> string) list \<Rightarrow> string" where
  "fields_text fs = concat (map (\<lambda>f. field_line f @ crlf) fs)"

lemma header_text_fields: "crlf @ fields_text fs = header_text (map field_line fs) @ crlf"
proof (induction fs)
  case (Cons f fs)
  have "crlf @ fields_text (f # fs) = crlf @ field_line f @ crlf @ fields_text fs" by (simp add: fields_text_def)
  then show ?case using Cons by simp
qed (simp add: fields_text_def)

lemma buildRequest_message:
  "buildRequest verb ep target auth_token content_type (fields_text extra) body =
     http_message (request_start verb target)
       (map field_line (request_fields ep auth_token content_type extra body)) body"
proof -
  let ?fs = "request_fields ep auth_token content_type extra body"
  have "buildRequest verb ep target auth_token content_type (fields_text extra) body =
      request_start verb target @ (crlf @ fields_text ?fs) @ crlf @ body"
    by (simp add: buildRequest_def request_start_def request_fields_def fields_text_def field_line_def)
  then show ?thesis unfolding header_text_fields by (simp add: http_message_def header_terminator_def)
qed

text \<open>The parts of a request that come from the caller and the environment, fit to stand in it.\<close>

definition sendable_parts :: "Endpoint \<Rightarrow> string \<Rightarrow> string \<Rightarrow> (string \<times> string) list \<Rightarrow> bool" where
  "sendable_parts ep auth_token content_type extra \<longleftrightarrow>
     field_value (ep_host ep) \<and> (auth_token = [] \<or> field_value auth_token) \<and>
     (content_type = [] \<or> field_value content_type) \<and>
     list_all (\<lambda>(n, v). field_name n \<and> field_value v \<and>
       to_lower n \<notin> {''host'', ''content-length'', ''transfer-encoding''}) extra"

lemma lower_names:
  "to_lower ''Host'' = ''host''" "to_lower ''Connection'' = ''connection''"
  "to_lower ''Content-Type'' = ''content-type''" "to_lower ''Authorization'' = ''authorization''"
  "to_lower ''Content-Length'' = ''content-length''"
  by code_simp+

lemma request_fields_facts:
  assumes "sendable_parts ep auth_token content_type extra"
  shows "list_all (\<lambda>(n, v). field_name n \<and> field_value v) (request_fields ep auth_token content_type extra body)"
    "length (field_values ''host'' (request_fields ep auth_token content_type extra body)) = 1"
    "field_values ''transfer-encoding'' (request_fields ep auth_token content_type extra body) = []"
    "field_values ''content-length'' (request_fields ep auth_token content_type extra body) = [string_of_nat (length body)]"
proof -
  let ?fs = "request_fields ep auth_token content_type extra body"
  have c: "field_name ''Host''" "field_name ''Connection''" "field_value ''keep-alive''" "field_name ''Content-Type''"
    "field_name ''Authorization''" "field_name ''Content-Length''"
    by code_simp+
  have b: "field_value (''Bearer '' @ t)" if "field_value t" for t
    using that by (auto simp: field_value_def is_blank_def)
  have x: "list_all (\<lambda>(n, v). field_name n \<and> field_value v) extra"
    using assms by (auto simp: sendable_parts_def list_all_iff)
  show "list_all (\<lambda>(n, v). field_name n \<and> field_value v) ?fs"
    using assms c b x read_decimal_value by (auto simp: request_fields_def sendable_parts_def)
  have none: "filter (\<lambda>(n, v). to_lower n = k) extra = []" if "k \<in> {''host'', ''content-length'', ''transfer-encoding''}" for k
    using assms that by (auto simp: sendable_parts_def list_all_iff filter_empty_conv)
  show "length (field_values ''host'' ?fs) = 1" "field_values ''transfer-encoding'' ?fs = []"
    "field_values ''content-length'' ?fs = [string_of_nat (length body)]"
    using none by (auto simp: request_fields_def field_values_def lower_names)
qed

lemma read_built:
  assumes "request_word verb" "request_word target" "sendable_parts ep auth_token content_type extra"
  shows "read_request (take k (buildRequest verb ep target auth_token content_type (fields_text extra) body)) =
    (if length (buildRequest verb ep target auth_token content_type (fields_text extra) body) \<le> k
     then Some \<lparr>req_verb = verb, req_target = target,
                req_fields = request_fields ep auth_token content_type extra body, req_body = body\<rparr>
     else None)"
  unfolding buildRequest_message using read_message [OF assms(1,2) request_fields_facts [OF assms(3)]] .

lemma read_built_whole:
  assumes "request_word verb" "request_word target" "sendable_parts ep auth_token content_type extra"
  shows "read_request (buildRequest verb ep target auth_token content_type (fields_text extra) body) =
    Some \<lparr>req_verb = verb, req_target = target,
          req_fields = request_fields ep auth_token content_type extra body, req_body = body\<rparr>"
  using read_built [OF assms, of "length (buildRequest verb ep target auth_token content_type (fields_text extra) body)" body]
  by simp

section \<open>Properties\<close>

text \<open>
  C37: what a server reads from the bytes of a request. A reader of HTTP/1.1 requests that knows nothing
  of the client finds in what \<open>buildRequest\<close> writes exactly the method, the target, the fields
  \<open>Host\<close>, \<open>Connection: keep-alive\<close>, \<open>Content-Type\<close> and \<open>Authorization: Bearer\<close> when given, the
  fields the operation adds and the \<open>Content-Length\<close>, in this order, and the body byte for byte; and it
  finds them when the last byte has arrived and not before. The parts must be fit for a request: the
  method and the target hold no space, carriage return or line feed and are not empty; the host, the
  token and the content type hold no carriage return or line feed and no blank at either end. The
  client does not check this: \<open>token_adds_field\<close> shows what a token with a line break does.
\<close>

theorem buildRequest_read:
  assumes "request_word verb" and "request_word target"
    and "field_value (ep_host ep)" and "auth_token = [] \<or> field_value auth_token"
    and "content_type = [] \<or> field_value content_type"
    and "list_all (\<lambda>(n, v). field_name n \<and> field_value v \<and>
           to_lower n \<notin> {''host'', ''content-length'', ''transfer-encoding''}) extra"
  shows "read_request (take k (buildRequest verb ep target auth_token content_type (fields_text extra) body)) =
    (if length (buildRequest verb ep target auth_token content_type (fields_text extra) body) \<le> k
     then Some
       \<lparr>req_verb = verb, req_target = target,
        req_fields =
          [(''Host'', ep_host ep), (''Connection'', ''keep-alive'')] @
          (if content_type \<noteq> [] then [(''Content-Type'', content_type)] else []) @
          (if auth_token \<noteq> [] then [(''Authorization'', ''Bearer '' @ auth_token)] else []) @
          extra @ [(''Content-Length'', string_of_nat (length body))],
        req_body = body\<rparr>
     else None)"
proof -
  have "sendable_parts ep auth_token content_type extra" using assms(3-6) by (simp add: sendable_parts_def)
  from read_built [OF assms(1,2) this] show ?thesis by (simp only: request_fields_def)
qed

theorem buildRequest_read_witness:
  "read_request (buildRequest ''POST'' \<lparr>ep_host = ''h'', ep_port = 80, ep_path_prefix = [], ep_tls = False\<rparr>
      ''/v2/models/m/infer'' ''tok'' ''application/octet-stream'' (''Inference-Header-Content-Length: 2'' @ crlf) ''{}x'') =
    Some \<lparr>req_verb = ''POST'', req_target = ''/v2/models/m/infer'',
      req_fields = [(''Host'', ''h''), (''Connection'', ''keep-alive''), (''Content-Type'', ''application/octet-stream''),
        (''Authorization'', ''Bearer tok''), (''Inference-Header-Content-Length'', ''2''), (''Content-Length'', ''3'')],
      req_body = ''{}x''\<rparr>"
proof -
  let ?ep = "\<lparr>ep_host = ''h'', ep_port = 80, ep_path_prefix = [], ep_tls = False\<rparr>"
  let ?xs = "[(''Inference-Header-Content-Length'', ''2'')]"
  let ?rq = "buildRequest ''POST'' ?ep ''/v2/models/m/infer'' ''tok'' ''application/octet-stream'' (fields_text ?xs) ''{}x''"
  have c: "request_word ''POST''" "request_word ''/v2/models/m/infer''" "field_value (ep_host ?ep)"
    "''tok'' = [] \<or> field_value ''tok''" "''application/octet-stream'' = [] \<or> field_value ''application/octet-stream''"
    "list_all (\<lambda>(n, v). field_name n \<and> field_value v \<and> to_lower n \<notin> {''host'', ''content-length'', ''transfer-encoding''}) ?xs"
    by code_simp+
  have x: "fields_text ?xs = ''Inference-Header-Content-Length: 2'' @ crlf" "string_of_nat (length ''{}x'') = ''3''"
    by code_simp+
  show ?thesis
    using buildRequest_read [OF c, of "length ?rq" "''{}x''"] unfolding x by simp
qed

text \<open>
  The token comes from the environment (\<open>KSERVE_BEARER_TOKEN\<close>) and is written as it is. A line break in
  it ends the field, and a server reads what follows as a field of its own.
\<close>

lemma token_adds_field:
  "map_option req_fields (read_request (buildRequest ''GET'' \<lparr>ep_host = ''h'', ep_port = 80, ep_path_prefix = [], ep_tls = False\<rparr>
      ''/v2/health/live'' (''tok'' @ crlf @ ''X-Other: yes'') [] [] [])) =
    Some [(''Host'', ''h''), (''Connection'', ''keep-alive''), (''Authorization'', ''Bearer tok''),
      (''X-Other'', ''yes''), (''Content-Length'', ''0'')]"
  by code_simp

end
