(* ===== verification/Http_Inference.thy ===== *)
theory Http_Inference
  imports Http_Client Http_Request
begin

text \<open>
  What the operations of the HTTP client mean for its caller and for a server: what an inference sends
  and returns, what it refuses, what a metadata call remembers and returns, and the model repository.
\<close>

section \<open>Requests that cannot be encoded\<close>

definition http_sendable :: "bool \<Rightarrow> InferInput \<Rightarrow> bool" where
  "http_sendable binary x =
     (case ii_data x of
        None \<Rightarrow> False
      | Some bytes \<Rightarrow> binary \<or> json_datatype (ii_datatype x) \<and> datatypeByteWidth (ii_datatype x) dvd length bytes)"

lemma encodeTensorData_ok:
  "is_ok (encodeTensorData J bytes dt) \<longleftrightarrow> json_datatype dt \<and> datatypeByteWidth dt dvd length bytes"
proof (cases "json_datatype dt")
  case True
  then show ?thesis using encode_error_json [OF True, of J bytes]
    by (cases "encodeTensorData J bytes dt") auto
next
  case False
  then show ?thesis by (simp add: not_json_datatype(1))
qed

lemma encode_inputs_ok: "is_ok (encode_inputs J binary inputs blob) \<longleftrightarrow> list_all (http_sendable binary) inputs"
proof (induction inputs arbitrary: blob)
  case (Cons x inputs)
  have rest: "is_ok (bindR (encode_inputs J binary inputs b) (\<lambda>(nodes, b2). Inr (n # nodes, b2))) \<longleftrightarrow>
      list_all (http_sendable binary) inputs" for n b
    using Cons.IH [of b] by (cases "encode_inputs J binary inputs b") auto
  show ?case
  proof (cases "ii_data x")
    case None
    then show ?thesis by (simp add: http_sendable_def)
  next
    case (Some bytes)
    show ?thesis
    proof (cases binary)
      case True
      then show ?thesis using rest
        by (cases "appendBinaryInput J (ii_name x) (ii_datatype x) (ii_shape x) bytes blob")
          (simp add: Some http_sendable_def [of _ x])
    next
      case False
      then show ?thesis using rest encodeTensorData_ok [of J bytes "ii_datatype x"]
        by (cases "encodeTensorData J bytes (ii_datatype x)") (auto simp: Some http_sendable_def [of _ x])
    qed
  qed
qed simp

lemma infer_unsendable:
  assumes "\<not> list_all (http_sendable (binaryEnabled os)) inputs"
  shows "\<exists>e. http_infer os J inputs s = Some (Inl e, s)"
proof (cases "parseEndpoint (cl_endpoint (fst s)) 8080")
  case (Inl e)
  then show ?thesis by (simp add: http_infer_def get_client_def bindP_def prog_basic)
next
  case (Inr ep)
  obtain e where "encode_inputs J (binaryEnabled os) inputs [] = Inl e"
    using encode_inputs_ok [of J "binaryEnabled os" inputs "[]"] assms
    by (cases "encode_inputs J (binaryEnabled os) inputs []") auto
  then show ?thesis using Inr by (simp add: http_infer_def get_client_def bindP_def prog_basic Let_def)
qed

text \<open>
  C34: what the HTTP client refuses to send. Encoding succeeds exactly when every input has data and,
  unless the binary extension is on, a supported datatype and whole elements; otherwise \<open>infer\<close>
  throws and neither the client, nor its connection, nor the history of system calls has changed.
\<close>

theorem http_infer_rejects:
  "if list_all (http_sendable (binaryEnabled os)) inputs then is_ok (encode_inputs J (binaryEnabled os) inputs [])
   else \<exists>e. http_infer os J inputs s = Some (Inl e, s)"
  using encode_inputs_ok [of J "binaryEnabled os" inputs "[]"] infer_unsendable [of os inputs J s] by simp

section \<open>Metadata\<close>

lemma read_outputs_spec:
  "read_outputs J nodes (cl, w) = Some (r, s') \<Longrightarrow>
     (\<exists>ns. fst s' = cl\<lparr>cl_output_names := cl_output_names cl @ ns\<rparr> \<and> snd s' = w \<and>
        (\<forall>specs. r = Inr specs \<longrightarrow> ns = map ts_name specs))"
proof (induction nodes arbitrary: cl r s')
  case Nil
  then show ?case by (auto simp: prog_basic intro: exI [of _ "[]"])
next
  case (Cons node nodes)
  show ?case
  proof (cases "read_spec J node")
    case (Inl e)
    then show ?thesis using Cons.prems by (auto simp: bindP_def prog_basic intro: exI [of _ "[]"])
  next
    case (Inr spec)
    then have n: "string_at J node ''name'' = Inr (ts_name spec)"
      by (auto simp: read_spec_def bindR_eq_Inr)
    let ?cl = "cl\<lparr>cl_output_names := cl_output_names cl @ [ts_name spec]\<rparr>"
    have "read_outputs J (node # nodes) (cl, w) =
        bindP (read_outputs J nodes) (\<lambda>specs. ret (spec # specs)) (?cl, w)"
      using Inr n by (simp add: bindP_def prog_basic set_output_names_def)
    then have "bindP (read_outputs J nodes) (\<lambda>specs. ret (spec # specs)) (?cl, w) = Some (r, s')"
      using Cons.prems by simp
    then show ?thesis
    proof (rule bindP_cases)
      fix e assume "read_outputs J nodes (?cl, w) = Some (Inl e, s')" "r = Inl e"
      then obtain ns where "fst s' = ?cl\<lparr>cl_output_names := cl_output_names ?cl @ ns\<rparr>" "snd s' = w"
        using Cons.IH by blast
      then show ?thesis using \<open>r = Inl e\<close> by (intro exI [of _ "ts_name spec # ns"]) simp
    next
      fix specs s1 assume "read_outputs J nodes (?cl, w) = Some (Inr specs, s1)" "ret (spec # specs) s1 = Some (r, s')"
      then obtain ns where "fst s1 = ?cl\<lparr>cl_output_names := cl_output_names ?cl @ ns\<rparr>" "snd s1 = w"
        "ns = map ts_name specs" "r = Inr (spec # specs)" "s' = s1"
        using Cons.IH unfolding prog_basic option.inject prod.inject by blast
      then show ?thesis by (intro exI [of _ "ts_name spec # ns"]) simp
    qed
  qed
qed

text \<open>What a metadata call does to the members of the client.\<close>

lemma metadata_effect:
  assumes "http_modelMetadata os J (cl, w) = Some (r, s')"
  shows "(\<exists>ns. fst s' = cl\<lparr>cl_output_names := ns\<rparr>) \<and>
    (\<forall>md. r = Inr md \<longrightarrow> cl_output_names (fst s') = map ts_name (mm_outputs md))"
proof -
  have same: "\<exists>ns. cl = cl\<lparr>cl_output_names := ns\<rparr>" by (intro exI [of _ "cl_output_names cl"]) simp
  let ?P = "\<lambda>(s :: client_state). fst s = cl"
  let ?Q = "\<lambda>(md :: ModelMetadata) s. fst s = cl\<lparr>cl_output_names := map ts_name (mm_outputs md)\<rparr>"
  let ?E = "\<lambda>(e :: exn) (s :: client_state). \<exists>ns. fst s = cl\<lparr>cl_output_names := ns\<rparr>"
  have pure: "triple ?P (of_result x) (\<lambda>_. ?P) ?E" for x :: "'x result"
    using same by (auto simp: triple_def prog_basic split: sum.split)
  have ex: "triple ?P (exchange os ep q) (\<lambda>_. ?P) ?E" for ep q
    using exchange_client same by (auto simp: triple_def split: sum.split) (metis fst_conv)+
  have get: "triple ?P get_client (\<lambda>c s. c = cl \<and> ?P s) ?E"
    by (auto simp: triple_def get_client_def prog_basic)
  have thr: "triple ?P (throw e) ?Q ?E" for e
    using same by (auto simp: triple_def prog_basic)
  have last: "triple ?P (bindP (set_output_names (\<lambda>_. [])) (\<lambda>_.
            bindP (of_result o1) (\<lambda>outputs.
            bindP (read_outputs J (js_elems J outputs)) (\<lambda>output_specs.
              ret \<lparr>mm_inputs = i, mm_outputs = output_specs, mm_platform = p\<rparr>)))) ?Q ?E" for o1 i p
  proof -
    let ?C = "\<lambda>(s :: client_state). fst s = cl\<lparr>cl_output_names := []\<rparr>"
    have 1: "triple ?P (set_output_names (\<lambda>_. [])) (\<lambda>_. ?C) ?E"
      by (auto simp: triple_def set_output_names_def prog_basic)
    have 2: "triple ?C (of_result o1) (\<lambda>_. ?C) ?E"
      by (auto simp: triple_def prog_basic split: sum.split)
    have 3: "triple ?C (read_outputs J nodes) (\<lambda>specs s. fst s = cl\<lparr>cl_output_names := map ts_name specs\<rparr>) ?E" for nodes
      using read_outputs_spec [of J nodes "cl\<lparr>cl_output_names := []\<rparr>"] by (intro tripleI) fastforce+
    show ?thesis
      by (rule triple_bind [OF 1], rule triple_bind [OF 2], rule triple_bind [OF 3])
        (auto simp: triple_def prog_basic)
  qed
  have "triple ?P (http_modelMetadata os J) ?Q ?E"
    unfolding http_modelMetadata_def Let_def
    by (rule triple_bind [OF get], rule triple_imp, rule triple_bind [OF pure], rule triple_bind [OF ex],
        intro triple_if thr, rule triple_bind [OF pure], intro triple_if thr,
        rule triple_bind [OF pure], rule triple_bind [OF pure], rule triple_bind [OF pure], rule last)
  from tripleD [OF this, of "(cl, w)"] assms show ?thesis by (cases r) fastforce+
qed

text \<open>
  A metadata call changes nothing of the client but the remembered output names, and after a
  successful one these are exactly the names of the outputs it returned, in order, so that the next
  binary inference asks for all of them.
\<close>

lemma modelMetadata_output_names:
  assumes "http_modelMetadata os J (cl, w) = Some (r, s')"
  shows "(\<exists>ns. fst s' = cl\<lparr>cl_output_names := ns\<rparr>) \<and>
    (\<forall>md. r = Inr md \<longrightarrow> cl_output_names (fst s') = map ts_name (mm_outputs md))"
  using assms by (rule metadata_effect)

section \<open>What an inference returns\<close>

text \<open>The nodes a server sends: the head of a tensor, and either a byte count or the numbers.\<close>

definition head_fields :: "'j json_api \<Rightarrow> InferOutput \<Rightarrow> (string \<times> 'j) list" where
  "head_fields J out =
     [(''name'', js_of_string J (io_name out)), (''datatype'', js_of_string J (io_datatype out)),
      (''shape'', json_shape J (io_shape out))]"

definition binary_node :: "'j json_api \<Rightarrow> InferOutput \<Rightarrow> 'j" where
  "binary_node J out =
     js_object J (head_fields J out @
       [(''parameters'', js_object J [(''binary_data_size'', js_of_uint64 J (word_of_nat (length (io_data out))))])])"

definition json_node :: "'j json_api \<Rightarrow> InferOutput \<Rightarrow> 'j \<Rightarrow> 'j" where
  "json_node J out data = js_object J (head_fields J out @ [(''data'', data)])"

lemma binary_node_append:
  "binary_node J out = fst (appendBinaryInput J (io_name out) (io_datatype out) (io_shape out) (io_data out) blob)"
  by (simp add: binary_node_def appendBinaryInput_def head_fields_def)

lemma readShape_object:
  assumes "json_laws J" "distinct (map fst kvs)" "(''shape'', json_shape J shape) \<in> set kvs"
  shows "readShape J (js_object J kvs) = Inr shape"
proof -
  have "js_contains J (js_object J kvs) ''shape''"
    using assms(3) by (force simp: json_laws_objects(2) [OF assms(1)])
  moreover have "mapR (js_int64 J) (map (js_of_int64 J) shape) = Inr shape"
    using mapR_all_Inr [of shape "\<lambda>w. js_int64 J (js_of_int64 J w)" id] json_laws_numbers(3) [OF assms(1)]
    by (simp add: mapR_map)
  ultimately show ?thesis
    using json_laws_objects(3) [OF assms] by (simp add: readShape_def json_shape_def json_laws_arrays [OF assms(1)])
qed

lemma head_of_node:
  assumes "json_laws J" "k \<notin> {''name'', ''datatype'', ''shape''}"
  shows "read_output_head J (js_object J (head_fields J out @ [(k, v)])) =
    Inr (io_name out, io_datatype out, io_shape out)"
proof -
  let ?kvs = "head_fields J out @ [(k, v)]"
  have d: "distinct (map fst ?kvs)" using assms(2) by (auto simp: head_fields_def)
  have "js_value J (js_object J ?kvs) ''name'' [] = Inr (io_name out)"
    by (rule json_value_object [OF assms(1) d]) (simp add: head_fields_def)
  moreover have "js_value J (js_object J ?kvs) ''datatype'' ''FP32'' = Inr (io_datatype out)"
    by (rule json_value_object [OF assms(1) d]) (simp add: head_fields_def)
  moreover have "readShape J (js_object J ?kvs) = Inr (io_shape out)"
    by (rule readShape_object [OF assms(1) d]) (simp add: head_fields_def)
  ultimately show ?thesis by (simp add: read_output_head_def)
qed

lemma binary_outputs_nodes:
  assumes "json_laws J"
  shows "length pre + length (concat (map io_data outs)) < 2 ^ 63 \<Longrightarrow>
    binary_outputs J (pre @ concat (map io_data outs)) (length pre) (map (binary_node J) outs) = Inr outs"
proof (induction outs arbitrary: pre)
  case (Cons out outs)
  have l: "length (io_data out) < 2 ^ 63" using Cons.prems by simp
  have s: "binaryDataSize J (binary_node J out) = Inr (int (length (io_data out)))"
    unfolding binary_node_append [of J out "[]"] using binaryDataSize_node [OF assms l] .
  have h: "read_output_head J (binary_node J out) = Inr (io_name out, io_datatype out, io_shape out)"
    unfolding binary_node_def by (rule head_of_node [OF assms]) simp
  have "size_of_long (int (length (io_data out))) = length (io_data out)"
    using l by (simp add: size_of_long_nonneg)
  moreover have "sliceBlob (pre @ io_data out @ concat (map io_data outs)) (length pre) (length (io_data out)) = Inr (io_data out)"
    by (rule sliceBlob_append)
  moreover have "add64 (length pre) (length (io_data out)) = length (pre @ io_data out)"
    using Cons.prems by simp
  moreover have "binary_outputs J ((pre @ io_data out) @ concat (map io_data outs)) (length (pre @ io_data out))
      (map (binary_node J) outs) = Inr outs"
    using Cons.prems by (intro Cons.IH) simp
  ultimately show ?case by (simp add: s h make_output_def)
qed simp

text \<open>A response document with the given outputs and whatever else the server adds.\<close>

definition response_doc :: "'j json_api \<Rightarrow> (string \<times> 'j) list \<Rightarrow> 'j list \<Rightarrow> 'j" where
  "response_doc J others nodes = js_object J (others @ [(''outputs'', js_of_array J nodes)])"

lemma outputs_of_doc:
  assumes "json_laws J" "distinct (map fst others)" "''outputs'' \<notin> fst ` set others"
  shows "outputs_of J (response_doc J others nodes) = Inr nodes"
proof -
  let ?kvs = "others @ [(''outputs'', js_of_array J nodes)]"
  have "distinct (map fst ?kvs)" using assms(2,3) by auto
  then have "js_at J (js_object J ?kvs) ''outputs'' = Inr (js_of_array J nodes)"
    by (rule json_laws_objects(3) [OF assms(1)]) simp
  moreover have "js_contains J (js_object J ?kvs) ''outputs''" by (simp add: json_laws_objects(2) [OF assms(1)])
  ultimately show ?thesis by (simp add: outputs_of_def response_doc_def json_laws_arrays [OF assms(1)])
qed

lemma infer_response_binary:
  assumes "json_laws J" "distinct (map fst others)" "''outputs'' \<notin> fst ` set others"
    and "js_parse J header = Inr (response_doc J others (map (binary_node J) outs))"
    and "length header < 2 ^ 63" "length (concat (map io_data outs)) < 2 ^ 63"
  shows "infer_response J \<lparr>hr_status = 200,
      hr_body = header @ map char_of_byte (concat (map io_data outs)),
      hr_inference_header_length = int (length header)\<rparr> = Inr outs"
proof -
  have "size_of_long (int (length header)) = length header" using assms(5) by (simp add: size_of_long_nonneg)
  then show ?thesis
    using binary_outputs_nodes [OF assms(1), of "[]" outs] assms(4,6) outputs_of_doc [OF assms(1-3)]
    by (simp add: infer_response_def splitBinaryBody_def)
qed

lemma json_output_node:
  assumes "json_laws J" "json_datatype (io_datatype out)" "carries_no_nan (io_datatype out) (io_data out)"
    and "encodeTensorData J (io_data out) (io_datatype out) = Inr d"
  shows "json_output J (json_node J out d) = Inr out"
proof -
  let ?kvs = "head_fields J out @ [(''data'', d)]"
  have "datatypeByteWidth (io_datatype out) dvd length (io_data out)"
    using encode_error_json [OF assms(2), of J "io_data out"] assms(4) by (metis sum.distinct(1))
  then have dec: "decodeTensorData J d (io_datatype out) = Inr (io_data out)"
    using codec_inverts [OF assms(1,2) _ assms(3)] assms(4) by simp
  then have arr: "js_is_array J d" by (auto simp: decodeTensorData_def split: if_splits)
  have "distinct (map fst ?kvs)" by (simp add: head_fields_def)
  then have "js_at J (js_object J ?kvs) ''data'' = Inr d"
    by (rule json_laws_objects(3) [OF assms(1)]) simp
  moreover have "js_contains J (js_object J ?kvs) ''data''" by (simp add: json_laws_objects(2) [OF assms(1)])
  ultimately have "inline_data J (js_object J ?kvs) (io_datatype out) = Inr (io_data out)"
    by (simp add: inline_data_def arr dec)
  moreover have "read_output_head J (js_object J ?kvs) = Inr (io_name out, io_datatype out, io_shape out)"
    by (rule head_of_node [OF assms(1)]) simp
  ultimately show ?thesis by (simp add: json_output_def json_node_def make_output_def)
qed

lemma infer_response_json:
  assumes "json_laws J" "distinct (map fst others)" "''outputs'' \<notin> fst ` set others"
    and "list_all2 (\<lambda>out d. encodeTensorData J (io_data out) (io_datatype out) = Inr d) outs datas"
    and "list_all (\<lambda>out. json_datatype (io_datatype out) \<and> carries_no_nan (io_datatype out) (io_data out)) outs"
    and "js_parse J body = Inr (response_doc J others (map (\<lambda>(out, d). json_node J out d) (zip outs datas)))"
  shows "infer_response J \<lparr>hr_status = 200, hr_body = body, hr_inference_header_length = - 1\<rparr> = Inr outs"
proof -
  have "mapR (json_output J) (map (\<lambda>(out, d). json_node J out d) (zip outs datas)) = Inr outs"
    using assms(4,5) by (induction rule: list_all2_induct) (simp_all add: json_output_node [OF assms(1)])
  then show ?thesis using assms(6) outputs_of_doc [OF assms(1-3)] by (simp add: infer_response_def)
qed

text \<open>A response that carries given tensors, in either encoding.\<close>

definition http_carries :: "'j json_api \<Rightarrow> InferOutput list \<Rightarrow> HttpResponse \<Rightarrow> bool" where
  "http_carries J outs resp \<longleftrightarrow>
     json_laws J \<and> hr_status resp = 200 \<and>
     (\<exists>header others datas. distinct (map fst others) \<and> ''outputs'' \<notin> fst ` set others \<and>
        (hr_body resp = header @ map char_of_byte (concat (map io_data outs)) \<and>
         hr_inference_header_length resp = int (length header) \<and>
         js_parse J header = Inr (response_doc J others (map (binary_node J) outs)) \<and>
         length header < 2 ^ 63 \<and> length (concat (map io_data outs)) < 2 ^ 63 \<or>
         hr_body resp = header \<and> hr_inference_header_length resp = - 1 \<and>
         list_all2 (\<lambda>out d. encodeTensorData J (io_data out) (io_datatype out) = Inr d) outs datas \<and>
         list_all (\<lambda>out. json_datatype (io_datatype out) \<and> carries_no_nan (io_datatype out) (io_data out)) outs \<and>
         js_parse J header = Inr (response_doc J others (map (\<lambda>(out, d). json_node J out d) (zip outs datas)))))"

lemma infer_response_carried:
  assumes "http_carries J outs resp"
  shows "infer_response J resp = Inr outs"
proof -
  have r: "resp = \<lparr>hr_status = hr_status resp, hr_body = hr_body resp,
      hr_inference_header_length = hr_inference_header_length resp\<rparr>" by simp
  from assms obtain header others datas where
    h: "json_laws J" "hr_status resp = 200" "distinct (map fst others)" "''outputs'' \<notin> fst ` set others"
    and c: "hr_body resp = header @ map char_of_byte (concat (map io_data outs)) \<and>
         hr_inference_header_length resp = int (length header) \<and>
         js_parse J header = Inr (response_doc J others (map (binary_node J) outs)) \<and>
         length header < 2 ^ 63 \<and> length (concat (map io_data outs)) < 2 ^ 63 \<or>
         hr_body resp = header \<and> hr_inference_header_length resp = - 1 \<and>
         list_all2 (\<lambda>out d. encodeTensorData J (io_data out) (io_datatype out) = Inr d) outs datas \<and>
         list_all (\<lambda>out. json_datatype (io_datatype out) \<and> carries_no_nan (io_datatype out) (io_data out)) outs \<and>
         js_parse J header = Inr (response_doc J others (map (\<lambda>(out, d). json_node J out d) (zip outs datas)))"
    unfolding http_carries_def by blast
  from c show ?thesis
  proof (elim disjE conjE, goal_cases)
    case 1
    then show ?case using infer_response_binary [OF h(1,3,4) 1(3-5)] r h(2) by metis
  next
    case 2
    then show ?case using infer_response_json [OF h(1,3,4) 2(3-5)] r h(2) by metis
  qed
qed

interpretation http_reader: response_reader "infer_response J" "http_carries J" for J :: "'j json_api"
  by unfold_locales (rule infer_response_carried)

text \<open>The request \<open>infer\<close> sends, and the whole call around the exchange.\<close>

definition infer_http_request :: "os \<Rightarrow> HttpClient \<Rightarrow> Endpoint \<Rightarrow> string \<Rightarrow> byte list \<Rightarrow> string" where
  "infer_http_request os cl ep dumped blob =
     (case infer_payload (binaryEnabled os) dumped blob of (content_type, extra_headers, body) \<Rightarrow>
        buildRequest ''POST'' ep (ep_path_prefix ep @ inferPath (cl_model_name cl) (cl_model_version cl))
          (cl_auth_token cl) content_type extra_headers body)"

lemma http_infer_exchange:
  assumes "parseEndpoint (cl_endpoint cl) 8080 = Inr ep"
    and "encode_inputs J (binaryEnabled os) inputs [] = Inr (nodes, blob)"
    and "js_dump J (infer_request J (binaryEnabled os) (cl_output_names cl) nodes) = Inr dumped"
    and "exchange os ep (infer_http_request os cl ep dumped blob) (cl, w) = Some (Inr resp, s')"
  shows "http_infer os J inputs (cl, w) = Some (infer_response J resp, s')"
proof -
  obtain ct xh body where p: "infer_payload (binaryEnabled os) dumped blob = (ct, xh, body)"
    by (cases "infer_payload (binaryEnabled os) dumped blob")
  then show ?thesis
    using assms by (simp add: http_infer_def get_client_def bindP_def prog_basic Let_def infer_http_request_def)
qed

text \<open>
  C7: an inference returns the server's tensors. When the endpoint parses, the inputs encode and the
  retried exchange ends with a 200 response in either of the two encodings (a JSON header followed by
  all payloads, each node carrying its byte count; or one JSON document with number arrays), then
  \<open>infer\<close> returns exactly the outputs the server encoded: names, datatypes, shapes and bytes, in
  order, whatever else the response document holds.
\<close>

theorem http_infer_outputs:
  assumes "parseEndpoint (cl_endpoint cl) 8080 = Inr ep"
    and "encode_inputs J (binaryEnabled os) inputs [] = Inr (nodes, blob)"
    and "js_dump J (infer_request J (binaryEnabled os) (cl_output_names cl) nodes) = Inr dumped"
    and "exchange os ep (infer_http_request os cl ep dumped blob) (cl, w) = Some (Inr resp, s')"
    and "http_carries J outs resp"
  shows "http_infer os J inputs (cl, w) = Some (Inr outs, s')"
  unfolding http_infer_exchange [OF assms(1-4)] using http_reader.reads_carried [OF assms(5)] by simp

section \<open>What an inference sends\<close>

text \<open>An input as the tensor it is.\<close>

definition tensor_of :: "InferInput \<Rightarrow> InferOutput" where
  "tensor_of x = \<lparr>io_name = ii_name x, io_datatype = ii_datatype x, io_shape = ii_shape x, io_data = the (ii_data x)\<rparr>"

text \<open>
  How a server reads an inference from the bytes of a request. The \<open>Inference-Header-Content-Length\<close>
  field says whether and where the body is split into a document and payloads. Each node says how many
  bytes of the payloads are its own, and no byte may be left over; without the field each node holds its
  numbers. Names, datatypes, shapes and counts are read from the nodes afresh, not with the functions
  the client has for responses; only the numbers are turned into bytes by \<open>decodeTensorData\<close>.
\<close>

definition result_value :: "'a result \<Rightarrow> 'a option" where
  "result_value r = (case r of Inl _ \<Rightarrow> None | Inr v \<Rightarrow> Some v)"

definition member :: "'j json_api \<Rightarrow> string \<Rightarrow> 'j \<Rightarrow> 'j option" where
  "member J k j = result_value (js_at J j k)"

definition read_tensor :: "'j json_api \<Rightarrow> 'j \<Rightarrow> byte list \<Rightarrow> InferOutput option" where
  "read_tensor J node bytes =
     Option.bind (Option.bind (member J ''name'' node) (\<lambda>v. result_value (js_string J v))) (\<lambda>n.
     Option.bind (Option.bind (member J ''datatype'' node) (\<lambda>v. result_value (js_string J v))) (\<lambda>dt.
     Option.bind (Option.bind (member J ''shape'' node) (\<lambda>v. those (map (\<lambda>e. result_value (js_int64 J e)) (js_elems J v)))) (\<lambda>dims.
       Some \<lparr>io_name = n, io_datatype = dt, io_shape = dims, io_data = bytes\<rparr>)))"

definition announced_bytes :: "'j json_api \<Rightarrow> 'j \<Rightarrow> nat option" where
  "announced_bytes J node =
     Option.bind (member J ''parameters'' node) (\<lambda>params.
     Option.bind (member J ''binary_data_size'' params) (\<lambda>v. map_option unat (result_value (js_uint64 J v))))"

fun read_payloads :: "'j json_api \<Rightarrow> 'j list \<Rightarrow> byte list \<Rightarrow> InferOutput list option" where
  "read_payloads J [] blob = (if blob = [] then Some [] else None)"
| "read_payloads J (node # nodes) blob =
     Option.bind (announced_bytes J node) (\<lambda>n.
       if length blob < n then None
       else Option.bind (read_tensor J node (take n blob)) (\<lambda>t.
              map_option ((#) t) (read_payloads J nodes (drop n blob))))"

definition read_decimals :: "'j json_api \<Rightarrow> 'j \<Rightarrow> InferOutput option" where
  "read_decimals J node =
     Option.bind (member J ''data'' node) (\<lambda>data.
     Option.bind (Option.bind (member J ''datatype'' node) (\<lambda>v. result_value (js_string J v))) (\<lambda>dt.
     Option.bind (result_value (decodeTensorData J data dt)) (\<lambda>bytes. read_tensor J node bytes)))"

definition server_reads :: "'j json_api \<Rightarrow> string \<Rightarrow> InferOutput list option" where
  "server_reads J request =
     Option.bind (read_request request) (\<lambda>q.
       case map read_decimal (field_values ''inference-header-content-length'' (req_fields q)) of
         [] \<Rightarrow>
           Option.bind (result_value (js_parse J (req_body q))) (\<lambda>doc.
           Option.bind (member J ''inputs'' doc) (\<lambda>v. those (map (read_decimals J) (js_elems J v))))
       | [Some n] \<Rightarrow>
           if length (req_body q) < n then None
           else Option.bind (result_value (js_parse J (take n (req_body q)))) (\<lambda>doc.
                Option.bind (member J ''inputs'' doc) (\<lambda>v.
                  read_payloads J (js_elems J v) (map byte_of_char (drop n (req_body q)))))
       | _ \<Rightarrow> None)"

text \<open>The texts of a client that go into the head of its requests, fit to stand there.\<close>

definition word_text :: "string \<Rightarrow> bool" where
  "word_text = list_all (\<lambda>c. c \<notin> {CHR 0x0D, CHR 0x0A, CHR '' ''})"

definition header_safe :: "HttpClient \<Rightarrow> Endpoint \<Rightarrow> bool" where
  "header_safe cl ep \<longleftrightarrow>
     field_value (ep_host ep) \<and> (cl_auth_token cl = [] \<or> field_value (cl_auth_token cl)) \<and>
     word_text (ep_path_prefix ep) \<and> word_text (cl_model_name cl) \<and> word_text (cl_model_version cl)"

lemma request_word_text: "request_word w \<longleftrightarrow> w \<noteq> [] \<and> word_text w"
  by (simp add: request_word_def word_text_def)

lemma word_text_append: "word_text (a @ b) \<longleftrightarrow> word_text a \<and> word_text b"
  by (simp add: word_text_def)

lemma header_safeD:
  assumes "header_safe cl ep"
  shows "field_value (ep_host ep)" "cl_auth_token cl = [] \<or> field_value (cl_auth_token cl)"
    "word_text (ep_path_prefix ep)" "word_text (cl_model_name cl)" "word_text (cl_model_version cl)"
  using assms unfolding header_safe_def by - (elim conjE, assumption)+

lemma member_object:
  assumes "json_laws J" "distinct (map fst kvs)" "(k, v) \<in> set kvs"
  shows "member J k (js_object J kvs) = Some v"
  using json_laws_objects(3) [OF assms] by (simp add: member_def result_value_def)

lemma read_tensor_node:
  assumes "json_laws J" "k \<notin> {''name'', ''datatype'', ''shape''}"
  shows "read_tensor J (js_object J (head_fields J out @ [(k, v)])) bytes = Some (out\<lparr>io_data := bytes\<rparr>)"
    "member J ''datatype'' (js_object J (head_fields J out @ [(k, v)])) = Some (js_of_string J (io_datatype out))"
    "member J k (js_object J (head_fields J out @ [(k, v)])) = Some v"
proof -
  let ?kvs = "head_fields J out @ [(k, v)]"
  have d: "distinct (map fst ?kvs)" using assms(2) by (auto simp: head_fields_def)
  have m: "member J ''name'' (js_object J ?kvs) = Some (js_of_string J (io_name out))"
    "member J ''shape'' (js_object J ?kvs) = Some (json_shape J (io_shape out))"
    by (rule member_object [OF assms(1) d], simp add: head_fields_def)+
  show dt: "member J ''datatype'' (js_object J ?kvs) = Some (js_of_string J (io_datatype out))"
    "member J k (js_object J ?kvs) = Some v"
    by (rule member_object [OF assms(1) d], simp add: head_fields_def)+
  have "those (map (\<lambda>e. result_value (js_int64 J (js_of_int64 J e))) ws) = Some ws" for ws
    by (induction ws) (simp_all add: json_laws_numbers [OF assms(1)] result_value_def)
  then show "read_tensor J (js_object J ?kvs) bytes = Some (out\<lparr>io_data := bytes\<rparr>)"
    by (simp add: read_tensor_def m dt json_shape_def json_laws_arrays [OF assms(1)] comp_def)
      (simp add: result_value_def)
qed

lemma read_payloads_nodes:
  assumes "json_laws J"
  shows "length (concat (map io_data ts)) < 2 ^ 63 \<Longrightarrow>
    read_payloads J (map (binary_node J) ts) (concat (map io_data ts)) = Some ts"
proof (induction ts)
  case (Cons t ts)
  let ?p = "[(''binary_data_size'', js_of_uint64 J (word_of_nat (length (io_data t))))]"
  have n: "unat (word_of_nat (length (io_data t)) :: 64 word) = length (io_data t)"
    using Cons.prems by (simp add: unat_of_nat)
  have k: "''parameters'' \<notin> {''name'', ''datatype'', ''shape''}" by simp
  note r = read_tensor_node [OF assms k, of t "js_object J ?p", folded binary_node_def]
  have "member J ''binary_data_size'' (js_object J ?p) = Some (js_of_uint64 J (word_of_nat (length (io_data t))))"
    by (rule member_object [OF assms]) simp_all
  then have "announced_bytes J (binary_node J t) = Some (length (io_data t))"
    using n by (simp add: announced_bytes_def r(3) json_laws_numbers [OF assms] result_value_def)
  then show ?case using Cons by (simp add: r(1))
qed simp

lemma encode_inputs_binary:
  "encode_inputs J True inputs pre = Inr (nodes, blob) \<Longrightarrow>
     nodes = map (\<lambda>x. binary_node J (tensor_of x)) inputs \<and> blob = pre @ concat (map (\<lambda>x. io_data (tensor_of x)) inputs)"
proof (induction inputs arbitrary: pre nodes)
  case (Cons x inputs)
  then obtain bytes where b: "ii_data x = Some bytes" by (auto split: option.splits)
  have n: "appendBinaryInput J (ii_name x) (ii_datatype x) (ii_shape x) bytes pre = (binary_node J (tensor_of x), pre @ bytes)"
    by (simp add: appendBinaryInput_def binary_node_def head_fields_def tensor_of_def b)
  obtain ns where "encode_inputs J True inputs (pre @ bytes) = Inr (ns, blob)" "nodes = binary_node J (tensor_of x) # ns"
    using Cons.prems by (auto simp: b n bindR_eq_Inr)
  moreover from this(1) have "ns = map (\<lambda>x. binary_node J (tensor_of x)) inputs \<and>
      blob = (pre @ bytes) @ concat (map (\<lambda>x. io_data (tensor_of x)) inputs)" by (rule Cons.IH)
  ultimately show ?case by (simp add: tensor_of_def b)
qed simp

lemma read_decimals_node:
  assumes "json_laws J" "json_datatype (io_datatype t)" "carries_no_nan (io_datatype t) (io_data t)"
    and "encodeTensorData J (io_data t) (io_datatype t) = Inr d"
  shows "read_decimals J (json_node J t d) = Some t"
proof -
  have k: "''data'' \<notin> {''name'', ''datatype'', ''shape''}" by simp
  note r = read_tensor_node [OF assms(1) k, of t d, folded json_node_def]
  have "datatypeByteWidth (io_datatype t) dvd length (io_data t)"
    using encode_error_json [OF assms(2), of J "io_data t"] assms(4) by (metis sum.distinct(1))
  then have "decodeTensorData J d (io_datatype t) = Inr (io_data t)"
    using codec_inverts [OF assms(1,2) _ assms(3)] assms(4) by simp
  then show ?thesis by (simp add: read_decimals_def r json_laws_arrays [OF assms(1)]) (simp add: result_value_def)
qed

lemma encode_inputs_json:
  assumes "json_laws J"
  shows "encode_inputs J False inputs pre = Inr (nodes, blob) \<Longrightarrow>
     list_all (\<lambda>x. carries_no_nan (ii_datatype x) (the (ii_data x))) inputs \<Longrightarrow>
     those (map (read_decimals J) nodes) = Some (map tensor_of inputs)"
proof (induction inputs arbitrary: nodes)
  case (Cons x inputs)
  then obtain bytes where b: "ii_data x = Some bytes" by (auto split: option.splits)
  obtain d ns where d: "encodeTensorData J bytes (ii_datatype x) = Inr d"
    and ns: "encode_inputs J False inputs pre = Inr (ns, blob)" "nodes = json_node J (tensor_of x) d # ns"
    using Cons.prems(1) by (auto simp: b bindR_eq_Inr json_node_def head_fields_def tensor_of_def)
  have "json_datatype (ii_datatype x)" using encodeTensorData_ok [of J bytes "ii_datatype x"] d by simp
  then have "read_decimals J (json_node J (tensor_of x) d) = Some (tensor_of x)"
    using d Cons.prems(2) by (intro read_decimals_node [OF assms]) (simp_all add: tensor_of_def b)
  then show ?case using Cons.IH [OF ns(1)] Cons.prems(2) ns(2) by simp
qed simp

lemma member_inputs:
  assumes "json_laws J"
  shows "member J ''inputs'' (infer_request J binary output_names nodes) = Some (js_of_array J nodes)"
  unfolding infer_request_def by (rule member_object [OF assms]) auto

text \<open>The bytes of the request, and the message they are read as.\<close>

definition payload_fields :: "bool \<Rightarrow> string \<Rightarrow> (string \<times> string) list" where
  "payload_fields binary dumped =
     (if binary then [(''Inference-Header-Content-Length'', string_of_nat (length dumped))] else [])"

definition infer_target :: "HttpClient \<Rightarrow> Endpoint \<Rightarrow> string" where
  "infer_target cl ep =
     ep_path_prefix ep @ ''/v2/models/'' @ cl_model_name cl @
     (if cl_model_version cl \<noteq> [] then ''/versions/'' @ cl_model_version cl else []) @ ''/infer''"

lemma infer_request_message:
  assumes "header_safe cl ep"
  shows "read_request (infer_http_request os cl ep dumped blob) =
    Some \<lparr>req_verb = ''POST'', req_target = infer_target cl ep,
          req_fields = request_fields ep (cl_auth_token cl)
            (if binaryEnabled os then ''application/octet-stream'' else ''application/json'')
            (payload_fields (binaryEnabled os) dumped)
            (if binaryEnabled os then dumped @ map char_of_byte blob else dumped),
          req_body = (if binaryEnabled os then dumped @ map char_of_byte blob else dumped)\<rparr>"
proof -
  let ?ct = "if binaryEnabled os then ''application/octet-stream'' else ''application/json''"
  let ?body = "if binaryEnabled os then dumped @ map char_of_byte blob else dumped"
  have p: "infer_payload (binaryEnabled os) dumped blob = (?ct, fields_text (payload_fields (binaryEnabled os) dumped), ?body)"
    by (simp add: infer_payload_def payload_fields_def fields_text_def field_line_def)
  have t: "ep_path_prefix ep @ inferPath (cl_model_name cl) (cl_model_version cl) = infer_target cl ep"
    by (simp add: inferPath_def infer_target_def)
  have c: "field_value ''application/octet-stream''" "field_value ''application/json''"
    "field_name ''Inference-Header-Content-Length''" "request_word ''POST''"
    "to_lower ''Inference-Header-Content-Length'' \<notin> {''host'', ''content-length'', ''transfer-encoding''}"
    by code_simp+
  have w: "word_text ''/v2/models/''" "word_text ''/versions/''" "word_text ''/infer''" "word_text []" "''/v2/models/'' \<noteq> []"
    by code_simp+
  have "request_word (infer_target cl ep)"
    unfolding infer_target_def request_word_text word_text_append using header_safeD [OF assms] w
    by (simp only: append_is_Nil_conv simp_thms word_text_append split: if_split)
  moreover have "sendable_parts ep (cl_auth_token cl) ?ct (payload_fields (binaryEnabled os) dumped)"
    using assms c(1-3,5) read_decimal_value [of "length dumped"] unfolding sendable_parts_def header_safe_def payload_fields_def
    by (cases "binaryEnabled os") (simp_all only: if_True if_False list.pred_inject prod.case simp_thms)
  ultimately show ?thesis
    using read_built_whole [OF c(4)] unfolding infer_http_request_def p prod.case t by blast
qed

lemma inference_field:
  "map read_decimal (field_values ''inference-header-content-length''
      (request_fields ep token ct (payload_fields binary dumped) body)) = (if binary then [Some (length dumped)] else [])"
proof -
  have "to_lower ''Inference-Header-Content-Length'' = ''inference-header-content-length''" by code_simp
  then show ?thesis
    by (simp add: request_fields_def field_values_def lower_names payload_fields_def read_decimal_string_of_nat)
qed

lemma request_read:
  assumes "json_laws J" "encode_inputs J (binaryEnabled os) inputs [] = Inr (nodes, blob)"
    and "js_dump J (infer_request J (binaryEnabled os) names nodes) = Inr dumped"
    and "js_parse J dumped = Inr (infer_request J (binaryEnabled os) names nodes)"
    and "if binaryEnabled os then length blob < 2 ^ 63
         else list_all (\<lambda>x. carries_no_nan (ii_datatype x) (the (ii_data x))) inputs"
    and "header_safe cl ep"
  shows "server_reads J (infer_http_request os cl ep dumped blob) = Some (map tensor_of inputs)"
proof (cases "binaryEnabled os")
  case True
  then have n: "nodes = map (binary_node J) (map tensor_of inputs)" "blob = concat (map io_data (map tensor_of inputs))"
    using encode_inputs_binary [of J inputs "[]" nodes blob] assms(2) by (simp_all add: comp_def)
  have "read_payloads J nodes blob = Some (map tensor_of inputs)"
    using read_payloads_nodes [OF assms(1), of "map tensor_of inputs"] assms(5) True unfolding n by simp
  then show ?thesis
    using True assms(4) member_inputs [OF assms(1), of True names nodes]
    by (simp add: server_reads_def infer_request_message [OF assms(6)] inference_field json_laws_arrays [OF assms(1)]
        result_value_def comp_def)
next
  case False
  then have "those (map (read_decimals J) nodes) = Some (map tensor_of inputs)"
    using encode_inputs_json [OF assms(1), of inputs "[]" nodes blob] assms(2,5) by simp
  then show ?thesis
    using False assms(4) member_inputs [OF assms(1), of False names nodes]
    by (simp add: server_reads_def infer_request_message [OF assms(6)] inference_field json_laws_arrays [OF assms(1)]
        result_value_def)
qed

text \<open>
  C11: an inference sends the caller's tensors. A server that knows HTTP/1.1 and the protocol, and gets
  nothing but the bytes of the request, finds a POST to the model's inference path and reads exactly
  the inputs: names, datatypes, shapes and payload bytes, in order, for any number of tensors of any
  size, empty ones included. In binary mode it finds the border between document and payloads only in
  the \<open>Inference-Header-Content-Length\<close> field, and no byte is left over. The conditions: the inputs
  can be encoded, the JSON library reads what it writes, all payloads together are shorter than
  \<open>2^63\<close> bytes in binary mode, and otherwise FP32 and FP16 tensors hold no NaN, which JSON has not;
  and host, token, path prefix, model name and version can stand in the head of a request.
\<close>

theorem http_request_roundtrip:
  assumes "json_laws J" "encode_inputs J (binaryEnabled os) inputs [] = Inr (nodes, blob)"
    and "js_dump J (infer_request J (binaryEnabled os) names nodes) = Inr dumped"
    and "js_parse J dumped = Inr (infer_request J (binaryEnabled os) names nodes)"
    and "if binaryEnabled os then length blob < 2 ^ 63
         else list_all (\<lambda>x. carries_no_nan (ii_datatype x) (the (ii_data x))) inputs"
    and "header_safe cl ep"
  shows "map_option (\<lambda>q. (req_verb q, req_target q)) (read_request (infer_http_request os cl ep dumped blob)) =
      Some (''POST'', ep_path_prefix ep @ ''/v2/models/'' @ cl_model_name cl @
        (if cl_model_version cl \<noteq> [] then ''/versions/'' @ cl_model_version cl else []) @ ''/infer'') \<and>
    server_reads J (infer_http_request os cl ep dumped blob) = Some (map tensor_of inputs)"
  using request_read [OF assms] infer_request_message [OF assms(6)] by (simp add: infer_target_def)

section \<open>What a metadata call returns\<close>

text \<open>The document a server sends for some metadata, with whatever else it adds.\<close>

definition spec_node :: "'j json_api \<Rightarrow> TensorSpec \<Rightarrow> 'j" where
  "spec_node J spec =
     js_object J
       [(''name'', js_of_string J (ts_name spec)), (''datatype'', js_of_string J (ts_datatype spec)),
        (''shape'', json_shape J (ts_shape spec))]"

definition metadata_doc :: "'j json_api \<Rightarrow> (string \<times> 'j) list \<Rightarrow> ModelMetadata \<Rightarrow> 'j" where
  "metadata_doc J others md =
     js_object J
       (others @ [(''platform'', js_of_string J (mm_platform md)),
                  (''inputs'', js_of_array J (map (spec_node J) (mm_inputs md))),
                  (''outputs'', js_of_array J (map (spec_node J) (mm_outputs md)))])"

lemma read_spec_node:
  assumes "json_laws J"
  shows "read_spec J (spec_node J spec) = Inr spec" "string_at J (spec_node J spec) ''name'' = Inr (ts_name spec)"
proof -
  let ?kvs = "[(''name'', js_of_string J (ts_name spec)), (''datatype'', js_of_string J (ts_datatype spec)),
        (''shape'', json_shape J (ts_shape spec))]"
  have d: "distinct (map fst ?kvs)" by simp
  have "js_at J (js_object J ?kvs) ''name'' = Inr (js_of_string J (ts_name spec))"
    by (rule json_laws_objects(3) [OF assms d]) simp
  then show n: "string_at J (spec_node J spec) ''name'' = Inr (ts_name spec)"
    by (simp add: string_at_def spec_node_def json_laws_arrays [OF assms])
  have "js_value J (js_object J ?kvs) ''datatype'' ''FP32'' = Inr (ts_datatype spec)"
    by (rule json_value_object [OF assms d]) simp
  moreover have "readShape J (js_object J ?kvs) = Inr (ts_shape spec)"
    by (rule readShape_object [OF assms d]) simp
  ultimately show "read_spec J (spec_node J spec) = Inr spec"
    using n by (simp add: read_spec_def spec_node_def)
qed

lemma read_outputs_nodes:
  assumes "json_laws J"
  shows "read_outputs J (map (spec_node J) specs) (cl, w) =
    Some (Inr specs, (cl\<lparr>cl_output_names := cl_output_names cl @ map ts_name specs\<rparr>, w))"
proof (induction specs arbitrary: cl)
  case (Cons spec specs)
  then show ?case
    by (simp add: bindP_def prog_basic set_output_names_def read_spec_node [OF assms])
qed (simp add: prog_basic)

lemma metadata_doc_fields:
  assumes "json_laws J" "distinct (map fst others)" "{''platform'', ''inputs'', ''outputs''} \<inter> fst ` set others = {}"
    and "doc = metadata_doc J others md"
  shows "js_contains J doc ''inputs''" "js_contains J doc ''outputs''"
    "js_value J doc ''platform'' [] = Inr (mm_platform md)"
    "js_at J doc ''inputs'' = Inr (js_of_array J (map (spec_node J) (mm_inputs md)))"
    "js_at J doc ''outputs'' = Inr (js_of_array J (map (spec_node J) (mm_outputs md)))"
proof -
  let ?kvs = "others @ [(''platform'', js_of_string J (mm_platform md)),
                  (''inputs'', js_of_array J (map (spec_node J) (mm_inputs md))),
                  (''outputs'', js_of_array J (map (spec_node J) (mm_outputs md)))]"
  have doc: "doc = js_object J ?kvs" by (simp add: assms(4) metadata_doc_def)
  have d: "distinct (map fst ?kvs)" using assms(2,3) by auto
  show "js_contains J doc ''inputs''" "js_contains J doc ''outputs''"
    unfolding doc by (simp_all add: json_laws_objects(2) [OF assms(1)])
  show "js_value J doc ''platform'' [] = Inr (mm_platform md)"
    unfolding doc by (rule json_value_object [OF assms(1) d]) simp
  show "js_at J doc ''inputs'' = Inr (js_of_array J (map (spec_node J) (mm_inputs md)))"
    "js_at J doc ''outputs'' = Inr (js_of_array J (map (spec_node J) (mm_outputs md)))"
    unfolding doc by (rule json_laws_objects(3) [OF assms(1) d], simp)+
qed

lemma metadata_returned:
  assumes "json_laws J" "parseEndpoint (cl_endpoint cl) 8080 = Inr ep"
    and "exchange os ep (buildRequest ''GET'' ep (ep_path_prefix ep @ ''/v2/models/'' @ cl_model_name cl)
           (cl_auth_token cl) [] [] []) (cl, w) = Some (Inr resp, (cl1, w1))"
    and "hr_status resp = 200" "js_parse J (hr_body resp) = Inr (metadata_doc J others md)"
    and "distinct (map fst others)" "{''platform'', ''inputs'', ''outputs''} \<inter> fst ` set others = {}"
  shows "http_modelMetadata os J (cl, w) =
    Some (Inr md, (cl\<lparr>cl_output_names := map ts_name (mm_outputs md)\<rparr>, w1))"
proof -
  note f = metadata_doc_fields [OF assms(1,6,7) refl, of md]
  have c: "cl1 = cl" using exchange_client [OF assms(3)] by simp
  have i: "mapR (read_spec J) (map (spec_node J) (mm_inputs md)) = Inr (mm_inputs md)"
    using mapR_all_Inr [of "mm_inputs md" "\<lambda>s. read_spec J (spec_node J s)" id] read_spec_node(1) [OF assms(1)]
    by (simp add: mapR_map)
  show ?thesis
    using assms(2-5) unfolding c
    by (simp add: http_modelMetadata_def get_client_def bindP_def prog_basic set_output_names_def f i
        read_outputs_nodes [OF assms(1)] json_laws_arrays [OF assms(1)])
qed

text \<open>
  C33: a metadata call returns what the server describes. When the exchange of its GET request ends with
  status 200 and a document that lists some tensors, the call returns exactly their names, datatypes
  and shapes and the platform, in order, whatever else the document holds, and remembers the names of
  the outputs for later inferences.
\<close>

theorem http_modelMetadata_returns:
  assumes "json_laws J" "parseEndpoint (cl_endpoint cl) 8080 = Inr ep"
    and "exchange os ep (buildRequest ''GET'' ep (ep_path_prefix ep @ ''/v2/models/'' @ cl_model_name cl)
           (cl_auth_token cl) [] [] []) (cl, w) = Some (Inr resp, (cl1, w1))"
    and "hr_status resp = 200" "js_parse J (hr_body resp) = Inr (metadata_doc J others md)"
    and "distinct (map fst others)" "{''platform'', ''inputs'', ''outputs''} \<inter> fst ` set others = {}"
  shows "http_modelMetadata os J (cl, w) =
    Some (Inr md, (cl\<lparr>cl_output_names := map ts_name (mm_outputs md)\<rparr>, w1))"
  using assms by (rule metadata_returned)

section \<open>The model repository\<close>

lemma postRepository_result:
  assumes "parseEndpoint (cl_endpoint cl) 8080 = Inr ep"
    and "exchange os ep (buildRequest ''POST'' ep (ep_path_prefix ep @ path) (cl_auth_token cl) ''application/json'' [] body) (cl, w) =
      Some (Inr resp, s')"
  shows "postRepository os path body (cl, w) =
    Some (if hr_status resp \<noteq> 200 then Inl (Runtime_error (''KServe repository request failed: HTTP '' @
            string_of_int (hr_status resp) @ '' '' @ hr_body resp))
          else Inr resp, s')"
  using assms by (simp add: postRepository_def get_client_def bindP_def prog_basic Let_def)

section \<open>Failures\<close>

text \<open>
  A metadata entry without a name is undefined behaviour, not an exception. The client reads the
  name with the \<open>const\<close> subscript of the JSON library without asking whether the key exists,
  so a server that omits it is not reported as a malformed response.
\<close>

lemma metadata_missing_name:
  assumes "json_laws J" "js_is_object J node" "\<not> js_contains J node ''name''"
  shows "\<exists>m. read_spec J node = Inl (Undefined_behaviour m)"
  using json_laws_missing(1) [OF assms] by (auto simp: read_spec_def string_at_def)

lemma probe_result:
  assumes "parseEndpoint (cl_endpoint cl) 8080 = Inr ep"
  shows "http_probe os path (cl, w) =
    map_option (\<lambda>(r, s'). (map_sum id (\<lambda>resp. hr_status resp = 200) r, s'))
      (exchange os ep (buildRequest ''GET'' ep (ep_path_prefix ep @ path) (cl_auth_token cl) [] [] []) (cl, w))"
  using assms
  by (auto simp: http_probe_def get_client_def bindP_def prog_basic Let_def split: option.split sum.split)

text \<open>
  A probe answers \<open>true\<close> exactly for a 200 response, \<open>false\<close> for any other status a
  server sends, and lets the exception of an unreachable server through; it asks the path of its
  endpoint below the prefix, and no call changes the members of the client.
\<close>

lemma http_probes:
  assumes "parseEndpoint (cl_endpoint cl) 8080 = Inr ep"
    and "(p, path) \<in> {(http_serverLive os, ''/v2/health/live''), (http_serverReady os, ''/v2/health/ready''),
           (http_modelReady os, modelReadyPath (cl_model_name cl) (cl_model_version cl))}"
  shows "p (cl, w) =
      map_option (\<lambda>(r, s'). (map_sum id (\<lambda>resp. hr_status resp = 200) r, s'))
        (exchange os ep (buildRequest ''GET'' ep (ep_path_prefix ep @ path) (cl_auth_token cl) [] [] []) (cl, w)) \<and>
    (\<forall>r s'. p (cl, w) = Some (r, s') \<longrightarrow> fst s' = cl)"
proof -
  have "http_modelReady os (cl, w) = http_probe os (modelReadyPath (cl_model_name cl) (cl_model_version cl)) (cl, w)"
    by (simp add: http_modelReady_def get_client_def bindP_def prog_basic)
  then have e: "p (cl, w) = http_probe os path (cl, w)"
    using assms(2) by (auto simp: http_serverLive_def http_serverReady_def serverLivePath_def serverReadyPath_def)
  have "fst s' = cl" if "http_probe os path (cl, w) = Some (r, s')" for r s'
    using that exchange_client [of os ep _ cl w] unfolding probe_result [OF assms(1)] by auto
  then show ?thesis unfolding e probe_result [OF assms(1), symmetric] by blast
qed

section \<open>Witnesses\<close>

definition demo_out :: InferOutput where
  "demo_out = \<lparr>io_name = ''y'', io_datatype = ''UINT8'', io_shape = [3], io_data = [49, 50, 51]\<rparr>"

definition demo_json :: "json json_api" where
  "demo_json = doc_api [(''{}'', response_doc (doc_api [] []) [] [binary_node (doc_api [] []) demo_out])] ''{}''"

definition demo_http_response :: HttpResponse where
  "demo_http_response = \<lparr>hr_status = 200, hr_body = ''{}123'', hr_inference_header_length = 2\<rparr>"

lemma demo_carries: "http_carries demo_json [demo_out] demo_http_response"
proof -
  have "js_parse demo_json ''{}'' = Inr (response_doc demo_json [] (map (binary_node demo_json) [demo_out]))"
    by code_simp
  moreover have "hr_body demo_http_response = ''{}'' @ map char_of_byte (concat (map io_data [demo_out]))" by code_simp
  moreover have "json_laws demo_json" unfolding demo_json_def by (rule doc_laws)
  ultimately show ?thesis
    unfolding http_carries_def
    by (intro conjI exI [of _ "''{}''"] exI [of _ "[]"] disjI1) (simp_all add: demo_out_def demo_http_response_def)
qed

definition demo_input :: InferInput where
  "demo_input = \<lparr>ii_name = ''x'', ii_datatype = ''UINT8'', ii_shape = [1], ii_data = Some [7]\<rparr>"

lemma demo_encoding:
  assumes "\<not> binaryEnabled os"
  obtains nodes blob where "encode_inputs demo_json (binaryEnabled os) [demo_input] [] = Inr (nodes, blob)"
    "js_dump demo_json (infer_request demo_json (binaryEnabled os) names nodes) = Inr ''{}''"
    "infer_http_request os cl ep ''{}'' blob = infer_http_request os cl ep ''{}'' []"
proof -
  have "is_ok (encode_inputs demo_json False [demo_input] [])" by code_simp
  then obtain nodes blob where "encode_inputs demo_json False [demo_input] [] = Inr (nodes, blob)"
    by (auto simp: is_ok_def split: sum.splits)
  then show ?thesis
    using assms by (intro that) (simp_all add: demo_json_def doc_api_def infer_http_request_def infer_payload_def)
qed

theorem http_infer_outputs_witness:
  "\<exists>s'. http_infer demo_server demo_json [demo_input] (demo_client, (new_connection, [])) = Some (Inr [demo_out], s')"
proof -
  let ?w = "(demo_client, (new_connection, []))"
  have ep: "parseEndpoint (cl_endpoint demo_client) 8080 = Inr demo_endpoint" by code_simp
  have "\<not> binaryEnabled demo_server" by code_simp
  then obtain nodes blob where enc: "encode_inputs demo_json (binaryEnabled demo_server) [demo_input] [] = Inr (nodes, blob)"
    and dump: "js_dump demo_json (infer_request demo_json (binaryEnabled demo_server) (cl_output_names demo_client) nodes) = Inr ''{}''"
    and req: "infer_http_request demo_server demo_client demo_endpoint ''{}'' blob = infer_http_request demo_server demo_client demo_endpoint ''{}'' []"
    by (rule demo_encoding)
  have "map_option fst (exchange demo_server demo_endpoint (infer_http_request demo_server demo_client demo_endpoint ''{}'' []) ?w) =
      Some (Inr demo_http_response)"
    by code_simp
  then obtain s' where "exchange demo_server demo_endpoint (infer_http_request demo_server demo_client demo_endpoint ''{}'' blob) ?w =
      Some (Inr demo_http_response, s')"
    unfolding req by auto
  then show ?thesis using http_infer_outputs [OF ep enc dump _ demo_carries] by blast
qed

lemma modelMetadata_output_names_example:
  "\<exists>e s' ns. http_modelMetadata demo_server demo_json (demo_client, (new_connection, [])) = Some (Inl e, s') \<and>
     fst s' = demo_client\<lparr>cl_output_names := ns\<rparr>"
proof -
  let ?w = "(demo_client, (new_connection, []))"
  have "map_option (is_ok \<circ> fst) (http_modelMetadata demo_server demo_json ?w) = Some False" by code_simp
  then obtain r s' where r: "http_modelMetadata demo_server demo_json ?w = Some (r, s')" "\<not> is_ok r" by auto
  then obtain e where e: "r = Inl e" by (cases r) auto
  from modelMetadata_output_names [OF r(1)] show ?thesis using r(1) e by blast
qed

definition demo_nodes :: "json list" where
  "demo_nodes = (case encode_inputs (doc_api [] []) True [demo_input] [] of Inl _ \<Rightarrow> [] | Inr (nodes, _) \<Rightarrow> nodes)"

definition demo_request :: "json json_api" where
  "demo_request = doc_api [(''{}'', infer_request (doc_api [] []) True [''y''] demo_nodes)] ''{}''"

definition binary_os :: os where
  "binary_os = script_os (\<lambda>v. if v = ''KSERVE_BINARY'' then Some ''1'' else None) 9999 []"

theorem http_request_roundtrip_witness:
  "server_reads demo_request (infer_http_request binary_os demo_client demo_endpoint ''{}'' [7]) = Some [tensor_of demo_input]"
proof -
  have b: "binaryEnabled binary_os" by code_simp
  have e: "encode_inputs demo_request (binaryEnabled binary_os) [demo_input] [] = Inr (demo_nodes, [7])" by code_simp
  have d: "js_dump demo_request (infer_request demo_request (binaryEnabled binary_os) [''y''] demo_nodes) = Inr ''{}''" by code_simp
  have p: "js_parse demo_request ''{}'' = Inr (infer_request demo_request (binaryEnabled binary_os) [''y''] demo_nodes)" by code_simp
  have h: "header_safe demo_client demo_endpoint" by code_simp
  have "json_laws demo_request" unfolding demo_request_def by (rule doc_laws)
  from http_request_roundtrip [OF this e d p _ h] b show ?thesis by simp
qed

definition demo_repository :: os where
  "demo_repository = script_os (\<lambda>_. None) 9999 demo_segments"

definition demo_metadata :: ModelMetadata where
  "demo_metadata = \<lparr>mm_inputs = [\<lparr>ts_name = ''x'', ts_datatype = ''FP32'', ts_shape = [- 1, 3]\<rparr>],
     mm_outputs = [\<lparr>ts_name = ''y'', ts_datatype = ''INT64'', ts_shape = []\<rparr>], mm_platform = ''onnx''\<rparr>"

definition demo_description :: "json json_api" where
  "demo_description = doc_api [(''{}'', metadata_doc (doc_api [] []) [(''name'', JString ''m'')] demo_metadata)] ''{}''"

theorem http_modelMetadata_returns_witness:
  "\<exists>w1. http_modelMetadata demo_repository demo_description (demo_client, (new_connection, [])) =
     Some (Inr demo_metadata, (demo_client\<lparr>cl_output_names := [''y'']\<rparr>, w1))"
proof -
  let ?w = "(new_connection, [])"
  let ?rq = "buildRequest ''GET'' demo_endpoint (ep_path_prefix demo_endpoint @ ''/v2/models/'' @ cl_model_name demo_client)
    (cl_auth_token demo_client) [] [] []"
  let ?resp = "\<lparr>hr_status = 200, hr_body = ''{}'', hr_inference_header_length = - 1\<rparr>"
  have ep: "parseEndpoint (cl_endpoint demo_client) 8080 = Inr demo_endpoint" by code_simp
  have "map_option fst (exchange demo_repository demo_endpoint ?rq (demo_client, ?w)) = Some (Inr ?resp)" by code_simp
  then obtain cl1 w1 where ex: "exchange demo_repository demo_endpoint ?rq (demo_client, ?w) = Some (Inr ?resp, (cl1, w1))"
    by auto
  have p: "js_parse demo_description (hr_body ?resp) = Inr (metadata_doc demo_description [(''name'', JString ''m'')] demo_metadata)"
    by code_simp
  have "json_laws demo_description" unfolding demo_description_def by (rule doc_laws)
  from http_modelMetadata_returns [OF this ep ex _ p] show ?thesis by (simp add: demo_metadata_def)
qed

end
