(* ===== verification/Model_Server.thy ===== *)
theory Model_Server
  imports Client_Interface
begin

text \<open>
  What an application is promised by either client: a model server at the other end of an
  \<open>IClient\<close>. The specification is a machine: a server in some state answers a call and moves to
  another state, with no trace of bytes, connections or retries. An application is an adaptive
  sequence of calls: each may depend on all the answers before it. The locale \<open>stands_for\<close> is the
  contract of a client that can be taken for the server itself, call by call; what the locale proves is
  that whole applications cannot tell the difference either.
\<close>

section \<open>Calls and answers\<close>

datatype api_call =
    Get_metadata
  | Run_inference "InferInput list"
  | Ask_server_live
  | Ask_server_ready
  | Ask_model_ready
  | Get_index
  | Load_model string
  | Unload_model string

datatype answer =
    Metadata ModelMetadata
  | Tensors "InferOutput list"
  | Flag bool
  | Models "RepositoryModel list"
  | Done

definition answering :: "('a \<Rightarrow> answer) \<Rightarrow> ('w, 'a) prog \<Rightarrow> ('w, answer) prog" where
  "answering f p = bindP p (\<lambda>x. ret (f x))"

fun perform :: "'w IClient \<Rightarrow> api_call \<Rightarrow> ('w, answer) prog" where
  "perform ic Get_metadata = answering Metadata (ic_modelMetadata ic)"
| "perform ic (Run_inference inputs) = answering Tensors (ic_infer ic inputs)"
| "perform ic Ask_server_live = answering Flag (ic_serverLive ic)"
| "perform ic Ask_server_ready = answering Flag (ic_serverReady ic)"
| "perform ic Ask_model_ready = answering Flag (ic_modelReady ic)"
| "perform ic Get_index = answering Models (ic_repositoryIndex ic)"
| "perform ic (Load_model name) = answering (\<lambda>_. Done) (ic_loadModel ic name)"
| "perform ic (Unload_model name) = answering (\<lambda>_. Done) (ic_unloadModel ic name)"

lemma answering_result: "p w = Some (Inr x, w') \<Longrightarrow> answering f p w = Some (Inr (f x), w')"
  by (simp add: answering_def bindP_def prog_basic)

section \<open>Applications\<close>

text \<open>The next call, given the answers so far, oldest first.\<close>

type_synonym application = "answer list \<Rightarrow> api_call"

text \<open>The first \<open>n\<close> further calls of an application that has seen some answers.\<close>

fun run_application :: "'w IClient \<Rightarrow> application \<Rightarrow> nat \<Rightarrow> answer list \<Rightarrow> ('w, answer list) prog" where
  "run_application ic app 0 seen = ret seen"
| "run_application ic app (Suc n) seen =
     bindP (perform ic (app seen)) (\<lambda>a. run_application ic app n (seen @ [a]))"

text \<open>A server; a call it gives no answer to is outside its service.\<close>

type_synonym 's model_server = "'s \<Rightarrow> api_call \<Rightarrow> (answer \<times> 's) option"

fun run_server :: "'s model_server \<Rightarrow> application \<Rightarrow> nat \<Rightarrow> answer list \<Rightarrow> 's \<Rightarrow> (answer list \<times> 's) option" where
  "run_server server app 0 seen s = Some (seen, s)"
| "run_server server app (Suc n) seen s =
     Option.bind (server s (app seen)) (\<lambda>(a, s'). run_server server app n (seen @ [a]) s')"

section \<open>A client that stands for a server\<close>

locale stands_for =
  fixes ic :: "'w IClient" and R :: "'s \<Rightarrow> 'w \<Rightarrow> bool" and server :: "'s model_server"
  assumes performs: "R s w \<Longrightarrow> server s c = Some (a, s') \<Longrightarrow> \<exists>w'. perform ic c w = Some (Inr a, w') \<and> R s' w'"
begin

lemma runs:
  "R s w \<Longrightarrow> run_server server app n seen s = Some (answers, s') \<Longrightarrow>
     \<exists>w'. run_application ic app n seen w = Some (Inr answers, w') \<and> R s' w'"
proof (induction n arbitrary: seen s w)
  case (Suc n)
  then obtain a s1 where a: "server s (app seen) = Some (a, s1)"
    and rest: "run_server server app n (seen @ [a]) s1 = Some (answers, s')"
    by (cases "server s (app seen)") auto
  obtain w1 where "perform ic (app seen) w = Some (Inr a, w1)" "R s1 w1"
    using performs [OF Suc.prems(1) a] by blast
  then show ?case using Suc.IH [OF _ rest] by (simp add: bindP_def)
qed (simp add: prog_basic)

end

end
