(* ===== verification/Http_Service.thy ===== *)
theory Http_Service
  imports Http_Protocol Http_Inference Model_Server
begin

text \<open>
  The HTTP client against a model server: what a peer has to deliver for an exchange to succeed, what a
  server understands of a request and what a response means, and that the client then stands for the
  server.
\<close>

section \<open>Exchanges that succeed\<close>

text \<open>
  How a server delimits a response: by a \<open>Content-Length\<close> among other headers, in chunks, or by
  closing the connection, for TLS also by an error of \<open>SSL_read\<close>. A
  chunk may hold any bytes but the mark of the end, a line with a zero and a blank line
  (\<open>safe_chunk\<close>): a chunk with the mark ends the client's read too early (\<open>complete_at_mark\<close>).
\<close>

datatype framing =
    Counted "string list" "string list" string
  | Chunked "string list" "string list"
  | Until_close "string list" string

fun framing_headers :: "framing \<Rightarrow> string list" where
  "framing_headers (Counted before after body) = before @ content_length_line (length body) # after"
| "framing_headers (Chunked headers chunks) = headers"
| "framing_headers (Until_close headers body) = headers"

fun framing_payload :: "framing \<Rightarrow> string" where
  "framing_payload (Counted before after body) = body"
| "framing_payload (Chunked headers chunks) = encode_chunks chunks"
| "framing_payload (Until_close headers body) = body"

fun framing_body :: "framing \<Rightarrow> string" where
  "framing_body (Counted before after body) = body"
| "framing_body (Chunked headers chunks) = concat chunks"
| "framing_body (Until_close headers body) = body"

fun sound_framing :: "framing \<Rightarrow> string \<Rightarrow> bool" where
  "sound_framing (Counted before after body) head = (list_all not_content_length before \<and> \<not> is_chunked head)"
| "sound_framing (Chunked headers chunks) head = (list_all safe_chunk chunks \<and> is_chunked head)"
| "sound_framing (Until_close headers body) head = (list_all not_content_length headers \<and> \<not> is_chunked head)"

fun until_close :: "framing \<Rightarrow> bool" where
  "until_close (Until_close headers body) = True"
| "until_close f = False"

text \<open>The bytes of such a response, cut into segments in any way, and what they say.\<close>

definition framed_segments :: "nat \<Rightarrow> string \<Rightarrow> framing \<Rightarrow> string list \<Rightarrow> bool" where
  "framed_segments status reason f ds =
     (status < 2 ^ 31 \<and> CHR 0x0D \<notin> set reason \<and> list_all clean_line (framing_headers f) \<and>
      sound_framing f (render_head status reason (framing_headers f)) \<and>
      concat ds = render_response status reason (framing_headers f) (framing_payload f) \<and> length (concat ds) < 2 ^ 63)"

definition framed_response :: "nat \<Rightarrow> string \<Rightarrow> framing \<Rightarrow> HttpResponse" where
  "framed_response status reason f =
     \<lparr>hr_status = int status, hr_body = framing_body f,
      hr_inference_header_length = header_length_of (render_head status reason (framing_headers f))\<rparr>"

lemma self_framed_chunks:
  assumes "list_all clean_line headers" "CHR 0x0D \<notin> set reason" "list_all safe_chunk chunks"
    and "is_chunked (render_head status reason headers)"
  shows "self_framed (render_response status reason headers (encode_chunks chunks))"
proof -
  let ?start = "''HTTP/1.1 '' @ string_of_nat status @ '' '' @ reason"
  have h: "render_head status reason headers = ?start @ header_text headers" by (simp add: render_head_def)
  have m: "render_response status reason headers (encode_chunks chunks) = http_message ?start headers (encode_chunks chunks)"
    by (simp add: render_response_def render_head_def http_message_def)
  have "CHR 0x0D \<notin> set ?start" using assms(2) digits_no_line_break by simp
  from complete_chunked [OF assms(1) this _ assms(3)] show ?thesis
    using assms(4) unfolding self_framed_def h m by blast
qed

lemma unframed_text:
  assumes "list_all clean_line headers" "list_all not_content_length headers" "CHR 0x0D \<notin> set reason"
    and "\<not> is_chunked (render_head status reason headers)"
  shows "\<not> messageComplete (take k (render_response status reason headers body))"
proof -
  let ?start = "''HTTP/1.1 '' @ string_of_nat status @ '' '' @ reason"
  have h: "render_head status reason headers = ?start @ header_text headers" by (simp add: render_head_def)
  have m: "render_response status reason headers body = http_message ?start headers body"
    by (simp add: render_response_def render_head_def http_message_def)
  have "CHR 0x0D \<notin> set ?start" using assms(3) digits_no_line_break by simp
  from unframed_message [OF assms(1,2) this] show ?thesis using assms(4) unfolding h m by blast
qed

lemma framed_parts:
  assumes "framed_segments status reason f ds"
  shows "status < 2 ^ 31" "CHR 0x0D \<notin> set reason" "list_all clean_line (framing_headers f)"
    "sound_framing f (render_head status reason (framing_headers f))"
    "concat ds = render_response status reason (framing_headers f) (framing_payload f)" "length (concat ds) < 2 ^ 63"
  using assms unfolding framed_segments_def by - (elim conjE, assumption)+

lemma framed_end:
  assumes "framed_segments status reason f ds"
  shows "if until_close f then \<forall>k. \<not> messageComplete (take k (concat ds)) else self_framed (concat ds)"
proof (cases f)
  case (Counted before after body)
  then show ?thesis
    using framed_parts [OF assms] by (auto intro!: self_framed_content_length)
next
  case (Chunked headers chunks)
  then show ?thesis
    using framed_parts [OF assms] by (auto intro!: self_framed_chunks)
next
  case (Until_close headers body)
  then show ?thesis
    using framed_parts [OF assms] by (auto simp: unframed_text)
qed

lemma framed_read:
  assumes "framed_segments status reason f ds"
  shows "concat ds \<noteq> []" "parseHttpResponse (concat ds) = Some (Inr (framed_response status reason f))"
proof -
  note ps = framed_parts [OF assms]
    and parse = parse_render_general [OF ps(3,2,1), of "framing_payload f", folded ps(5)]
  show "concat ds \<noteq> []" unfolding ps(5) by (simp add: render_response_def render_head_def)
  show "parseHttpResponse (concat ds) = Some (Inr (framed_response status reason f))" (is ?parses)
  proof (cases f)
    case (Chunked headers chunks)
    have "list_all (\<lambda>d. d \<noteq> []) chunks" "length ([] @ encode_chunks chunks) < size_limit"
      using ps(4-6) Chunked by (auto simp: safe_chunk_def list_all_iff render_response_def)
    from dechunk_encode_general [OF this, of "[]"] show ?parses
      using parse ps(4) by (simp add: Chunked framed_response_def Let_def)
  qed (use parse ps(4) in \<open>simp_all add: framed_response_def Let_def\<close>)
qed

text \<open>
  The state of the connection before attempt number \<open>k + 1\<close> of a retried exchange, when all
  attempts before it have failed in a way that is retried.
\<close>

definition before_attempt ::
    "os \<Rightarrow> HttpClient \<Rightarrow> Endpoint \<Rightarrow> string \<Rightarrow> http_state \<Rightarrow> nat \<Rightarrow> http_state option" where
  "before_attempt os cl ep request s k =
     state_before (cl_retry_policy cl) (roundTrip os ep request (cl_timeout_ms cl))
       (\<lambda>r. isRetryableHttpStatus (hr_status r)) defaultSleep (defaultJitter os) s k"

text \<open>
  A server accepts the request on the connection at hand, delivers the response in segments, and if the
  end of the connection is the end of the response, ends it.
\<close>

definition answers :: "os \<Rightarrow> Connection \<Rightarrow> string \<Rightarrow> history \<Rightarrow> framing \<Rightarrow> string list \<Rightarrow> history \<Rightarrow> bool" where
  "answers os c request h f ds h' =
     (case sendAll os c request h of
        Some (Inr _, h1) \<Rightarrow>
          delivers os c h1 ds \<and>
          (if until_close f then recvSome os c 4096 (after_reads os c h1 ds) = (Some [], h')
           else h' = after_reads os c h1 ds)
      | _ \<Rightarrow> False)"

text \<open>The connection after a response: kept, unless it has ended or the server has asked to close it.\<close>

definition settled :: "framing \<Rightarrow> string list \<Rightarrow> http_state \<Rightarrow> http_state" where
  "settled f ds s = (if until_close f \<or> wantsClose (concat ds) then drop_connection s else s)"

lemma roundTrip_answered:
  assumes "ensureConnected os ep t s = Some (Inr c, (conn, h))" "answers os c request h f ds h'"
    and "framed_segments status reason f ds"
  shows "roundTrip os ep request t s = Some (Inr (framed_response status reason f), settled f ds (conn, h'))"
proof -
  obtain r h1 where r: "sendAll os c request h = Some (r, h1)"
    using assms(2) by (cases "sendAll os c request h") (auto simp: answers_def)
  then have send: "sendAll os c request h = Some (Inr (), h1)" and del: "delivers os c h1 ds"
    and fin: "if until_close f then recvSome os c 4096 (after_reads os c h1 ds) = (Some [], h')
              else h' = after_reads os c h1 ds"
    using assms(2) by (cases r, auto simp: answers_def)+
  note read = framed_read [OF assms(3)]
  show ?thesis
  proof (cases "until_close f")
    case True
    then have "\<And>k. \<not> messageComplete (take k ([] @ concat ds))" using framed_end [OF assms(3)] by simp
    from roundTrip_closed [OF assms(1) send del this _ read] show ?thesis using True fin by (simp add: settled_def)
  next
    case False
    then show ?thesis
      using roundTrip_exchange [OF assms(1) send del _ read] framed_end [OF assms(3)] fin by (simp add: settled_def)
  qed
qed

text \<open>
  The exchange of a request succeeds with a response and leaves a state: after some attempts that were
  retried, one within the limit has a connection over which the request is answered, with a status
  that is not retried.
\<close>

definition http_answered ::
    "os \<Rightarrow> HttpClient \<Rightarrow> Endpoint \<Rightarrow> string \<Rightarrow> http_state \<Rightarrow> HttpResponse \<Rightarrow> http_state \<Rightarrow> bool" where
  "http_answered os cl ep request s resp s' \<longleftrightarrow>
     (\<exists>k v c conn h ds h' status reason f.
        before_attempt os cl ep request s k = Some v \<and> k < nat (rp_max_attempts (cl_retry_policy cl)) \<and>
        ensureConnected os ep (cl_timeout_ms cl) v = Some (Inr c, (conn, h)) \<and> answers os c request h f ds h' \<and>
        framed_segments status reason f ds \<and> \<not> isRetryableHttpStatus (int status) \<and>
        resp = framed_response status reason f \<and> s' = settled f ds (conn, h'))"

lemma exchange_answered:
  assumes "valid_policy (cl_retry_policy cl)" "unit_random os" "http_answered os cl ep request s resp s'"
  shows "exchange os ep request (cl, s) = Some (Inr resp, (cl, s'))"
proof -
  have u: "unit_double (fst (defaultJitter os w))" for w
    using assms(2) by (simp add: unit_random_def defaultJitter_def Let_def)
  obtain k v c conn h ds h' status reason f where
    k: "before_attempt os cl ep request s k = Some v" "k < nat (rp_max_attempts (cl_retry_policy cl))"
    and v: "ensureConnected os ep (cl_timeout_ms cl) v = Some (Inr c, (conn, h))" "answers os c request h f ds h'"
      "framed_segments status reason f ds"
    and r: "\<not> isRetryableHttpStatus (int status)" "resp = framed_response status reason f" "s' = settled f ds (conn, h')"
    using assms(3) unfolding http_answered_def by (elim exE conjE) (rule that)
  have "is_final (\<lambda>r. isRetryableHttpStatus (hr_status r)) (Inr resp)"
    using r by (simp add: is_final_def framed_response_def)
  then have "withRetry os (cl_retry_policy cl) (roundTrip os ep request (cl_timeout_ms cl)) s = Some (Inr resp, s')"
    unfolding withRetry_def retry_iff [OF assms(1) u]
    using k roundTrip_answered [OF v] r(2,3) unfolding before_attempt_def by blast
  then show ?thesis by (simp add: exchange_def get_client_def on_conn_def bindP_def prog_basic)
qed

section \<open>What a server understands and what it says\<close>

text \<open>The requests without a document of the caller.\<close>

definition http_get :: "HttpClient \<Rightarrow> Endpoint \<Rightarrow> string \<Rightarrow> string" where
  "http_get cl ep path = buildRequest ''GET'' ep (ep_path_prefix ep @ path) (cl_auth_token cl) [] [] []"

definition http_post :: "HttpClient \<Rightarrow> Endpoint \<Rightarrow> string \<Rightarrow> string" where
  "http_post cl ep path = buildRequest ''POST'' ep (ep_path_prefix ep @ path) (cl_auth_token cl) ''application/json'' [] ''{}''"

text \<open>
  The call a server takes the bytes of a request for. It reads the request with \<open>read_request\<close> and knows
  the methods and paths of the protocol below the prefix of its endpoint; the token of the client has to
  be there. An inference is read with \<open>server_reads\<close>. Nothing here is defined by what the client does.
\<close>

definition asks_for :: "HttpClient \<Rightarrow> Endpoint \<Rightarrow> string \<Rightarrow> string \<Rightarrow> string \<Rightarrow> bool" where
  "asks_for cl ep request verb path \<longleftrightarrow>
     (case read_request request of
        None \<Rightarrow> False
      | Some q \<Rightarrow>
          req_verb q = verb \<and> req_target q = ep_path_prefix ep @ path \<and>
          field_values ''host'' (req_fields q) = [ep_host ep] \<and>
          field_values ''authorization'' (req_fields q) =
            (if cl_auth_token cl = [] then [] else [''Bearer '' @ cl_auth_token cl]))"

definition model_path :: "HttpClient \<Rightarrow> string" where
  "model_path cl =
     ''/v2/models/'' @ cl_model_name cl @ (if cl_model_version cl = [] then [] else ''/versions/'' @ cl_model_version cl)"

fun http_asks :: "'j json_api \<Rightarrow> HttpClient \<Rightarrow> Endpoint \<Rightarrow> string \<Rightarrow> api_call \<Rightarrow> bool" where
  "http_asks J cl ep request Get_metadata = asks_for cl ep request ''GET'' (''/v2/models/'' @ cl_model_name cl)"
| "http_asks J cl ep request (Run_inference inputs) =
     (asks_for cl ep request ''POST'' (model_path cl @ ''/infer'') \<and>
      list_all (\<lambda>x. ii_data x \<noteq> None) inputs \<and> server_reads J request = Some (map tensor_of inputs))"
| "http_asks J cl ep request Ask_server_live = asks_for cl ep request ''GET'' ''/v2/health/live''"
| "http_asks J cl ep request Ask_server_ready = asks_for cl ep request ''GET'' ''/v2/health/ready''"
| "http_asks J cl ep request Ask_model_ready = asks_for cl ep request ''GET'' (model_path cl @ ''/ready'')"
| "http_asks J cl ep request Get_index = asks_for cl ep request ''POST'' ''/v2/repository/index''"
| "http_asks J cl ep request (Load_model name) =
     asks_for cl ep request ''POST'' (''/v2/repository/models/'' @ name @ ''/load'')"
| "http_asks J cl ep request (Unload_model name) =
     asks_for cl ep request ''POST'' (''/v2/repository/models/'' @ name @ ''/unload'')"

text \<open>The requests of the client are read so.\<close>

lemma asked_fields:
  assumes "list_all (\<lambda>(n, v). to_lower n \<notin> {''host'', ''authorization''}) extra"
  shows "field_values ''host'' (request_fields ep token ct extra body) = [ep_host ep]"
    "field_values ''authorization'' (request_fields ep token ct extra body) = (if token = [] then [] else [''Bearer '' @ token])"
proof -
  have none: "filter (\<lambda>(n, v). to_lower n = k) extra = []" if "k \<in> {''host'', ''authorization''}" for k
    using assms that by (auto simp: list_all_iff filter_empty_conv)
  show "field_values ''host'' (request_fields ep token ct extra body) = [ep_host ep]"
    "field_values ''authorization'' (request_fields ep token ct extra body) = (if token = [] then [] else [''Bearer '' @ token])"
    using none by (auto simp: request_fields_def field_values_def lower_names)
qed

lemma built_asks:
  assumes "header_safe cl ep" "request_word verb" "word_text path" "path \<noteq> []" "content_type = [] \<or> field_value content_type"
  shows "asks_for cl ep (buildRequest verb ep (ep_path_prefix ep @ path) (cl_auth_token cl) content_type [] body) verb path"
proof -
  note hs = header_safeD [OF assms(1)]
  have "request_word (ep_path_prefix ep @ path)" using hs(3) assms(3,4) by (simp add: request_word_text word_text_append)
  moreover have "sendable_parts ep (cl_auth_token cl) content_type []"
    using hs(1,2) assms(5) by (simp add: sendable_parts_def)
  moreover have e: "fields_text [] = []" by (simp add: fields_text_def)
  ultimately show ?thesis
    using read_built_whole [OF assms(2), of "ep_path_prefix ep @ path" ep "cl_auth_token cl" content_type "[]" body]
    by (simp add: asks_for_def e asked_fields)
qed

lemma get_asks: "header_safe cl ep \<Longrightarrow> word_text path \<Longrightarrow> path \<noteq> [] \<Longrightarrow> asks_for cl ep (http_get cl ep path) ''GET'' path"
  unfolding http_get_def by (rule built_asks) (simp_all add: request_word_def)

lemma post_asks: "header_safe cl ep \<Longrightarrow> word_text path \<Longrightarrow> path \<noteq> [] \<Longrightarrow> asks_for cl ep (http_post cl ep path) ''POST'' path"
  unfolding http_post_def by (rule built_asks) (simp_all add: request_word_def field_value_def is_blank_def)

lemma infer_asks:
  assumes "header_safe cl ep"
  shows "asks_for cl ep (infer_http_request os cl ep dumped blob) ''POST'' (model_path cl @ ''/infer'')"
proof -
  have "to_lower ''Inference-Header-Content-Length'' \<notin> {''host'', ''authorization''}" by code_simp
  then have x: "list_all (\<lambda>(n, v). to_lower n \<notin> {''host'', ''authorization''}) (payload_fields b dumped)" for b
    by (simp add: payload_fields_def)
  show ?thesis
    unfolding asks_for_def infer_request_message [OF assms]
    by (simp add: infer_target_def model_path_def asked_fields [OF x])
qed

text \<open>The answer a response stands for, and what the client remembers of an answer.\<close>

fun http_says :: "'j json_api \<Rightarrow> api_call \<Rightarrow> answer \<Rightarrow> HttpResponse \<Rightarrow> bool" where
  "http_says J Get_metadata (Metadata md) resp =
     (hr_status resp = 200 \<and>
      (\<exists>others. js_parse J (hr_body resp) = Inr (metadata_doc J others md) \<and> distinct (map fst others) \<and>
         {''platform'', ''inputs'', ''outputs''} \<inter> fst ` set others = {}))"
| "http_says J (Run_inference inputs) (Tensors outs) resp = http_carries J outs resp"
| "http_says J Ask_server_live (Flag b) resp = ((hr_status resp = 200) = b)"
| "http_says J Ask_server_ready (Flag b) resp = ((hr_status resp = 200) = b)"
| "http_says J Ask_model_ready (Flag b) resp = ((hr_status resp = 200) = b)"
| "http_says J Get_index (Models ms) resp =
     (hr_status resp = 200 \<and> list_all (\<lambda>m. rm_name m \<noteq> []) ms \<and>
      js_parse J (hr_body resp) = Inr (js_of_array J (map (\<lambda>m. js_object J (model_fields J m)) ms)))"
| "http_says J (Load_model name) Done resp = (hr_status resp = 200)"
| "http_says J (Unload_model name) Done resp = (hr_status resp = 200)"
| "http_says J c a resp = False"

fun learnt :: "answer \<Rightarrow> HttpClient \<Rightarrow> HttpClient" where
  "learnt (Metadata md) cl = cl\<lparr>cl_output_names := map ts_name (mm_outputs md)\<rparr>"
| "learnt a cl = cl"

text \<open>
  A call the client can put into a request: the texts that go into the head can stand there; the
  inputs encode; in binary mode all payloads together are shorter than \<open>2^63\<close> bytes, and otherwise
  FP32 and FP16 tensors hold no NaN; and the JSON library reads back the document it writes.
\<close>

definition json_writes :: "'j json_api \<Rightarrow> 'j \<Rightarrow> bool" where
  "json_writes J doc \<longleftrightarrow> (\<exists>t. js_dump J doc = Inr t \<and> js_parse J t = Inr doc)"

definition http_can_send :: "os \<Rightarrow> 'j json_api \<Rightarrow> HttpClient \<Rightarrow> Endpoint \<Rightarrow> api_call \<Rightarrow> bool" where
  "http_can_send os J cl ep c \<longleftrightarrow> header_safe cl ep \<and>
     (case c of
        Run_inference inputs \<Rightarrow>
          list_all (http_sendable (binaryEnabled os)) inputs \<and>
          (if binaryEnabled os then length (concat (map (\<lambda>x. the (ii_data x)) inputs)) < 2 ^ 63
           else list_all (\<lambda>x. carries_no_nan (ii_datatype x) (the (ii_data x))) inputs) \<and>
          (\<forall>nodes blob. encode_inputs J (binaryEnabled os) inputs [] = Inr (nodes, blob) \<longrightarrow>
             json_writes J (infer_request J (binaryEnabled os) (cl_output_names cl) nodes))
      | Load_model name \<Rightarrow> word_text name
      | Unload_model name \<Rightarrow> word_text name
      | _ \<Rightarrow> True)"

lemma encode_inputs_data: "is_ok (encode_inputs J binary inputs blob) \<Longrightarrow> list_all (\<lambda>x. ii_data x \<noteq> None) inputs"
  unfolding encode_inputs_ok by (auto simp: list_all_iff http_sendable_def split: option.splits)

lemma can_send_infer:
  assumes "http_can_send os J cl ep (Run_inference inputs)"
  obtains nodes blob dumped where "encode_inputs J (binaryEnabled os) inputs [] = Inr (nodes, blob)"
    "js_dump J (infer_request J (binaryEnabled os) (cl_output_names cl) nodes) = Inr dumped"
    "js_parse J dumped = Inr (infer_request J (binaryEnabled os) (cl_output_names cl) nodes)"
    "if binaryEnabled os then length blob < 2 ^ 63
     else list_all (\<lambda>x. carries_no_nan (ii_datatype x) (the (ii_data x))) inputs"
    "header_safe cl ep" "list_all (\<lambda>x. ii_data x \<noteq> None) inputs"
proof -
  have s: "header_safe cl ep" "list_all (http_sendable (binaryEnabled os)) inputs"
    "if binaryEnabled os then length (concat (map (\<lambda>x. the (ii_data x)) inputs)) < 2 ^ 63
     else list_all (\<lambda>x. carries_no_nan (ii_datatype x) (the (ii_data x))) inputs"
    and w: "\<And>nodes blob. encode_inputs J (binaryEnabled os) inputs [] = Inr (nodes, blob) \<Longrightarrow>
      json_writes J (infer_request J (binaryEnabled os) (cl_output_names cl) nodes)"
    using assms unfolding http_can_send_def api_call.case by blast+
  have ok: "is_ok (encode_inputs J (binaryEnabled os) inputs [])" using s(2) by (simp add: encode_inputs_ok)
  then obtain nodes blob where e: "encode_inputs J (binaryEnabled os) inputs [] = Inr (nodes, blob)"
    by (cases "encode_inputs J (binaryEnabled os) inputs []") auto
  obtain dumped where d: "js_dump J (infer_request J (binaryEnabled os) (cl_output_names cl) nodes) = Inr dumped"
    "js_parse J dumped = Inr (infer_request J (binaryEnabled os) (cl_output_names cl) nodes)"
    using w [OF e] unfolding json_writes_def by blast
  have "binaryEnabled os \<Longrightarrow> blob = concat (map (\<lambda>x. the (ii_data x)) inputs)"
    using encode_inputs_binary [of J inputs "[]" nodes blob] e by (simp add: tensor_of_def)
  then have "if binaryEnabled os then length blob < 2 ^ 63
     else list_all (\<lambda>x. carries_no_nan (ii_datatype x) (the (ii_data x))) inputs" using s(3) by (simp split: if_splits)
  with that e d s(1) encode_inputs_data [OF ok] show thesis by blast
qed

text \<open>
  Whatever a server can take for the call is answered in one exchange, with a response that says
  \<open>a\<close> and leaves a state in \<open>P\<close>.
\<close>

definition replied ::
    "os \<Rightarrow> 'j json_api \<Rightarrow> Endpoint \<Rightarrow> client_state \<Rightarrow> api_call \<Rightarrow> answer \<Rightarrow> (http_state \<Rightarrow> bool) \<Rightarrow> bool" where
  "replied os J ep s c a P \<longleftrightarrow>
     (\<forall>request. http_asks J (fst s) ep request c \<longrightarrow>
        (\<exists>resp w'. exchange os ep request s = Some (Inr resp, (fst s, w')) \<and> http_says J c a resp \<and> P w'))"

lemma repliedE:
  assumes "replied os J ep (cl, w) c a P" "http_asks J cl ep request c"
  obtains resp w' where "exchange os ep request (cl, w) = Some (Inr resp, (cl, w'))" "http_says J c a resp" "P w'"
  using assms unfolding replied_def fst_conv by blast

lemma performs_infer:
  assumes "json_laws J" "parseEndpoint (cl_endpoint cl) 8080 = Inr ep" "http_can_send os J cl ep (Run_inference inputs)"
    and "replied os J ep (cl, w) (Run_inference inputs) a P"
  shows "\<exists>w'. perform (http_iclient os J) (Run_inference inputs) (cl, w) = Some (Inr a, (learnt a cl, w')) \<and> P w'"
proof -
  obtain nodes blob dumped where e: "encode_inputs J (binaryEnabled os) inputs [] = Inr (nodes, blob)"
    and d: "js_dump J (infer_request J (binaryEnabled os) (cl_output_names cl) nodes) = Inr dumped"
    and p: "js_parse J dumped = Inr (infer_request J (binaryEnabled os) (cl_output_names cl) nodes)"
    and l: "if binaryEnabled os then length blob < 2 ^ 63
            else list_all (\<lambda>x. carries_no_nan (ii_datatype x) (the (ii_data x))) inputs"
    and hs: "header_safe cl ep" and data: "list_all (\<lambda>x. ii_data x \<noteq> None) inputs"
    using assms(3) by (rule can_send_infer)
  have "http_asks J cl ep (infer_http_request os cl ep dumped blob) (Run_inference inputs)"
    using request_read [OF assms(1) e d p l hs] infer_asks [OF hs] data by simp
  from repliedE [OF assms(4) this] obtain resp w' where
    x: "exchange os ep (infer_http_request os cl ep dumped blob) (cl, w) = Some (Inr resp, (cl, w'))"
    and r: "http_says J (Run_inference inputs) a resp" "P w'" by blast
  obtain outs where a: "a = Tensors outs" "http_carries J outs resp" using r(1) by (cases a) auto
  have "http_infer os J inputs (cl, w) = Some (Inr outs, (cl, w'))"
    using http_infer_exchange [OF assms(2) e d x] http_reader.reads_carried [OF a(2)] by simp
  then have "answering Tensors (http_infer os J inputs) (cl, w) = Some (Inr a, (cl, w'))"
    unfolding a(1) by (rule answering_result)
  then show ?thesis using r(2) a(1) by (intro exI [of _ w']) (simp add: http_iclient_def)
qed

lemma performs_metadata:
  assumes "json_laws J" "parseEndpoint (cl_endpoint cl) 8080 = Inr ep" "replied os J ep (cl, w) Get_metadata a P"
    and "header_safe cl ep"
  shows "\<exists>w'. perform (http_iclient os J) Get_metadata (cl, w) = Some (Inr a, (learnt a cl, w')) \<and> P w'"
proof -
  have "http_asks J cl ep (http_get cl ep (''/v2/models/'' @ cl_model_name cl)) Get_metadata"
    using get_asks [OF assms(4)] header_safeD [OF assms(4)] by (simp add: word_text_append word_text_def)
  from repliedE [OF assms(3) this] obtain resp w' where
    x: "exchange os ep (http_get cl ep (''/v2/models/'' @ cl_model_name cl)) (cl, w) = Some (Inr resp, (cl, w'))"
    and r: "http_says J Get_metadata a resp" and P: "P w'" by blast
  obtain md others where a: "a = Metadata md" and s: "hr_status resp = 200"
    and d: "js_parse J (hr_body resp) = Inr (metadata_doc J others md)" "distinct (map fst others)"
      "{''platform'', ''inputs'', ''outputs''} \<inter> fst ` set others = {}"
    using r by (cases a) auto
  have "answering Metadata (http_modelMetadata os J) (cl, w) = Some (Inr (Metadata md), (learnt a cl, w'))"
    using metadata_returned [OF assms(1,2) x [unfolded http_get_def] s d] by (intro answering_result) (simp add: a)
  then show ?thesis using P by (intro exI [of _ w']) (simp add: a http_iclient_def)
qed

text \<open>The probes and the repository operations, which differ in the path and in what they make of a response.\<close>

lemma performs_probe:
  assumes "parseEndpoint (cl_endpoint cl) 8080 = Inr ep" "replied os J ep (cl, w) c a P"
    and "http_asks J cl ep (http_get cl ep path) c"
    and "\<And>resp. http_says J c a resp \<Longrightarrow> a = Flag (hr_status resp = 200)"
    and "perform (http_iclient os J) c (cl, w) = answering Flag (http_probe os path) (cl, w)"
  shows "\<exists>w'. perform (http_iclient os J) c (cl, w) = Some (Inr a, (learnt a cl, w')) \<and> P w'"
proof -
  obtain resp w' where x: "exchange os ep (http_get cl ep path) (cl, w) = Some (Inr resp, (cl, w'))"
    and r: "http_says J c a resp" and P: "P w'" using assms(2,3) by (rule repliedE)
  have "http_probe os path (cl, w) = Some (Inr (hr_status resp = 200), (cl, w'))"
    using x by (simp add: probe_result [OF assms(1)] http_get_def)
  then have "answering Flag (http_probe os path) (cl, w) = Some (Inr (Flag (hr_status resp = 200)), (cl, w'))"
    by (rule answering_result)
  then show ?thesis using assms(4) [OF r] assms(5) P by (intro exI [of _ w']) simp
qed

lemma performs_post:
  assumes "parseEndpoint (cl_endpoint cl) 8080 = Inr ep" "replied os J ep (cl, w) c a P"
    and "http_asks J cl ep (http_post cl ep path) c"
    and "\<And>resp. http_says J c a resp \<Longrightarrow> hr_status resp = 200 \<and> learnt a cl = cl"
    and "\<And>resp w'. postRepository os path ''{}'' (cl, w) = Some (Inr resp, (cl, w')) \<Longrightarrow> http_says J c a resp \<Longrightarrow>
      perform (http_iclient os J) c (cl, w) = Some (Inr a, (cl, w'))"
  shows "\<exists>w'. perform (http_iclient os J) c (cl, w) = Some (Inr a, (learnt a cl, w')) \<and> P w'"
proof -
  obtain resp w' where x: "exchange os ep (http_post cl ep path) (cl, w) = Some (Inr resp, (cl, w'))"
    and r: "http_says J c a resp" and P: "P w'" using assms(2,3) by (rule repliedE)
  have "postRepository os path ''{}'' (cl, w) = Some (Inr resp, (cl, w'))"
    using postRepository_result [OF assms(1) x [unfolded http_post_def]] assms(4) [OF r] by simp
  from assms(5) [OF this r] show ?thesis using assms(4) [OF r] P by (intro exI [of _ w']) simp
qed

text \<open>The paths of the client are those of the protocol, and can stand in a request.\<close>

lemma client_paths:
  assumes "header_safe cl ep"
  shows "modelReadyPath (cl_model_name cl) (cl_model_version cl) = model_path cl @ ''/ready''" "word_text (model_path cl @ ''/ready'')"
    "word_text serverLivePath" "word_text serverReadyPath" "word_text repositoryIndexPath"
    "word_text name \<Longrightarrow> word_text (repositoryModelLoadPath name)" "word_text name \<Longrightarrow> word_text (repositoryModelUnloadPath name)"
proof -
  note hs = header_safeD [OF assms]
  have w: "word_text ''/v2/models/''" "word_text ''/versions/''" "word_text ''/ready''" "word_text []"
    "word_text ''/v2/repository/models/''" "word_text ''/load''" "word_text ''/unload''"
    by code_simp+
  show "modelReadyPath (cl_model_name cl) (cl_model_version cl) = model_path cl @ ''/ready''"
    by (simp add: modelReadyPath_def model_path_def)
  show "word_text (model_path cl @ ''/ready'')"
    unfolding model_path_def word_text_append using hs w by (simp only: simp_thms word_text_append split: if_split)
  show "word_text serverLivePath" "word_text serverReadyPath" "word_text repositoryIndexPath" by code_simp+
  show "word_text name \<Longrightarrow> word_text (repositoryModelLoadPath name)" "word_text name \<Longrightarrow> word_text (repositoryModelUnloadPath name)"
    unfolding repositoryModelLoadPath_def repositoryModelUnloadPath_def word_text_append using w by simp_all
qed

lemma http_performs:
  assumes "json_laws J" "parseEndpoint (cl_endpoint cl) 8080 = Inr ep" "http_can_send os J cl ep c"
    and "replied os J ep (cl, w) c a P"
  shows "\<exists>w'. perform (http_iclient os J) c (cl, w) = Some (Inr a, (learnt a cl, w')) \<and> P w'"
proof -
  have hs: "header_safe cl ep" using assms(3) by (simp add: http_can_send_def)
  note paths = client_paths [OF hs] and gets = get_asks [OF hs] and posts = post_asks [OF hs]
  show ?thesis
  proof (cases c)
    case Get_metadata
    then show ?thesis using performs_metadata assms hs by blast
  next
    case (Run_inference inputs)
    then show ?thesis using performs_infer assms by blast
  next
    case Ask_server_live
    show ?thesis
      by (rule performs_probe [OF assms(2,4), of serverLivePath])
        (use gets [OF paths(3)] in \<open>auto simp: Ask_server_live http_iclient_def http_serverLive_def serverLivePath_def elim: http_says.elims\<close>)
  next
    case Ask_server_ready
    show ?thesis
      by (rule performs_probe [OF assms(2,4), of serverReadyPath])
        (use gets [OF paths(4)] in \<open>auto simp: Ask_server_ready http_iclient_def http_serverReady_def serverReadyPath_def elim: http_says.elims\<close>)
  next
    case Ask_model_ready
    show ?thesis
      by (rule performs_probe [OF assms(2,4), of "model_path cl @ ''/ready''"])
        (use gets [OF paths(2)] in \<open>auto simp: Ask_model_ready http_iclient_def http_modelReady_def answering_def bindP_def get_client_def
          prog_basic paths(1) elim: http_says.elims\<close>)
  next
    case Get_index
    show ?thesis
      by (rule performs_post [OF assms(2,4), of repositoryIndexPath]; cases a)
        (use posts [OF paths(5)] in \<open>simp_all add: Get_index http_iclient_def http_repositoryIndex_def answering_def bindP_def prog_basic
          parseRepositoryIndex_models [OF assms(1)] repositoryIndexPath_def\<close>)
  next
    case (Load_model name)
    then have n: "word_text name" using assms(3) by (simp add: http_can_send_def)
    show ?thesis
      by (rule performs_post [OF assms(2,4), of "repositoryModelLoadPath name"]; cases a)
        (use posts [OF paths(6) [OF n]] in \<open>simp_all add: Load_model http_iclient_def http_loadModel_def answering_def bindP_def prog_basic
          repositoryModelLoadPath_def\<close>)
  next
    case (Unload_model name)
    then have n: "word_text name" using assms(3) by (simp add: http_can_send_def)
    show ?thesis
      by (rule performs_post [OF assms(2,4), of "repositoryModelUnloadPath name"]; cases a)
        (use posts [OF paths(7) [OF n]] in \<open>simp_all add: Unload_model http_iclient_def http_unloadModel_def answering_def bindP_def prog_basic
          repositoryModelUnloadPath_def\<close>)
  qed
qed

section \<open>Calls that fail\<close>

text \<open>The request a call sends, if its inputs can be encoded.\<close>

fun http_request :: "os \<Rightarrow> 'j json_api \<Rightarrow> HttpClient \<Rightarrow> Endpoint \<Rightarrow> api_call \<Rightarrow> string result" where
  "http_request os J cl ep Get_metadata = Inr (http_get cl ep (''/v2/models/'' @ cl_model_name cl))"
| "http_request os J cl ep (Run_inference inputs) =
     bindR (encode_inputs J (binaryEnabled os) inputs []) (\<lambda>(nodes, blob).
     bindR (js_dump J (infer_request J (binaryEnabled os) (cl_output_names cl) nodes)) (\<lambda>dumped.
       Inr (infer_http_request os cl ep dumped blob)))"
| "http_request os J cl ep Ask_server_live = Inr (http_get cl ep serverLivePath)"
| "http_request os J cl ep Ask_server_ready = Inr (http_get cl ep serverReadyPath)"
| "http_request os J cl ep Ask_model_ready =
     Inr (http_get cl ep (modelReadyPath (cl_model_name cl) (cl_model_version cl)))"
| "http_request os J cl ep Get_index = Inr (http_post cl ep repositoryIndexPath)"
| "http_request os J cl ep (Load_model name) = Inr (http_post cl ep (repositoryModelLoadPath name))"
| "http_request os J cl ep (Unload_model name) = Inr (http_post cl ep (repositoryModelUnloadPath name))"

text \<open>What a caller sees of a response with a status other than 200.\<close>

definition status_and_body :: "string \<Rightarrow> HttpResponse \<Rightarrow> answer result" where
  "status_and_body what resp = Inl (Runtime_error (what @ '': HTTP '' @ string_of_int (hr_status resp) @ '' '' @ hr_body resp))"

fun refusal :: "api_call \<Rightarrow> HttpResponse \<Rightarrow> answer result" where
  "refusal Get_metadata resp =
     Inl (Runtime_error (''KServe metadata fetch failed: HTTP '' @ string_of_int (hr_status resp)))"
| "refusal (Run_inference inputs) resp = status_and_body ''KServe inference failed'' resp"
| "refusal Ask_server_live resp = Inr (Flag False)"
| "refusal Ask_server_ready resp = Inr (Flag False)"
| "refusal Ask_model_ready resp = Inr (Flag False)"
| "refusal Get_index resp = status_and_body ''KServe repository request failed'' resp"
| "refusal (Load_model name) resp = status_and_body ''KServe repository request failed'' resp"
| "refusal (Unload_model name) resp = status_and_body ''KServe repository request failed'' resp"

lemma infer_sent:
  assumes "parseEndpoint (cl_endpoint cl) 8080 = Inr ep" "http_request os J cl ep (Run_inference inputs) = Inr request"
  shows "http_infer os J inputs (cl, w) = bindP (exchange os ep request) (\<lambda>resp. of_result (infer_response J resp)) (cl, w)"
proof -
  obtain nodes blob dumped where e: "encode_inputs J (binaryEnabled os) inputs [] = Inr (nodes, blob)"
    "js_dump J (infer_request J (binaryEnabled os) (cl_output_names cl) nodes) = Inr dumped"
    "request = infer_http_request os cl ep dumped blob"
    using assms(2) by (auto simp: bindR_eq_Inr)
  obtain ct xh body where "infer_payload (binaryEnabled os) dumped blob = (ct, xh, body)"
    by (cases "infer_payload (binaryEnabled os) dumped blob")
  then show ?thesis
    using assms(1) e by (simp add: http_infer_def get_client_def bindP_def prog_basic Let_def infer_http_request_def)
qed

text \<open>
  C32: how calls fail. An exception of the exchange, a connection that cannot be made or breaks, a
  malformed response, after the retries the policy allows, reaches the caller of any operation
  unchanged. A status other than 200 is \<open>false\<close> for a probe and otherwise an exception that names
  the operation and the status, and except for metadata holds the body of the response. In neither case
  does the client change, beyond its connection.
\<close>

theorem http_failed_call:
  assumes "parseEndpoint (cl_endpoint cl) 8080 = Inr ep" "http_request os J cl ep c = Inr request"
    and "exchange os ep request (cl, w) = Some (r, (cl, w'))"
    and "case r of Inl e \<Rightarrow> True | Inr resp \<Rightarrow> hr_status resp \<noteq> 200"
  shows "perform (http_iclient os J) c (cl, w) =
    Some (case r of Inl e \<Rightarrow> Inl e | Inr resp \<Rightarrow> refusal c resp, (cl, w'))"
proof (cases c)
  case (Run_inference inputs)
  have "http_infer os J inputs (cl, w) = bindP (exchange os ep request) (\<lambda>resp. of_result (infer_response J resp)) (cl, w)"
    using infer_sent [OF assms(1)] assms(2) unfolding Run_inference by blast
  then show ?thesis
    using assms(3,4) by (auto simp: Run_inference http_iclient_def answering_def bindP_def prog_basic infer_response_def
        status_and_body_def split: sum.splits)
next
  case Get_metadata
  then show ?thesis
    using assms by (auto simp: http_iclient_def answering_def bindP_def prog_basic http_modelMetadata_def get_client_def
        http_get_def Let_def split: sum.splits)
qed (use assms in \<open>auto simp: http_iclient_def answering_def bindP_def prog_basic http_serverLive_def http_serverReady_def
    http_modelReady_def probe_result http_get_def get_client_def http_post_def postRepository_def http_repositoryIndex_def
    http_loadModel_def http_unloadModel_def status_and_body_def Let_def split: sum.splits\<close>)

section \<open>The client stands for the server\<close>

text \<open>
  A server behind HTTP. \<open>K\<close> relates its state to the client, the connection and the history.
  Whenever it answers a call, every request that asks this call is answered, possibly after attempts
  that fail, by a response that says the answer, and the relation holds again.
\<close>

definition http_serves ::
    "os \<Rightarrow> 'j json_api \<Rightarrow> 's model_server \<Rightarrow> ('s \<Rightarrow> client_state \<Rightarrow> bool) \<Rightarrow> bool" where
  "http_serves os J server K \<longleftrightarrow> json_laws J \<and> unit_random os \<and>
     (\<forall>s cl w c a s'. K s (cl, w) \<and> server s c = Some (a, s') \<longrightarrow>
        valid_policy (cl_retry_policy cl) \<and>
        (\<exists>ep. parseEndpoint (cl_endpoint cl) 8080 = Inr ep \<and>
           (\<forall>request. http_asks J cl ep request c \<longrightarrow>
              (\<exists>resp w'. http_answered os cl ep request w resp w' \<and> http_says J c a resp \<and> K s' (learnt a cl, w')))))"

text \<open>The calls the server answers are calls the client can send.\<close>

definition http_can_ask :: "os \<Rightarrow> 'j json_api \<Rightarrow> 's model_server \<Rightarrow> ('s \<Rightarrow> client_state \<Rightarrow> bool) \<Rightarrow> bool" where
  "http_can_ask os J server K \<longleftrightarrow>
     (\<forall>s cl w c a s' ep. K s (cl, w) \<and> server s c = Some (a, s') \<and> parseEndpoint (cl_endpoint cl) 8080 = Inr ep \<longrightarrow>
        http_can_send os J cl ep c)"

lemma http_servesD:
  assumes "http_serves os J server K" "http_can_ask os J server K" "K s (cl, w)" "server s c = Some (a, s')"
  obtains ep where "parseEndpoint (cl_endpoint cl) 8080 = Inr ep" "http_can_send os J cl ep c" "json_laws J"
    "replied os J ep (cl, w) c a (\<lambda>w'. K s' (learnt a cl, w'))"
proof -
  have s: "json_laws J" "unit_random os" "valid_policy (cl_retry_policy cl)"
    using assms unfolding http_serves_def by blast+
  obtain ep where ep: "parseEndpoint (cl_endpoint cl) 8080 = Inr ep"
    and r: "\<And>request. http_asks J cl ep request c \<Longrightarrow>
      \<exists>resp w'. http_answered os cl ep request w resp w' \<and> http_says J c a resp \<and> K s' (learnt a cl, w')"
    using assms unfolding http_serves_def by blast
  have "http_can_send os J cl ep c" using assms(2-4) ep unfolding http_can_ask_def by blast
  moreover have "replied os J ep (cl, w) c a (\<lambda>w'. K s' (learnt a cl, w'))"
    unfolding replied_def fst_conv using r exchange_answered [OF s(3,2)] by blast
  ultimately show thesis using ep s(1) that by blast
qed

interpretation http_service:
  stands_for "http_iclient os J" "\<lambda>s w. (http_serves os J server K \<and> http_can_ask os J server K) \<and> K s w" server
  for os :: os and J :: "'j json_api" and server :: "'s model_server" and K
proof unfold_locales
  fix s c a s' and w :: client_state
  assume R: "(http_serves os J server K \<and> http_can_ask os J server K) \<and> K s w" and c: "server s c = Some (a, s')"
  obtain cl v where w: "w = (cl, v)" by (cases w)
  have "http_serves os J server K" "http_can_ask os J server K" "K s (cl, v)" using R w by simp_all
  from http_servesD [OF this c] obtain ep where "parseEndpoint (cl_endpoint cl) 8080 = Inr ep"
    "http_can_send os J cl ep c" "json_laws J" "replied os J ep (cl, v) c a (\<lambda>v'. K s' (learnt a cl, v'))" .
  then show "\<exists>w'. perform (http_iclient os J) c w = Some (Inr a, w') \<and>
      (http_serves os J server K \<and> http_can_ask os J server K) \<and> K s' w'"
    using http_performs R unfolding w by blast
qed

section \<open>Witnesses\<close>

definition missing_os :: os where
  "missing_os = script_os (\<lambda>_. None) 9999 [''HTTP/1.1 404 Not Found'' @ crlf @ ''Content-Length: 2'' @ crlf @ crlf @ ''no'']"

theorem http_failed_call_witness:
  "\<exists>w'. perform (http_iclient missing_os plain_json) (Load_model ''m'') (demo_client, (new_connection, [])) =
     Some (Inl (Runtime_error ''KServe repository request failed: HTTP 404 no''), (demo_client, w'))"
proof -
  let ?rq = "http_post demo_client demo_endpoint (repositoryModelLoadPath ''m'')" and ?w = "(new_connection, [])"
  let ?resp = "\<lparr>hr_status = 404, hr_body = ''no'', hr_inference_header_length = - 1\<rparr>"
  have ep: "parseEndpoint (cl_endpoint demo_client) 8080 = Inr demo_endpoint" by code_simp
  have rq: "http_request missing_os plain_json demo_client demo_endpoint (Load_model ''m'') = Inr ?rq" by simp
  have "map_option fst (exchange missing_os demo_endpoint ?rq (demo_client, ?w)) = Some (Inr ?resp)" by code_simp
  then obtain cl w' where "exchange missing_os demo_endpoint ?rq (demo_client, ?w) = Some (Inr ?resp, (cl, w'))" by auto
  moreover from this have "cl = demo_client" using exchange_client by fastforce
  ultimately have x: "exchange missing_os demo_endpoint ?rq (demo_client, ?w) = Some (Inr ?resp, (demo_client, w'))" by simp
  have "string_of_int 404 = ''404''" by code_simp
  then show ?thesis using http_failed_call [OF ep rq x] by (simp add: status_and_body_def)
qed

end
