(* ===== verification/Grpc_Service.thy ===== *)
theory Grpc_Service
  imports Grpc_Client Model_Server
begin

text \<open>
  The gRPC client against a model server: what a server understands of a request message, what a
  response message means, and that the client then stands for the server.
\<close>

section \<open>Calls that succeed\<close>

text \<open>
  A call succeeds with a response and leaves a history: after some attempts with a transient status,
  one within the limit has the status OK.
\<close>

definition grpc_answered ::
    "grpc_net \<Rightarrow> GrpcClient \<Rightarrow> 'r stub \<Rightarrow> grpc_request \<Rightarrow> grpc_history \<Rightarrow> 'r \<Rightarrow> grpc_history \<Rightarrow> bool" where
  "grpc_answered net cl stub request h response h' \<longleftrightarrow>
     (\<exists>k v status.
        state_before (gc_retry_policy cl) (unary_call cl stub request)
          (\<lambda>(s, _). \<not> status_ok s \<and> isRetryableGrpcStatus (st_code s)) grpc_sleep (grpc_jitter net) h k = Some v \<and>
        k < nat (rp_max_attempts (gc_retry_policy cl)) \<and>
        stub v (gc_channel cl) (client_context cl) request = (status, response) \<and> st_code status = 0 \<and>
        h' = GCall (gc_channel cl) (client_context cl) request 0 # v)"

definition unit_grpc_random :: "grpc_net \<Rightarrow> bool" where
  "unit_grpc_random net = (\<forall>h. unit_double (gn_random net h))"

lemma rpc_answered:
  assumes "valid_policy (gc_retry_policy cl)" "unit_grpc_random net" "grpc_answered net cl stub request h response h'"
  shows "rpc net cl stub request what h = Some (Inr response, h')"
proof -
  have u: "unit_double (fst (grpc_jitter net w))" for w
    using assms(2) by (simp add: unit_grpc_random_def grpc_jitter_def Let_def)
  obtain k v status where k: "k < nat (rp_max_attempts (gc_retry_policy cl))"
    and b: "state_before (gc_retry_policy cl) (unary_call cl stub request)
      (\<lambda>(s, _). \<not> status_ok s \<and> isRetryableGrpcStatus (st_code s)) grpc_sleep (grpc_jitter net) h k = Some v"
    and s: "stub v (gc_channel cl) (client_context cl) request = (status, response)" "st_code status = 0"
      "h' = GCall (gc_channel cl) (client_context cl) request 0 # v"
    using assms(3) unfolding grpc_answered_def by blast
  have "unary_call cl stub request v = Some (Inr (status, response), h')"
    using s by (simp add: unary_call_result Let_def)
  moreover have "is_final (\<lambda>(s, _). \<not> status_ok s \<and> isRetryableGrpcStatus (st_code s)) (Inr (status, response))"
    using s(2) by (simp add: final_status transient_def)
  ultimately have "retryGrpc net (gc_retry_policy cl) (unary_call cl stub request) h = Some (Inr (status, response), h')"
    unfolding retryGrpc_def retry_iff [OF assms(1) u] using k b by blast
  then show ?thesis using s(2) by (simp add: rpc_def bindP_def status_ok_def prog_basic)
qed

lemma rpc_answered_any:
  assumes "valid_policy (gc_retry_policy cl)" "unit_grpc_random net" "grpc_answered net cl stub request h response h'"
  shows "\<forall>what. rpc net cl stub request what h = Some (Inr response, h')"
  using rpc_answered [OF assms] by blast

section \<open>What a server understands and what it says\<close>

fun grpc_asks :: "GrpcClient \<Rightarrow> grpc_request \<Rightarrow> api_call \<Rightarrow> bool" where
  "grpc_asks cl request Get_metadata = (request = ModelMetadataRequest (gc_model_name cl) (gc_model_version cl))"
| "grpc_asks cl request (Run_inference inputs) =
     (\<exists>rq. request = InferRequest rq \<and> rq_model_name rq = gc_model_name cl \<and> rq_model_version rq = gc_model_version cl \<and>
        server_inputs rq = Some inputs)"
| "grpc_asks cl request Ask_server_live = (request = ServerLiveRequest)"
| "grpc_asks cl request Ask_server_ready = (request = ServerReadyRequest)"
| "grpc_asks cl request Ask_model_ready = (request = ModelReadyRequest (gc_model_name cl) (gc_model_version cl))"
| "grpc_asks cl request Get_index = (request = RepositoryIndexRequest)"
| "grpc_asks cl request (Load_model name) = (request = RepositoryModelLoadRequest name)"
| "grpc_asks cl request (Unload_model name) = (request = RepositoryModelUnloadRequest name)"

text \<open>Messages that describe a tensor and an entry of the index; a datatype may be left out for \<open>FP32\<close>.\<close>

definition spec_says :: "TensorSpec \<Rightarrow> TensorMetadata \<Rightarrow> bool" where
  "spec_says spec t =
     (tm_name t = ts_name spec \<and> or_fp32 (tm_datatype t) = ts_datatype spec \<and> tm_shape t = ts_shape spec)"

definition metadata_says :: "ModelMetadata \<Rightarrow> ModelMetadataResponse \<Rightarrow> bool" where
  "metadata_says md response =
     (md_platform response = mm_platform md \<and> list_all2 spec_says (mm_inputs md) (md_inputs response) \<and>
      list_all2 spec_says (mm_outputs md) (md_outputs response))"

definition index_says :: "RepositoryModel \<Rightarrow> ModelIndex \<Rightarrow> bool" where
  "index_says m x =
     (mx_name x = rm_name m \<and> mx_version x = rm_version m \<and> mx_state x = rm_state m \<and> mx_reason x = rm_reason m)"

text \<open>A request is answered, by the method of the service it belongs to, with a response that says \<open>a\<close>.\<close>

fun grpc_replies ::
    "grpc_net \<Rightarrow> GrpcClient \<Rightarrow> grpc_request \<Rightarrow> grpc_history \<Rightarrow> api_call \<Rightarrow> answer \<Rightarrow> grpc_history \<Rightarrow> bool" where
  "grpc_replies net cl request h Get_metadata (Metadata md) h' =
     (\<exists>response. grpc_answered net cl (gn_ModelMetadata net) request h response h' \<and> metadata_says md response)"
| "grpc_replies net cl request h (Run_inference inputs) (Tensors outs) h' =
     (\<exists>response. grpc_answered net cl (gn_ModelInfer net) request h response h' \<and> grpc_carries outs response)"
| "grpc_replies net cl request h Ask_server_live (Flag b) h' = grpc_answered net cl (gn_ServerLive net) request h b h'"
| "grpc_replies net cl request h Ask_server_ready (Flag b) h' = grpc_answered net cl (gn_ServerReady net) request h b h'"
| "grpc_replies net cl request h Ask_model_ready (Flag b) h' = grpc_answered net cl (gn_ModelReady net) request h b h'"
| "grpc_replies net cl request h Get_index (Models ms) h' =
     (gn_repository net \<and>
      (\<exists>response. grpc_answered net cl (gn_RepositoryIndex net) request h response h' \<and> list_all2 index_says ms response))"
| "grpc_replies net cl request h (Load_model name) Done h' =
     (gn_repository net \<and> grpc_answered net cl (gn_RepositoryModelLoad net) request h () h')"
| "grpc_replies net cl request h (Unload_model name) Done h' =
     (gn_repository net \<and> grpc_answered net cl (gn_RepositoryModelUnload net) request h () h')"
| "grpc_replies net cl request h c a h' = False"

lemma tensor_specs_said: "list_all2 spec_says specs ts \<Longrightarrow> map tensor_spec ts = specs"
  by (induction rule: list_all2_induct) (auto simp: spec_says_def tensor_spec_def toShape_def)

lemma models_said: "list_all2 index_says ms xs \<Longrightarrow> map repository_model xs = ms"
  by (induction rule: list_all2_induct) (auto simp: index_says_def repository_model_def)

text \<open>
  A call the client can put into a message the protocol knows: the inputs encode, and with typed contents
  none of them is \<open>BOOL\<close>.
\<close>

definition grpc_can_send :: "grpc_net \<Rightarrow> api_call \<Rightarrow> bool" where
  "grpc_can_send net c =
     (case c of
        Run_inference inputs \<Rightarrow>
          list_all (sendable (rawContentsEnabled net)) inputs \<and>
          (rawContentsEnabled net \<or> list_all (\<lambda>x. ii_datatype x \<noteq> ''BOOL'') inputs)
      | _ \<Rightarrow> True)"

lemma grpc_performs_infer:
  assumes "valid_policy (gc_retry_policy cl)" "unit_grpc_random net" "grpc_can_send net (Run_inference inputs)"
    and "\<And>request. grpc_asks cl request (Run_inference inputs) \<Longrightarrow>
      \<exists>h'. grpc_replies net cl request h (Run_inference inputs) a h' \<and> P h'"
  shows "\<exists>h'. perform (grpc_iclient net cl) (Run_inference inputs) h = Some (Inr a, h') \<and> P h'"
proof -
  let ?raw = "rawContentsEnabled net"
  have s: "list_all (sendable ?raw) inputs" "?raw \<or> list_all (\<lambda>x. ii_datatype x \<noteq> ''BOOL'') inputs"
    using assms(3) by (simp_all add: grpc_can_send_def)
  obtain rq where rq: "add_inputs ?raw inputs (first_request cl) = Inr rq"
    using add_inputs_sendable [OF s(1)] by blast
  have "rq_model_name rq = gc_model_name cl" "rq_model_version rq = gc_model_version cl"
    using add_inputs_sendable [OF s(1), of "first_request cl"] rq by (auto simp: first_request_def)
  then have "grpc_asks cl (InferRequest rq) (Run_inference inputs)"
    using request_inputs_read [OF rq s(2)] by simp
  from assms(4) [OF this] obtain h' where r: "grpc_replies net cl (InferRequest rq) h (Run_inference inputs) a h'"
    and P: "P h'" by blast
  obtain outs response where a: "a = Tensors outs"
    and x: "grpc_answered net cl (gn_ModelInfer net) (InferRequest rq) h response h'" "grpc_carries outs response"
    using r by (cases a) auto
  have "grpc_infer net cl inputs h = Some (Inr outs, h')"
    using rpc_answered [OF assms(1,2) x(1)] grpc_reader.reads_carried [OF x(2)]
    by (simp add: grpc_infer_request [OF rq] bindP_def prog_basic)
  then have "answering Tensors (grpc_infer net cl inputs) h = Some (Inr a, h')"
    unfolding a by (rule answering_result)
  then show ?thesis using P by (auto simp: grpc_iclient_def)
qed

lemma grpc_performs:
  assumes "valid_policy (gc_retry_policy cl)" "unit_grpc_random net" "grpc_can_send net c"
    and "\<And>request. grpc_asks cl request c \<Longrightarrow> \<exists>h'. grpc_replies net cl request h c a h' \<and> P h'"
  shows "\<exists>h'. perform (grpc_iclient net cl) c h = Some (Inr a, h') \<and> P h'"
proof (cases "\<exists>inputs. c = Run_inference inputs")
  case True
  then show ?thesis using grpc_performs_infer assms by blast
next
  case False
  then obtain request where "grpc_asks cl request c" by (cases c) auto
  then obtain h' where r: "grpc_replies net cl request h c a h'" and q: "grpc_asks cl request c" and P: "P h'"
    using assms(4) by blast
  have "perform (grpc_iclient net cl) c h = Some (Inr a, h')"
    using r q False
    by (cases c; cases a)
      (auto simp: grpc_iclient_def answering_def bindP_def prog_basic grpc_modelMetadata_def grpc_serverLive_def
        grpc_serverReady_def grpc_modelReady_def grpc_repositoryIndex_def grpc_loadModel_def grpc_unloadModel_def
        metadata_says_def tensor_specs_said models_said Let_def dest!: rpc_answered_any [OF assms(1,2)])
  then show ?thesis using P by blast
qed

section \<open>The client stands for the server\<close>

definition grpc_serves ::
    "grpc_net \<Rightarrow> GrpcClient \<Rightarrow> 's model_server \<Rightarrow> ('s \<Rightarrow> grpc_history \<Rightarrow> bool) \<Rightarrow> bool" where
  "grpc_serves net cl server L \<longleftrightarrow> unit_grpc_random net \<and> valid_policy (gc_retry_policy cl) \<and>
     (\<forall>s h c a s'. L s h \<and> server s c = Some (a, s') \<longrightarrow>
        (\<forall>request. grpc_asks cl request c \<longrightarrow> (\<exists>h'. grpc_replies net cl request h c a h' \<and> L s' h')))"

text \<open>The calls a server answers in some state are calls the client can send.\<close>

definition grpc_can_ask :: "grpc_net \<Rightarrow> 's model_server \<Rightarrow> bool" where
  "grpc_can_ask net server \<longleftrightarrow> (\<forall>s c a s'. server s c = Some (a, s') \<longrightarrow> grpc_can_send net c)"

interpretation grpc_service:
  stands_for "grpc_iclient net cl" "\<lambda>s h. (grpc_serves net cl server L \<and> grpc_can_ask net server) \<and> L s h" server
  for net cl and server :: "'s model_server" and L
proof unfold_locales
  fix s h c a s'
  assume R: "(grpc_serves net cl server L \<and> grpc_can_ask net server) \<and> L s h" and c: "server s c = Some (a, s')"
  then have "unit_grpc_random net" "valid_policy (gc_retry_policy cl)" "grpc_can_send net c"
    "\<And>request. grpc_asks cl request c \<Longrightarrow> \<exists>h'. grpc_replies net cl request h c a h' \<and> L s' h'"
    unfolding grpc_serves_def grpc_can_ask_def by blast+
  from grpc_performs [OF this(2,1,3,4)] R
  show "\<exists>h'. perform (grpc_iclient net cl) c h = Some (Inr a, h') \<and>
      (grpc_serves net cl server L \<and> grpc_can_ask net server) \<and> L s' h'" by blast
qed

end
