(* ===== verification/Service_Example.thy ===== *)
theory Service_Example
  imports Http_Service Grpc_Service
begin

text \<open>
  A model server over both transports: it answers whether the model is loaded, loads it, and once it
  is loaded answers one inference. Behind HTTP it is a peer that reads the bytes sent to it and answers
  with a framed response; behind gRPC it is a set of stubs. Both keep no state of their own: what they
  know is the history.
\<close>

definition toy_server :: "bool model_server" where
  "toy_server loaded c =
     (if c = Load_model ''m'' then Some (Done, True)
      else if c = Ask_model_ready then Some (Flag loaded, loaded)
      else if loaded \<and> c = Run_inference [demo_input] then Some (Tensors [demo_out], loaded)
      else None)"

lemma toy_serverE:
  assumes "toy_server loaded c = Some (a, s')"
  obtains "c = Load_model ''m''" "a = Done" "s'"
  | "c = Ask_model_ready" "a = Flag loaded" "s' = loaded"
  | "c = Run_inference [demo_input]" "a = Tensors [demo_out]" "s' = loaded" "loaded"
  using assms unfolding toy_server_def by (metis option.distinct(1) option.inject prod.inject)

section \<open>A connection that has died\<close>

text \<open>
  A peer that answers on any socket but number 3, on which \<open>send\<close> fails: a connection kept from an
  earlier call turns out to be dead, the first attempt fails, and the second one, after the pause,
  connects anew.
\<close>

definition dead_socket :: "os \<Rightarrow> bool" where
  "dead_socket os \<longleftrightarrow>
     (\<forall>h. os_random os h = Fin (1 / 2)) \<and> (\<forall>h d. os_send os h 3 d = - 1) \<and>
     (\<forall>h host port. os_resolve os h host port = Inr [0]) \<and> (\<forall>h ai. os_socket os h ai = 3 + int (length h)) \<and>
     (\<forall>h fd ai. os_connect os h fd ai = True)"

definition connection_at :: "int \<Rightarrow> HttpConnection" where
  "connection_at fd = \<lparr>hc_transport = Some (PlainConnection fd), hc_host = ''h'', hc_port = 8080, hc_tls = False\<rparr>"

definition retried_history :: "string \<Rightarrow> history \<Rightarrow> history" where
  "retried_history rq h = ESleep 1 # ERandom (Fin (1 / 2)) # EClose 3 # ESend 3 rq (- 1) # h"

definition connected_history :: "string \<Rightarrow> history \<Rightarrow> history" where
  "connected_history rq h =
     (let fd = 8 + int (length h)
      in EConnect fd 0 True # ESetsockopt fd ''SO_SNDTIMEO'' 1 0 # ESetsockopt fd ''SO_RCVTIMEO'' 1 0 # ESocket fd #
         EResolve ''h'' ''8080'' # retried_history rq h)"

lemma dead_attempt:
  assumes "dead_socket os" "rq \<noteq> []"
  shows "roundTrip os demo_endpoint rq 1000 (connection_at 3, h) =
    Some (Inl (Runtime_error ''HTTP send failed''), (new_connection, EClose 3 # ESend 3 rq (- 1) # h))"
  using assms
  by (simp add: roundTrip_def on_exception_def bindP_def ensureConnected_def connection_at_def demo_endpoint_def
      prog_basic on_history_def plain_send.simps dead_socket_def Let_def drop_connection_def)

lemma dead_before:
  assumes "dead_socket os" "rq \<noteq> []"
  shows "before_attempt os demo_client demo_endpoint rq (connection_at 3, h) (Suc 0) =
    Some (new_connection, retried_history rq h)"
proof -
  have "backoffDelayMs demo_policy (int (Suc 0)) (Fin (1 / 2)) = Inr 1"
    unfolding backoff_half [OF demo_policy_valid] by (simp add: term_ms_def demo_policy_def)
  moreover have "cl_retry_policy demo_client = demo_policy" "cl_timeout_ms demo_client = 1000"
    by (simp_all add: demo_client_def)
  ultimately show ?thesis
    using assms(1)
    by (simp add: before_attempt_def retry_step_def dead_attempt [OF assms] is_final_def defaultJitter_def
        defaultSleep_def dead_socket_def Let_def retried_history_def)
qed

lemma dead_connects:
  assumes "dead_socket os"
  shows "ensureConnected os demo_endpoint 1000 (new_connection, retried_history rq h) =
    Some (Inr (PlainConnection (8 + int (length h))), (connection_at (8 + int (length h)), connected_history rq h))"
proof -
  have "string_of_int 8080 = ''8080''" "c_str ''h'' = ''h''" "cdiv 1000 1000 = 1" "cmod 1000 1000 = 0" by code_simp+
  then show ?thesis
    using assms
    by (simp add: ensureConnected_def new_connection_def drop_connection_def bindP_def on_history_def connect_def
        connectSocket_def demo_endpoint_def prog_basic Let_def dead_socket_def setTimeout_def connection_at_def
        connected_history_def retried_history_def)
qed

section \<open>Behind HTTP\<close>

text \<open>What the peer reads in the bytes it has received, and what it makes of it.\<close>

definition request_call :: "string \<Rightarrow> (string \<times> string) option" where
  "request_call request = map_option (\<lambda>q. (req_verb q, req_target q)) (read_request request)"

definition load_call :: "(string \<times> string) option" where
  "load_call = Some (''POST'', ''/v2/repository/models/m/load'')"

definition ready_call :: "(string \<times> string) option" where
  "ready_call = Some (''GET'', ''/v2/models/m/ready'')"

fun http_loaded :: "history \<Rightarrow> bool" where
  "http_loaded [] = False"
| "http_loaded (ESend fd request n # h) = (0 \<le> n \<and> request_call request = load_call \<or> http_loaded h)"
| "http_loaded (e # h) = http_loaded h"

text \<open>Status, reason and framing of the response to a request.\<close>

definition toy_response :: "bool \<Rightarrow> string \<Rightarrow> nat \<times> string \<times> framing" where
  "toy_response loaded request =
     (if request_call request = load_call then (200, ''OK'', Chunked [''Transfer-Encoding: chunked''] [''{'', ''}''])
      else if request_call request = ready_call then
        (if loaded then (200, ''OK'', Counted [] [] ''{}'') else (400, ''Bad Request'', Counted [] [] []))
      else (200, ''OK'', Counted [''Inference-Header-Content-Length: 2''] [] ''[]123''))"

definition toy_text :: "bool \<Rightarrow> string \<Rightarrow> string" where
  "toy_text loaded request =
     (case toy_response loaded request of (status, reason, f) \<Rightarrow>
        render_response status reason (framing_headers f) (framing_payload f))"

definition toy_os :: os where
  "toy_os = (script_os (\<lambda>_. None) 9999 [])
     \<lparr>os_send := (\<lambda>h fd d. if fd = 3 then - 1 else int (length d)),
      os_recv := (\<lambda>h fd n. case h of ESend _ request _ # _ \<Rightarrow> Some (toy_text (http_loaded h) request) | _ \<Rightarrow> Some [])\<rparr>"

lemma toy_os_dead: "dead_socket toy_os"
  by (simp add: dead_socket_def toy_os_def script_os_def)

definition toy_json :: "json json_api" where
  "toy_json =
     doc_api
       [(''{}'', infer_request (doc_api [] []) False [] (case encode_inputs (doc_api [] []) False [demo_input] [] of
                   Inl _ \<Rightarrow> [] | Inr (nodes, _) \<Rightarrow> nodes)),
        (''[]'', response_doc (doc_api [] []) [] [binary_node (doc_api [] []) demo_out])] ''{}''"

text \<open>The connection is the dead one or any other.\<close>

fun toy_state :: "bool \<Rightarrow> client_state \<Rightarrow> bool" where
  "toy_state loaded (cl, (conn, h)) \<longleftrightarrow> cl = demo_client \<and> (\<exists>fd. conn = connection_at fd) \<and> http_loaded h = loaded"

lemma toy_framed:
  assumes "toy_response loaded request = (status, reason, f)"
  shows "framed_segments status reason f [toy_text loaded request]" "\<not> isRetryableHttpStatus (int status)"
    "\<not> wantsClose (toy_text loaded request)" "toy_text loaded request \<noteq> []" "\<not> until_close f"
proof -
  have "list_all (\<lambda>(status, reason, f).
      framed_segments status reason f [render_response status reason (framing_headers f) (framing_payload f)] \<and>
      \<not> isRetryableHttpStatus (int status) \<and>
      \<not> wantsClose (render_response status reason (framing_headers f) (framing_payload f)))
    [(200, ''OK'', Chunked [''Transfer-Encoding: chunked''] [''{'', ''}'']), (200, ''OK'', Counted [] [] ''{}''),
     (400, ''Bad Request'', Counted [] [] []), (200, ''OK'', Counted [''Inference-Header-Content-Length: 2''] [] ''[]123'')]"
    by code_simp
  then show "framed_segments status reason f [toy_text loaded request]" "\<not> isRetryableHttpStatus (int status)"
    "\<not> wantsClose (toy_text loaded request)"
    using assms by (auto simp: toy_text_def toy_response_def split: if_splits)
  show "\<not> until_close f" using assms by (auto simp: toy_response_def split: if_splits)
  show "toy_text loaded request \<noteq> []"
    by (simp add: toy_text_def render_response_def render_head_def split: prod.split)
qed

text \<open>The exchange, once there is a connection that is not dead.\<close>

lemma toy_exchange:
  assumes "request \<noteq> []" "fd \<noteq> 3"
    and "toy_response (http_loaded (ESend fd request (int (length request)) # h)) request = (status, reason, f)"
    and "before_attempt toy_os demo_client demo_endpoint request s k = Some v" "k < 2"
    and "ensureConnected toy_os demo_endpoint 1000 v = Some (Inr (PlainConnection fd), (connection_at fd, h))"
  shows "\<exists>h'. http_answered toy_os demo_client demo_endpoint request s (framed_response status reason f)
      (connection_at fd, h') \<and> http_loaded h' = http_loaded (ESend fd request (int (length request)) # h)"
proof -
  let ?h = "ESend fd request (int (length request)) # h"
  let ?t = "toy_text (http_loaded ?h) request"
  note fr = toy_framed [OF assms(3)]
  have "sendAll toy_os (PlainConnection fd) request h = Some (Inr (), ?h)"
    using assms(1,2) by (simp add: plain_send.simps toy_os_def)
  moreover have r: "recvSome toy_os (PlainConnection fd) 4096 ?h = (Some ?t, ERecv fd (Some ?t) # ?h)"
    by (simp add: toy_os_def Let_def del: http_loaded.simps)
  ultimately have a: "answers toy_os (PlainConnection fd) request h f [?t] (ERecv fd (Some ?t) # ?h)"
    using fr(4,5) by (simp add: answers_def del: recvSome.simps http_loaded.simps)
  have k: "k < nat (rp_max_attempts (cl_retry_policy demo_client))" "cl_timeout_ms demo_client = 1000"
    using assms(5) by (simp_all add: demo_client_def demo_policy_def)
  have e: "ensureConnected toy_os demo_endpoint (cl_timeout_ms demo_client) v = Some (Inr (PlainConnection fd), (connection_at fd, h))"
    using assms(6) k(2) by simp
  have "settled f [?t] (connection_at fd, ERecv fd (Some ?t) # ?h) = (connection_at fd, ERecv fd (Some ?t) # ?h)"
    using fr(3,5) by (simp add: settled_def del: http_loaded.simps)
  then have "http_answered toy_os demo_client demo_endpoint request s
      (framed_response status reason f) (connection_at fd, ERecv fd (Some ?t) # ?h)"
    unfolding http_answered_def using assms(4) k(1) e a fr(1,2) by metis
  moreover have "http_loaded (ERecv fd (Some ?t) # ?h) = http_loaded ?h" by simp
  ultimately show ?thesis by blast
qed

text \<open>Over the dead connection the second attempt is answered, over any other one the first.\<close>

lemma toy_answered:
  assumes "request \<noteq> []"
    and "toy_response (request_call request = load_call \<or> http_loaded h) request = (status, reason, f)"
  shows "\<exists>fd' h'. http_answered toy_os demo_client demo_endpoint request (connection_at fd, h) (framed_response status reason f)
      (connection_at fd', h') \<and> http_loaded h' = (request_call request = load_call \<or> http_loaded h)"
proof (cases "fd = 3")
  case False
  have l: "http_loaded (ESend fd request (int (length request)) # h) = (request_call request = load_call \<or> http_loaded h)"
    by simp
  have "ensureConnected toy_os demo_endpoint 1000 (connection_at fd, h) = Some (Inr (PlainConnection fd), (connection_at fd, h))"
    by (rule ensureConnected_kept) (simp_all add: connection_at_def demo_endpoint_def)
  moreover have "before_attempt toy_os demo_client demo_endpoint request (connection_at fd, h) 0 = Some (connection_at fd, h)"
    by (simp add: before_attempt_def)
  ultimately show ?thesis
    using toy_exchange [OF assms(1) False, of h status reason f "(connection_at fd, h)" 0 "(connection_at fd, h)"] assms(2)
    unfolding l by fastforce
next
  case True
  let ?fd = "8 + int (length h)" and ?h = "connected_history request h"
  have l: "http_loaded (ESend ?fd request (int (length request)) # ?h) = (request_call request = load_call \<or> http_loaded h)"
    by (simp add: connected_history_def retried_history_def Let_def)
  have "before_attempt toy_os demo_client demo_endpoint request (connection_at fd, h) 1 =
      Some (new_connection, retried_history request h)"
    using dead_before [OF toy_os_dead assms(1)] True by simp
  then show ?thesis
    using toy_exchange [OF assms(1), of ?fd ?h status reason f "(connection_at fd, h)" 1] assms(2)
      dead_connects [OF toy_os_dead, of request h]
    unfolding l by fastforce
qed

text \<open>The three requests, as far as the server looks at them.\<close>

lemma asked_call:
  assumes "asks_for cl ep request verb path"
  shows "request_call request = Some (verb, ep_path_prefix ep @ path) \<and> request \<noteq> []"
proof -
  have "read_request [] = None" by code_simp
  then show ?thesis using assms by (auto simp: asks_for_def request_call_def split: option.splits)
qed

lemma toy_requests:
  "http_asks toy_json demo_client demo_endpoint rq (Load_model ''m'') \<Longrightarrow> request_call rq = load_call \<and> rq \<noteq> []"
  "http_asks toy_json demo_client demo_endpoint rq Ask_model_ready \<Longrightarrow>
     request_call rq = ready_call \<and> request_call rq \<noteq> load_call \<and> rq \<noteq> []"
  "http_asks toy_json demo_client demo_endpoint rq (Run_inference inputs) \<Longrightarrow>
     request_call rq \<noteq> ready_call \<and> request_call rq \<noteq> load_call \<and> rq \<noteq> []"
proof -
  have d: "ep_path_prefix demo_endpoint = []" "model_path demo_client = ''/v2/models/m''" by code_simp+
  show "http_asks toy_json demo_client demo_endpoint rq (Load_model ''m'') \<Longrightarrow> request_call rq = load_call \<and> rq \<noteq> []"
    "http_asks toy_json demo_client demo_endpoint rq Ask_model_ready \<Longrightarrow>
       request_call rq = ready_call \<and> request_call rq \<noteq> load_call \<and> rq \<noteq> []"
    "http_asks toy_json demo_client demo_endpoint rq (Run_inference inputs) \<Longrightarrow>
       request_call rq \<noteq> ready_call \<and> request_call rq \<noteq> load_call \<and> rq \<noteq> []"
    by (auto simp: load_call_def ready_call_def d dest!: asked_call)
qed

lemma toy_encodes:
  "\<exists>nodes blob. encode_inputs toy_json False [demo_input] [] = Inr (nodes, blob) \<and>
     js_dump toy_json (infer_request toy_json False [] nodes) = Inr ''{}'' \<and>
     js_parse toy_json ''{}'' = Inr (infer_request toy_json False [] nodes)"
proof -
  have "bindR (encode_inputs toy_json False [demo_input] []) (\<lambda>(nodes, blob).
      Inr (js_dump toy_json (infer_request toy_json False [] nodes) = Inr ''{}'' \<and>
        js_parse toy_json ''{}'' = Inr (infer_request toy_json False [] nodes))) = Inr True" by code_simp
  then show ?thesis by (auto simp: bindR_eq_Inr)
qed

lemma toy_sends: "toy_server loaded c = Some (a, s') \<Longrightarrow> http_can_send toy_os toy_json demo_client demo_endpoint c"
proof (erule toy_serverE)
  have h: "header_safe demo_client demo_endpoint" by code_simp
  show "c = Run_inference [demo_input] \<Longrightarrow> ?thesis"
  proof -
    assume c: "c = Run_inference [demo_input]"
    have b: "binaryEnabled toy_os = False" by code_simp
    obtain nodes blob where e: "encode_inputs toy_json False [demo_input] [] = Inr (nodes, blob)"
      "js_dump toy_json (infer_request toy_json False [] nodes) = Inr ''{}''"
      "js_parse toy_json ''{}'' = Inr (infer_request toy_json False [] nodes)"
      using toy_encodes by blast
    have "list_all (http_sendable False) [demo_input]" by code_simp
    moreover have "cl_output_names demo_client = []" by (simp add: demo_client_def)
    moreover have "list_all (\<lambda>x. carries_no_nan (ii_datatype x) (the (ii_data x))) [demo_input]"
      by (simp add: carries_no_nan_def demo_input_def)
    moreover have "json_writes toy_json (infer_request toy_json False [] ns)"
      if "encode_inputs toy_json False [demo_input] [] = Inr (ns, bs)" for ns bs
      using that e by (auto simp: json_writes_def)
    ultimately show ?thesis
      using h unfolding http_can_send_def c api_call.case b by (simp only: if_False simp_thms) blast
  qed
  have "word_text ''m''" by code_simp
  then show "c = Load_model ''m'' \<Longrightarrow> ?thesis" using h by (simp add: http_can_send_def)
  show "c = Ask_model_ready \<Longrightarrow> ?thesis" using h by (simp add: http_can_send_def)
qed

lemma toy_carries: "http_carries toy_json [demo_out] (framed_response 200 ''OK'' (Counted [''Inference-Header-Content-Length: 2''] [] ''[]123''))"
proof -
  have "framed_response 200 ''OK'' (Counted [''Inference-Header-Content-Length: 2''] [] ''[]123'') =
      \<lparr>hr_status = 200, hr_body = ''[]'' @ map char_of_byte (concat (map io_data [demo_out])), hr_inference_header_length = 2\<rparr>"
    by code_simp
  moreover have "js_parse toy_json ''[]'' = Inr (response_doc toy_json [] (map (binary_node toy_json) [demo_out]))" by code_simp
  moreover have "json_laws toy_json" unfolding toy_json_def by (rule doc_laws)
  ultimately show ?thesis
    unfolding http_carries_def
    by (intro conjI exI [of _ "''[]''"] exI [of _ "[]"] disjI1) (simp_all add: demo_out_def)
qed

text \<open>The peer does what the server says.\<close>

lemma toy_says:
  assumes "toy_server loaded c = Some (a, s')" "http_asks toy_json demo_client demo_endpoint request c"
  shows "request \<noteq> [] \<and> (request_call request = load_call \<or> loaded) = s' \<and>
    (case toy_response s' request of (status, reason, f) \<Rightarrow> http_says toy_json c a (framed_response status reason f))"
  using assms(1)
proof (rule toy_serverE)
  assume c: "c = Load_model ''m''" "a = Done" s'
  have "request_call request = load_call \<and> request \<noteq> []" using assms(2) unfolding c(1) by (rule toy_requests(1))
  then show ?thesis using c by (auto simp: toy_response_def framed_response_def)
next
  assume c: "c = Ask_model_ready" "a = Flag loaded" "s' = loaded"
  have "request_call request = ready_call \<and> request_call request \<noteq> load_call \<and> request \<noteq> []"
    using assms(2) unfolding c(1) by (rule toy_requests(2))
  then show ?thesis using c by (auto simp: toy_response_def framed_response_def)
next
  assume c: "c = Run_inference [demo_input]" "a = Tensors [demo_out]" "s' = loaded" loaded
  have "request_call request \<noteq> ready_call \<and> request_call request \<noteq> load_call \<and> request \<noteq> []"
    using assms(2) unfolding c(1) by (rule toy_requests(3))
  then show ?thesis using c toy_carries by (simp add: toy_response_def)
qed

lemma demo_parses: "parseEndpoint (cl_endpoint demo_client) 8080 = Inr demo_endpoint"
  by code_simp

lemma toy_http_can_ask: "http_can_ask toy_os toy_json toy_server toy_state"
  unfolding http_can_ask_def
proof (intro allI impI, elim conjE)
  fix s cl w c a s' ep
  assume k: "toy_state s (cl, w)" and t: "toy_server s c = Some (a, s')" and p: "parseEndpoint (cl_endpoint cl) 8080 = Inr ep"
  have "cl = demo_client" using k by (cases w) simp
  then have "ep = demo_endpoint" using p demo_parses by simp
  then show "http_can_send toy_os toy_json cl ep c" using toy_sends [OF t] \<open>cl = demo_client\<close> by simp
qed

lemma toy_http_serves: "http_serves toy_os toy_json toy_server toy_state"
  unfolding http_serves_def
proof (intro conjI allI impI)
  show "json_laws toy_json" unfolding toy_json_def by (rule doc_laws)
  show "unit_random toy_os" by (simp add: unit_random_def unit_double_def toy_os_def script_os_def)
next
  fix s cl w c a s' assume "toy_state s (cl, w) \<and> toy_server s c = Some (a, s')"
  moreover obtain conn h where w: "w = (conn, h)" by (cases w)
  ultimately obtain fd where cl: "cl = demo_client" "conn = connection_at fd" "http_loaded h = s"
    and t: "toy_server s c = Some (a, s')" by auto
  show "valid_policy (cl_retry_policy cl)" using demo_policy_valid by (simp add: cl demo_client_def)
  have l: "learnt a demo_client = demo_client" using t by (rule toy_serverE) simp_all
  show "\<exists>ep. parseEndpoint (cl_endpoint cl) 8080 = Inr ep \<and>
      (\<forall>request. http_asks toy_json cl ep request c \<longrightarrow>
        (\<exists>resp w'. http_answered toy_os cl ep request w resp w' \<and> http_says toy_json c a resp \<and> toy_state s' (learnt a cl, w')))"
    unfolding cl(1,2) w l
  proof (intro exI [of _ demo_endpoint] conjI allI impI)
    show "parseEndpoint (cl_endpoint demo_client) 8080 = Inr demo_endpoint" by (rule demo_parses)
    fix request assume r: "http_asks toy_json demo_client demo_endpoint request c"
    obtain status reason f where f: "toy_response s' request = (status, reason, f)" by (cases "toy_response s' request")
    have s: "request \<noteq> []" "(request_call request = load_call \<or> http_loaded h) = s'"
      "http_says toy_json c a (framed_response status reason f)"
      using toy_says [OF t r] unfolding f cl(3) by simp_all
    obtain fd' h' where "http_answered toy_os demo_client demo_endpoint request (connection_at fd, h)
        (framed_response status reason f) (connection_at fd', h')" "http_loaded h' = s'"
      using toy_answered [OF s(1), of h status reason f fd] f unfolding s(2) by blast
    then show "\<exists>resp w'. http_answered toy_os demo_client demo_endpoint request (connection_at fd, h) resp w' \<and>
        http_says toy_json c a resp \<and> toy_state s' (demo_client, w')"
      using s(3) by (metis toy_state.simps)
  qed
qed

section \<open>Behind gRPC\<close>

text \<open>The first call of all finds the service unavailable; the client makes it again.\<close>

fun grpc_loaded :: "grpc_history \<Rightarrow> bool" where
  "grpc_loaded [] = False"
| "grpc_loaded (GCall ch context request code # h) =
     (code = 0 \<and> request = RepositoryModelLoadRequest ''m'' \<or> grpc_loaded h)"
| "grpc_loaded (e # h) = grpc_loaded h"

definition late_stub :: "'r \<Rightarrow> 'r stub" where
  "late_stub x h ch context request = (if h = [] then (\<lparr>st_code = 14, st_message = ''down''\<rparr>, x) else (\<lparr>st_code = 0, st_message = []\<rparr>, x))"

definition toy_answer :: ModelInferResponse where
  "toy_answer =
     \<lparr>rs_outputs = [\<lparr>ot_name = ''y'', ot_datatype = ''UINT8'', ot_shape = [3], ot_contents = None\<rparr>],
      rs_raw_output_contents = [''123'']\<rparr>"

definition toy_net :: grpc_net where
  "toy_net = demo_net
     \<lparr>gn_random := (\<lambda>_. Fin (1 / 2)),
      gn_ModelReady := (\<lambda>h. late_stub (grpc_loaded h) h),
      gn_ModelInfer := late_stub toy_answer,
      gn_RepositoryModelLoad := late_stub ()\<rparr>"

definition toy_grpc_state :: "bool \<Rightarrow> grpc_history \<Rightarrow> bool" where
  "toy_grpc_state loaded h \<longleftrightarrow> grpc_loaded h = loaded"

definition toy_calls :: "grpc_request \<Rightarrow> grpc_history \<Rightarrow> grpc_history" where
  "toy_calls request h =
     (let call = GCall (gc_channel demo_grpc) (client_context demo_grpc) request
      in call 0 # (if h = [] then [GSleep 1, GRandom (Fin (1 / 2)), call 14] else h))"

lemma toy_calls_loaded: "grpc_loaded (toy_calls request h) = (request = RepositoryModelLoadRequest ''m'' \<or> grpc_loaded h)"
  by (auto simp: toy_calls_def Let_def)

lemma toy_net_facts:
  "gn_ModelReady toy_net h = late_stub (grpc_loaded h) h" "gn_RepositoryModelLoad toy_net = late_stub ()"
  "gn_repository toy_net" "rawContentsEnabled toy_net" "unit_grpc_random toy_net"
  "gn_ModelInfer toy_net = late_stub toy_answer" "gn_random toy_net h = Fin (1 / 2)"
  by (simp_all add: toy_net_def demo_net_def rawContentsEnabled_def unit_grpc_random_def unit_double_def)

lemma toy_grpc_policy: "valid_policy (gc_retry_policy demo_grpc)" "nat (rp_max_attempts (gc_retry_policy demo_grpc)) = 2"
  by (simp_all add: demo_grpc_def valid_policy_def rnd_def)

text \<open>A stub that is late and then answers \<open>x\<close>, whatever it answers while it is late.\<close>

lemma toy_grpc_answered:
  assumes "\<And>v. v \<noteq> [] \<Longrightarrow> grpc_loaded v = grpc_loaded h \<Longrightarrow>
      stub v (gc_channel demo_grpc) (client_context demo_grpc) request = (\<lparr>st_code = 0, st_message = []\<rparr>, x)"
    and "h = [] \<Longrightarrow> st_code (fst (stub [] (gc_channel demo_grpc) (client_context demo_grpc) request)) = 14"
  shows "grpc_answered toy_net demo_grpc stub request h x (toy_calls request h)"
proof (cases "h = []")
  case False
  then show ?thesis
    unfolding grpc_answered_def toy_grpc_policy(2)
    using assms(1) [of h] by (intro exI [of _ 0] exI [of _ h]) (simp add: toy_calls_def Let_def)
next
  case True
  let ?call = "GCall (gc_channel demo_grpc) (client_context demo_grpc) request"
  let ?v = "[GSleep 1, GRandom (Fin (1 / 2)), ?call 14]"
  obtain status y where st: "stub [] (gc_channel demo_grpc) (client_context demo_grpc) request = (status, y)" "st_code status = 14"
    using assms(2) [OF True] by (cases "stub [] (gc_channel demo_grpc) (client_context demo_grpc) request") simp
  have "backoffDelayMs (gc_retry_policy demo_grpc) (int (Suc 0)) (Fin (1 / 2)) = Inr 1"
    unfolding backoff_half [OF toy_grpc_policy(1)] by (simp add: demo_grpc_def term_ms_def)
  then have "state_before (gc_retry_policy demo_grpc) (unary_call demo_grpc stub request)
      (\<lambda>(s, _). \<not> status_ok s \<and> isRetryableGrpcStatus (st_code s)) grpc_sleep (grpc_jitter toy_net) [] 1 = Some ?v"
    using st by (simp add: retry_step_def unary_call_result is_final_def status_ok_def isRetryableGrpcStatus_def
        grpc_jitter_def grpc_sleep_def toy_net_facts Let_def)
  moreover have "stub ?v (gc_channel demo_grpc) (client_context demo_grpc) request = (\<lparr>st_code = 0, st_message = []\<rparr>, x)"
    by (rule assms(1)) (simp_all add: True)
  ultimately show ?thesis
    unfolding grpc_answered_def toy_grpc_policy(2) True
    by (intro exI [of _ 1] exI [of _ ?v]) (simp add: toy_calls_def Let_def)
qed

lemma toy_grpc_carries: "grpc_carries [demo_out] toy_answer"
proof -
  have "map char_of_byte (io_data demo_out) = ''123''" by code_simp
  then show ?thesis by (simp add: toy_answer_def grpc_carries_def output_describes_def or_fp32_def demo_out_def)
qed

lemma toy_grpc_sends: "grpc_can_ask toy_net toy_server"
  unfolding grpc_can_ask_def
proof (intro allI impI)
  fix s c a s' assume "toy_server s c = Some (a, s')"
  then show "grpc_can_send toy_net c"
    by (rule toy_serverE) (simp_all add: grpc_can_send_def sendable_def demo_input_def toy_net_facts)
qed

lemma toy_grpc_says:
  assumes "toy_server loaded c = Some (a, s')" "grpc_asks demo_grpc request c" "grpc_loaded h = loaded"
  shows "grpc_replies toy_net demo_grpc request h c a (toy_calls request h) \<and> grpc_loaded (toy_calls request h) = s'"
  using assms(1)
proof (rule toy_serverE)
  assume c: "c = Load_model ''m''" "a = Done" s'
  have "grpc_answered toy_net demo_grpc (gn_RepositoryModelLoad toy_net) request h () (toy_calls request h)"
    by (rule toy_grpc_answered) (simp_all add: toy_net_facts late_stub_def)
  then show ?thesis using c assms(2) by (simp add: toy_net_facts toy_calls_loaded)
next
  assume c: "c = Ask_model_ready" "a = Flag loaded" "s' = loaded"
  have "grpc_answered toy_net demo_grpc (gn_ModelReady toy_net) request h loaded (toy_calls request h)"
    by (rule toy_grpc_answered) (use assms(3) in \<open>simp_all add: toy_net_facts late_stub_def\<close>)
  then show ?thesis using c assms(2,3) by (simp add: toy_calls_loaded)
next
  assume c: "c = Run_inference [demo_input]" "a = Tensors [demo_out]" "s' = loaded" loaded
  have "grpc_answered toy_net demo_grpc (gn_ModelInfer toy_net) request h toy_answer (toy_calls request h)"
    by (rule toy_grpc_answered) (simp_all add: toy_net_facts late_stub_def)
  then have "grpc_replies toy_net demo_grpc request h c a (toy_calls request h)" using toy_grpc_carries c by auto
  then show ?thesis using c assms(3) by (simp add: toy_calls_loaded)
qed

lemma toy_grpc_serves: "grpc_serves toy_net demo_grpc toy_server toy_grpc_state"
  unfolding grpc_serves_def toy_grpc_state_def
  using toy_net_facts(5) toy_grpc_policy(1) toy_grpc_says by blast

section \<open>An application\<close>

text \<open>Ask whether the model is ready, load it if it is not, and once it is run an inference.\<close>

fun toy_application :: application where
  "toy_application [] = Ask_model_ready"
| "toy_application seen =
     (if last seen = Flag False then Load_model ''m''
      else if last seen = Done then Ask_model_ready
      else Run_inference [demo_input])"

lemma toy_run:
  "run_server toy_server toy_application 4 [] False = Some ([Flag False, Done, Flag True, Tensors [demo_out]], True)"
  by (simp add: numeral_eq_Suc toy_server_def)

end
