(* ===== verification/Spec2Isabelle.thy ===== *)
theory Spec2Isabelle
  imports Tls_Safety Grpc_Protocol Service_Example
begin

text \<open>
  Verification of a C++ client for the KServe V2 / Open Inference Protocol. An application holds an
  \<open>IClient\<close> (\<open>include/KserveTypes.hpp\<close>), which is an HTTP client
  (\<open>src/KserveHttpClient.cpp\<close>) or a gRPC client (\<open>src/KserveGrpcClient.cpp\<close>). Both wrap
  every request in the retry loop of \<open>KserveRetry\<close>; the HTTP client keeps one connection and uses
  the parsers and codecs of \<open>src/KserveProtocol.cpp\<close>. The names of functions and types are those
  of the code.

  \<^bold>\<open>How the code is modelled.\<close> An exception is a value of \<open>exn\<close> and a function that may throw
  returns \<open>exn + 'a\<close>; an operation without a defined meaning is the exception
  \<open>Undefined_behaviour\<close>, which no \<open>catch\<close> intercepts. A \<open>std::string\<close> is a list of
  characters, a byte vector a list of 8-bit words, \<open>std::size_t\<close> sums that can wrap are taken
  modulo \<open>2 ^ 64\<close>, integers of a fixed width whose bits matter are words, floating-point values
  are their IEEE-754 bits or, for the arithmetic of the backoff, rationals with explicit rounding.
  Code with side effects is a program: a function from a state to an outcome and a new state, or
  \<open>None\<close> when it does not return. The world is the history of the calls made to it, and what a call
  returns is an arbitrary function of that history, so that a theorem holds for every behaviour of
  server, network, OpenSSL and gRPC.

  \<^bold>\<open>Theories.\<close>
  \<^item> \<open>Prelude\<close>: exceptions, loops that may throw, little-endian bytes of words.
  \<^item> \<open>Cpp_String\<close>, \<open>Cpp_Double\<close>: what the code uses of the C++ library on strings
    (\<open>find\<close>, \<open>stoi\<close>, \<open>stoul\<close>, \<open>to_string\<close>) and on doubles (rounded
    operations, \<open>clamp\<close>, \<open>lround\<close>, \<open>stod\<close>).
  \<^item> \<open>Endpoint\<close>: \<open>parseEndpoint\<close>; parsing inverts rendering, the parsed fields are well
    formed, and when it throws.
  \<^item> \<open>Http_Response\<close>: \<open>parseHttpResponse\<close> with its de-chunk loop; it inverts the rendering of
    plain and chunked responses, returns unless a chunk size that the loop comes to makes the 64-bit
    position wrap (\<open>sizes_fit\<close>), and does not return for a crafted one.
  \<^item> \<open>Http_Framing\<close>: \<open>messageComplete\<close>, \<open>wantsClose\<close>, \<open>buildRequest\<close>; a
    response is complete exactly at its last byte, and one without a header that delimits it only with
    its connection. The exception are chunked responses with a chunk that holds the mark of the end
    (those without are \<open>safe_chunk\<close>): where the client cuts them off, and what it makes of the rest.
  \<^item> \<open>Http_Request\<close>: a reader of requests, written from the rules of HTTP/1.1. It reads a text
    built by \<open>buildRequest\<close> as exactly the method, target, fields and body it was built from, and
    nothing shorter as a request, provided that the parts contain no line break; a token with a line
    break adds a field of its own.
  \<^item> \<open>Half_Float\<close>: \<open>halfToFloat\<close> is exact, \<open>floatToHalf\<close> inverts it, rounds toward
    zero below the overflow threshold and goes wrong above it.
  \<^item> \<open>Json_Api\<close>: the JSON library as a record of functions with the laws it documents
    (\<open>json_laws\<close>), and a concrete document type that satisfies them. \<open>Tensor_Codec\<close> and
    \<open>Binary_Tensor\<close>: payloads as JSON numbers, the binary tensor extension, URL paths, repository
    index; round trips, error cases and bounds. The locale \<open>byte_codec\<close> is the contract of copying
    between bytes and a value, interpreted for the four widths of the code.
  \<^item> \<open>Secrets\<close>: tokens and TLS material from the environment and files.
  \<^item> \<open>Retry\<close>: \<open>retryPolicyFromEnv\<close>, \<open>backoffDelayMs\<close>, \<open>runWithRetry\<close>; the
    policy is valid, the delay bounded and defined, the loop refines the specification
    \<open>state_before\<close>, and for any random fractions it sleeps between attempts what the policy asks for
    (\<open>paced\<close>). The locales \<open>retry_invariant\<close> (what attempts
    keep, the loop keeps) and \<open>retry_counting\<close> (attempts that return can be counted) are the
    contracts between the loop and the two transports, which interpret them.
  \<^item> \<open>Os_World\<close>: programs, the system calls, a Hoare triple for programs, and the accounting of
    descriptors and TLS objects over a history. \<open>Http_Transport\<close>: sockets, TLS handshake, framed
    reader, keep-alive connection, \<open>roundTrip\<close>; every path releases what it acquired,
    \<open>sendAll\<close> sends every byte once, a failed round trip drops the connection, a delimited
    response is read in any segmentation, and one that is cut short is taken for a whole one.
  \<^item> \<open>Client_Types\<close>, \<open>Client_Interface\<close>: the data types and the abstract class; an application
    is a run of its operations. The locale \<open>iclient_contract\<close> is an invariant every operation
    keeps, \<open>response_reader\<close> what reading a response means; both clients interpret both.
  \<^item> \<open>Http_Client\<close>: constructor and operations of \<open>HttpClient\<close>, over its members, the
    connection and the history. The locale \<open>exchange_invariant\<close> is the contract between the
    transport and the operations: a property of the connection that retried exchanges keep is kept by
    every operation, so that the locale is a sublocale of \<open>iclient_contract\<close>. It is interpreted for
    the account of resources here, for TLS in \<open>Tls_Safety\<close> and for the wire protocol in
    \<open>Http_Protocol\<close>.
  \<^item> \<open>Tls_Safety\<close>: a specification of secure histories, stated over the system calls alone, and
    that a client with an \<open>https\<close> endpoint keeps it over any run: no plain traffic, and only
    sessions whose handshake has verified the peer.
  \<^item> \<open>Retry_Trace\<close>, \<open>Http_Protocol\<close>: the traffic of a client as seen by its peer. The
    inductive predicates \<open>retried\<close>, \<open>attempted\<close> and \<open>dialogue\<close> specify a retried
    exchange, one attempt and a whole life; the locale \<open>retry_trace\<close> relates the loop to the first,
    and the client implements all three.
  \<^item> \<open>Http_Inference\<close>: what an inference returns and what a server reads out of its bytes
    (\<open>server_reads\<close>), what is rejected before it is sent, what a metadata call returns and remembers,
    the model repository.
  \<^item> \<open>Grpc_Tensor\<close>: typed tensor contents and the fallback that reads widened doubles.
    \<open>Grpc_Wire\<close>: what typed contents mean by the protocol, over integers and without the client's
    codec; the client reads all of them that way and writes all but \<open>BOOL\<close>.
    \<open>Grpc_Client\<close>: constructor and operations of \<open>GrpcClient\<close>, over the history of calls; every
    operation returns within the attempts of the policy, every call carries the client's deadline and
    token to the client's channel, requests and responses carry the tensors unchanged.
    \<open>Grpc_Protocol\<close>: the sequence of calls a server sees is a trace of \<open>retried\<close>, and its
    last answer decides the outcome.
  \<^item> \<open>Model_Server\<close>: the abstract specification of both clients, a server as a machine that
    answers calls, and adaptive applications. The locale \<open>stands_for\<close> is a simulation between a
    client and the machine, under which no application can tell them apart. \<open>Http_Service\<close> and
    \<open>Grpc_Service\<close> say what a server understands of a request and what a response means on each
    transport, and interpret the locale. A server behind HTTP reads the bytes of the request with the
    reader of \<open>Http_Request\<close> (\<open>asks_for\<close>); what each transport can send is stated apart
    (\<open>http_can_send\<close>, \<open>grpc_can_send\<close>), since the sets differ. \<open>Http_Service\<close> also says when an exchange succeeds, over a
    kept or a new connection, with any of the three ways to delimit a response and after failed
    attempts, and how calls fail. \<open>Service_Example\<close> is a
    server over both, with a dead connection and an unavailable service on the way.
  \<^item> This theory: an inference from the bytes on the socket to the tensors, and the agreement of the two
    transports with each other and with the server on the calls both can send.

  \<^bold>\<open>Loops.\<close> No fuel is used. The address, send, retry and parsing loops terminate and are total
  functions; the de-chunk loop and the framed reader may run for ever and are partial functions whose
  value \<open>None\<close> means just that; where the code returns is proved as such.

  \<^bold>\<open>Assumptions.\<close> A little-endian host with 32-bit \<open>int\<close>, 64-bit \<open>long\<close> and
  \<open>std::size_t\<close>, IEEE-754 arithmetic rounding to nearest, the C locale. A client is used by one
  thread, as the sources require, in a process that ignores \<open>SIGPIPE\<close>. \<open>getenv\<close> answers the
  same throughout. A unary gRPC call
  returns, since it has a deadline. Allocation does not fail. The fields of protobuf messages that the
  client neither sets nor reads are left out.

  \<^bold>\<open>Not modelled.\<close> The generated protobuf and gRPC code, nlohmann/json and OpenSSL are not in the
  repository and are parameters; the text of \<open>gai_strerror\<close> and of OpenSSL errors is a parameter
  too. Copying, moving and destroying client objects beyond the release of the connection, timing, and
  the tests, build files and scripts.
\<close>

section \<open>An inference from end to end\<close>

text \<open>
  C1: an inference from end to end. A client with a valid policy calls \<open>infer\<close>. Whatever happened in
  the attempts before, a dead connection, an unreachable server, a transient status, as soon as one
  attempt within the limit has a connection, kept or new, plain or TLS, over which a server accepts the
  request and answers, delimited by \<open>Content-Length\<close>, in chunks or by its end, and in segments of any
  size, with a response that carries some tensors, the call returns exactly these tensors. It has read
  not a byte more than the response, and it keeps the connection unless the server ended it or asked to
  close it. Chunks may hold any bytes but one text: the mark of the end of the message, a line break, a
  zero, and two more line breaks, in the data of a chunk together with the line breaks around it
  (\<open>safe_chunk\<close>). A chunk with the mark does break the call, see \<open>complete_at_mark\<close> and
  \<open>parse_cut_chunk\<close>.
\<close>

theorem http_infer_end_to_end:
  assumes "parseEndpoint (cl_endpoint cl) 8080 = Inr ep"
    and "encode_inputs J (binaryEnabled os) inputs [] = Inr (nodes, blob)"
    and "js_dump J (infer_request J (binaryEnabled os) (cl_output_names cl) nodes) = Inr dumped"
    and "valid_policy (cl_retry_policy cl)" "unit_random os"
    and "before_attempt os cl ep (infer_http_request os cl ep dumped blob) s k = Some v"
    and "k < nat (rp_max_attempts (cl_retry_policy cl))"
    and "ensureConnected os ep (cl_timeout_ms cl) v = Some (Inr c, (conn, h))"
    and "answers os c (infer_http_request os cl ep dumped blob) h f ds h'"
    and "framed_segments status reason f ds" "http_carries J outs (framed_response status reason f)"
  shows "http_infer os J inputs (cl, s) = Some (Inr outs, (cl, settled f ds (conn, h')))"
proof -
  have "hr_status (framed_response status reason f) = 200" using assms(11) by (simp add: http_carries_def)
  then have "\<not> isRetryableHttpStatus (int status)" by (simp add: framed_response_def isRetryableHttpStatus_def)
  then have "http_answered os cl ep (infer_http_request os cl ep dumped blob) s (framed_response status reason f)
      (settled f ds (conn, h'))"
    unfolding http_answered_def using assms(6-10) by blast
  then show ?thesis
    using http_infer_exchange [OF assms(1-3) exchange_answered [OF assms(4,5)]] http_reader.reads_carried [OF assms(11)]
    by simp
qed

text \<open>
  A connection kept from an earlier call turns out to be dead; the second attempt, over a new one, is
  answered in two segments.
\<close>

definition flaky_server :: os where
  "flaky_server = demo_server\<lparr>os_send := (\<lambda>h fd d. if fd = 3 then - 1 else int (length d))\<rparr>"

lemma flaky_server_dead: "dead_socket flaky_server"
  by (simp add: dead_socket_def flaky_server_def demo_server_def script_os_def)

theorem http_infer_end_to_end_witness:
  "\<exists>h'. http_infer flaky_server demo_json [demo_input] (demo_client, (connection_at 3, [])) =
    Some (Inr [demo_out], (demo_client, (connection_at 8, h')))"
proof -
  let ?ds = "[''HTTP/1.1 200 OK'' @ crlf @ ''Inference-Header-Content-Length: 2'' @ crlf @ ''Content-Length: 5'' @ crlf @ crlf @ ''{}1'', ''23'']"
  let ?f = "Counted [''Inference-Header-Content-Length: 2''] [] ''{}123''"
  let ?rq = "infer_http_request flaky_server demo_client demo_endpoint ''{}''"
  have ep: "parseEndpoint (cl_endpoint demo_client) 8080 = Inr demo_endpoint" by code_simp
  have "\<not> binaryEnabled flaky_server" by code_simp
  then obtain nodes blob where enc: "encode_inputs demo_json (binaryEnabled flaky_server) [demo_input] [] = Inr (nodes, blob)"
    and dump: "js_dump demo_json (infer_request demo_json (binaryEnabled flaky_server) (cl_output_names demo_client) nodes) = Inr ''{}''"
    and req: "?rq blob = ?rq []"
    by (rule demo_encoding)
  have pol: "cl_timeout_ms demo_client = 1000" "valid_policy (cl_retry_policy demo_client)"
    "Suc 0 < nat (rp_max_attempts (cl_retry_policy demo_client))"
    using demo_policy_valid by (simp_all add: demo_client_def demo_policy_def)
  have rnd: "unit_random flaky_server"
    using flaky_server_dead by (simp add: unit_random_def unit_double_def dead_socket_def)
  have ne: "?rq [] \<noteq> []" by code_simp
  have "answers flaky_server (PlainConnection 8) (?rq []) (connected_history (?rq []) []) ?f ?ds
      (after_reads flaky_server (PlainConnection 8) (snd (the (sendAll flaky_server (PlainConnection 8) (?rq []) (connected_history (?rq []) [])))) ?ds)"
    by code_simp
  then have ans: "answers flaky_server (PlainConnection 8) (?rq blob) (connected_history (?rq blob) []) ?f ?ds
      (after_reads flaky_server (PlainConnection 8) (snd (the (sendAll flaky_server (PlainConnection 8) (?rq blob) (connected_history (?rq blob) [])))) ?ds)"
    unfolding req .
  have seg: "framed_segments 200 ''OK'' ?f ?ds" by code_simp
  have "\<not> wantsClose (concat ?ds)" by code_simp
  then have kept: "settled ?f ?ds s = s" for s by (simp add: settled_def)
  have "framed_response 200 ''OK'' ?f = demo_http_response" by code_simp
  then have carries: "http_carries demo_json [demo_out] (framed_response 200 ''OK'' ?f)"
    using demo_carries by simp
  have con: "ensureConnected flaky_server demo_endpoint (cl_timeout_ms demo_client) (new_connection, retried_history (?rq blob) []) =
      Some (Inr (PlainConnection 8), (connection_at 8, connected_history (?rq blob) []))"
    using dead_connects [OF flaky_server_dead, of "?rq blob" "[]"] pol(1) by simp
  have bef: "before_attempt flaky_server demo_client demo_endpoint (?rq blob) (connection_at 3, []) (Suc 0) =
      Some (new_connection, retried_history (?rq blob) [])"
    using dead_before [OF flaky_server_dead] ne unfolding req .
  from http_infer_end_to_end [OF ep enc dump pol(2) rnd bef pol(3) con ans seg carries]
  show ?thesis unfolding kept by blast
qed

section \<open>The two transports\<close>

text \<open>
  C2: an application cannot tell the transports apart, nor either of them from the server, within the
  calls that both can send. A server is a machine that answers calls. Behind HTTP it gets bytes, reads
  the method, path, token and tensors out of them by the rules of HTTP and of the protocol, and answers
  with framed responses, JSON or binary; behind gRPC it gets request messages and answers with raw or
  typed contents; in both cases attempts may fail and be retried. Then every application, whose calls
  may depend on all earlier answers, gets from both clients exactly the answers the machine gives when
  it is called directly.

  The last two hypotheses are the limits. \<open>http_can_send\<close>, for every call answered: host, token, path
  prefix, model name and version can stand in the head of a request, the name of a repository operation
  too; the inputs have data, and unless the binary extension is on also a JSON datatype, whole elements and
  no FP32 or FP16 NaN; with it the payloads are shorter than \<open>2^63\<close> bytes; the JSON library reads back
  what it writes. \<open>grpc_can_send\<close>: the inputs have data, and unless raw contents are on also a datatype
  with a typed field, whole elements and not \<open>BOOL\<close>. Outside these limits the transports do differ.
\<close>

theorem transports_agree:
  assumes "http_serves os J server K" "K s (cl, w)" "grpc_serves net gcl server L" "L s h"
    and "run_server server app n [] s = Some (results, s')"
    and "\<And>t d v c a t' ep. K t (d, v) \<Longrightarrow> server t c = Some (a, t') \<Longrightarrow> parseEndpoint (cl_endpoint d) 8080 = Inr ep \<Longrightarrow>
      http_can_send os J d ep c"
    and "\<And>t c a t'. server t c = Some (a, t') \<Longrightarrow> grpc_can_send net c"
  shows "\<exists>w' h'. run_application (http_iclient os J) app n [] (cl, w) = Some (Inr results, w') \<and>
    run_application (grpc_iclient net gcl) app n [] h = Some (Inr results, h')"
proof -
  have "http_can_ask os J server K" "grpc_can_ask net server"
    using assms(6,7) unfolding http_can_ask_def grpc_can_ask_def by blast+
  then have h: "(http_serves os J server K \<and> http_can_ask os J server K) \<and> K s (cl, w)"
    and g: "(grpc_serves net gcl server L \<and> grpc_can_ask net server) \<and> L s h"
    using assms(1-4) by simp_all
  show ?thesis
    using http_service.runs [where K = K, OF h assms(5)] grpc_service.runs [where L = L, OF g assms(5)] by blast
qed

text \<open>
  In the witness the kept HTTP connection is dead and the first gRPC call finds the service unavailable, so
  that both clients retry before the application gets its first answer.
\<close>

theorem transports_agree_witness:
  "\<exists>w' h'. run_application (http_iclient toy_os toy_json) toy_application 4 [] (demo_client, (connection_at 3, [])) =
      Some (Inr [Flag False, Done, Flag True, Tensors [demo_out]], w') \<and>
    run_application (grpc_iclient toy_net demo_grpc) toy_application 4 [] [] =
      Some (Inr [Flag False, Done, Flag True, Tensors [demo_out]], h')"
proof (rule transports_agree [OF toy_http_serves _ toy_grpc_serves _ toy_run])
  show "toy_state False (demo_client, (connection_at 3, []))" "toy_grpc_state False []"
    by (auto simp: toy_grpc_state_def)
  show "http_can_send toy_os toy_json d ep c"
    if "toy_state t (d, v)" "toy_server t c = Some (a, t')" "parseEndpoint (cl_endpoint d) 8080 = Inr ep" for t d v c a t' ep
    using toy_http_can_ask that unfolding http_can_ask_def by blast
  show "grpc_can_send toy_net c" if "toy_server t c = Some (a, t')" for t c a t'
    using toy_grpc_sends that unfolding grpc_can_ask_def by blast
qed

end
